(* ===== verification/Prelude.thy ===== *)
theory Prelude
  imports Main "HOL-Library.Word"
begin

text \<open>
  Shared vocabulary of the development.  Octets and machine integers are words of the width the
  C++ code declares; a buffer is the list of its octets.  Reads of a buffer go through
  \<open>byte_at\<close>, which is \<open>!\<close> inside the buffer; every theorem that concerns a handler also
  states (or its guards show) that the octets it reads lie inside the message.
\<close>

unbundle bit_operations_syntax

type_synonym u8 = "8 word"
type_synonym u16 = "16 word"
type_synonym u32 = "32 word"
type_synonym u64 = "64 word"
type_synonym bytes = "u8 list"

named_theorems le_simps \<open>little-endian reads of a buffer\<close>
named_theorems frame_simps \<open>what an operation leaves unchanged\<close>

section \<open>Buffers\<close>

definition byte_at :: "bytes \<Rightarrow> nat \<Rightarrow> u8" where
  "byte_at b i = (if i < length b then b ! i else 0)"

lemma byte_at_nth: "i < length b \<Longrightarrow> byte_at b i = b ! i"
  by (simp add: byte_at_def)

lemma byte_at_Nil [simp]: "byte_at [] i = 0"
  and byte_at_Cons_0 [simp]: "byte_at (x # xs) 0 = x"
  and byte_at_Cons_Suc [simp]: "byte_at (x # xs) (Suc i) = byte_at xs i"
  and byte_at_Cons_numeral [simp]:
    "byte_at (x # xs) (numeral n) = byte_at xs (pred_numeral n)"
  by (simp_all add: byte_at_def numeral_eq_Suc)

lemma byte_at_append:
  "byte_at (xs @ ys) i = (if i < length xs then byte_at xs i else byte_at ys (i - length xs))"
  by (auto simp add: byte_at_def nth_append)

lemma byte_at_append_left [simp]: "i < length xs \<Longrightarrow> byte_at (xs @ ys) i = byte_at xs i"
  by (simp add: byte_at_append)

lemma byte_at_drop [simp]: "byte_at (drop n b) i = byte_at b (n + i)"
  by (auto simp add: byte_at_def)

lemma byte_at_take: "byte_at (take n b) i = (if i < n then byte_at b i else 0)"
  by (auto simp add: byte_at_def)

lemma byte_at_code [code]:
  "byte_at b i = (case b of [] \<Rightarrow> 0 | x # xs \<Rightarrow> if i = 0 then x else byte_at xs (i - 1))"
  by (cases b; cases i) (auto simp add: byte_at_def)

text \<open>\<open>memset\<close>, \<open>memcpy\<close> and \<open>memmove\<close> into a buffer.\<close>

definition store_at :: "bytes \<Rightarrow> nat \<Rightarrow> bytes \<Rightarrow> bytes" where
  "store_at r off bs = take off r @ bs @ drop (off + length bs) r"

lemma length_store_at [simp]: "off + length bs \<le> length r \<Longrightarrow> length (store_at r off bs) = length r"
  by (simp add: store_at_def)

lemma take_store_at: "off + length bs \<le> length r \<Longrightarrow> take (off + length bs) (store_at r off bs) = take off r @ bs"
  by (simp add: store_at_def)

section \<open>Little-endian loads\<close>

text \<open>
  \<open>*reinterpret_cast<const uint16_t *>(p)\<close> and its wider variants on the little-endian targets
  the driver is built for.
\<close>

definition le16 :: "bytes \<Rightarrow> nat \<Rightarrow> u16" where
  "le16 b i = ucast (byte_at b i) OR push_bit 8 (ucast (byte_at b (i + 1)))"

definition le32 :: "bytes \<Rightarrow> nat \<Rightarrow> u32" where
  "le32 b i = ucast (byte_at b i) OR push_bit 8 (ucast (byte_at b (i + 1)))
     OR push_bit 16 (ucast (byte_at b (i + 2))) OR push_bit 24 (ucast (byte_at b (i + 3)))"

definition le64 :: "bytes \<Rightarrow> nat \<Rightarrow> u64" where
  "le64 b i = ucast (le32 b i) OR push_bit 32 (ucast (le32 b (i + 4)))"

lemmas le_loads = le16_def le32_def le64_def

lemma le16_append [le_simps]: "i + 1 < length xs \<Longrightarrow> le16 (xs @ ys) i = le16 xs i"
  by (simp add: le16_def)

lemma le32_append [le_simps]: "i + 3 < length xs \<Longrightarrow> le32 (xs @ ys) i = le32 xs i"
  by (simp add: le32_def)

lemma le64_append [le_simps]: "i + 7 < length xs \<Longrightarrow> le64 (xs @ ys) i = le64 xs i"
  by (simp add: le64_def le_simps)

section \<open>Words\<close>

lemma unat_u8_less [simp]: "unat (x :: u8) < 256"
  using unsigned_less [of x] by simp

lemma unat_u16_less [simp]: "unat (x :: u16) < 65536"
  using unsigned_less [of x] by simp

lemma unat_ucast_u8_u32 [simp]: "unat (ucast (x :: u8) :: u32) = unat x"
proof -
  have "unat x < 2 ^ 32"
    by (rule order_less_trans [OF unat_u8_less]) simp
  then show ?thesis
    by (simp add: unsigned_ucast_eq take_bit_nat_eq_self)
qed

lemma sint_word_of_int_id: "- (2 ^ 31) \<le> x \<Longrightarrow> x < 2 ^ 31 \<Longrightarrow> sint (word_of_int x :: u32) = x"
  by (simp add: sint_sbintrunc' signed_take_bit_int_eq_self)

section \<open>Tuples\<close>

lemma triple_eq: "p = (fst p, fst (snd p), snd (snd p))"
  by simp

lemma quad_eq: "p = (fst p, fst (snd p), fst (snd (snd p)), snd (snd (snd p)))"
  by simp

section \<open>Lists\<close>

lemma take_Suc_snoc: "i < length xs \<Longrightarrow> take (Suc i) xs = take i xs @ [xs ! i]"
  by (rule take_Suc_conv_app_nth)

end
