(* ===== verification/Ubx_Frame.thy ===== *)
theory Ubx_Frame
  imports Prelude
begin

text \<open>
  The UBX frame: sync pair, class, id, 16-bit payload length, payload and an 8-bit Fletcher
  checksum, as \<open>check_checksum\<close>, \<open>set_checksum\<close>, \<open>verifyMsg\<close> and \<open>check_ack\<close> treat it.  A buffer may be
  longer than the message; \<open>len\<close> is what the callback was told.
\<close>

definition UBX_SYNC_1 :: u8 where "UBX_SYNC_1 = 0xB5"
definition UBX_SYNC_2 :: u8 where "UBX_SYNC_2 = 0x62"
definition UBX_ACK_ACK_ID :: u16 where "UBX_ACK_ACK_ID = 0x0501"
definition UBX_ACK_NAK_ID :: u16 where "UBX_ACK_NAK_ID = 0x0500"
definition UBX_RXMSFRBX_ID :: u16 where "UBX_RXMSFRBX_ID = 0x0213"
definition UBX_RXMRAWX_ID :: u16 where "UBX_RXMRAWX_ID = 0x0215"
definition UBX_NAVPOS_ID :: u16 where "UBX_NAVPOS_ID = 0x0107"
definition UBX_TIM_TP_ID :: u16 where "UBX_TIM_TP_ID = 0x0D01"
definition kUbxMsgHeaderLen :: nat where "kUbxMsgHeaderLen = 6"

lemmas ubx_ids = UBX_SYNC_1_def UBX_SYNC_2_def UBX_ACK_ACK_ID_def UBX_ACK_NAK_ID_def
  UBX_RXMSFRBX_ID_def UBX_RXMRAWX_ID_def UBX_NAVPOS_ID_def UBX_TIM_TP_ID_def

section \<open>Checksum\<close>

definition checksum_step :: "u8 \<times> u8 \<Rightarrow> u8 \<Rightarrow> u8 \<times> u8" where
  "checksum_step c b = (let cka = fst c + b in (cka, snd c + cka))"

text \<open>The loop of both routines: octets 2 to \<open>size - 3\<close>.\<close>

definition checksum_of :: "bytes \<Rightarrow> nat \<Rightarrow> u8 \<times> u8" where
  "checksum_of data len = foldl checksum_step (0, 0) (take (len - 4) (drop 2 data))"

definition check_checksum :: "bytes \<Rightarrow> nat \<Rightarrow> bool" where
  "check_checksum data len =
     (let (cka, ckb) = checksum_of data len
      in cka = byte_at data (len - 2) \<and> ckb = byte_at data (len - 1))"

definition set_checksum :: "bytes \<Rightarrow> nat \<Rightarrow> bytes" where
  "set_checksum data len =
     (let (cka, ckb) = checksum_of data len
      in data[len - 2 := cka, len - 1 := ckb])"

section \<open>Messages\<close>

text \<open>\<open>verifyMsg\<close>, with its early returns in the order of the code.\<close>

definition verifyMsg :: "bytes \<Rightarrow> nat \<Rightarrow> bool" where
  "verifyMsg data len =
     (if len < 8 then False
      else if byte_at data 0 \<noteq> UBX_SYNC_1 \<or> byte_at data 1 \<noteq> UBX_SYNC_2 then False
      else if len \<noteq> unat (le16 data 4) + kUbxMsgHeaderLen + 2 then False
      else check_checksum data len)"

definition msg_type :: "bytes \<Rightarrow> u16" where
  "msg_type data = push_bit 8 (ucast (byte_at data 2)) OR ucast (byte_at data 3)"

definition check_ack :: "bytes \<Rightarrow> nat \<Rightarrow> int" where
  "check_ack data len =
     (if \<not> verifyMsg data len then 0
      else if msg_type data = UBX_ACK_ACK_ID then 1
      else if msg_type data = UBX_ACK_NAK_ID then - 1
      else 0)"

section \<open>Checksum laws\<close>

lemma checksum_step_simp [simp]: "checksum_step (a, b) x = (a + x, b + (a + x))"
  by (simp add: checksum_step_def Let_def)

lemma checksum_fold:
  "foldl checksum_step (a, b) xs
    = (a + fst (foldl checksum_step (0, 0) xs),
       b + word_of_nat (length xs) * a + snd (foldl checksum_step (0, 0) xs))"
proof (induction xs arbitrary: a b)
  case (Cons x xs)
  have "foldl checksum_step (a, b) (x # xs) = foldl checksum_step (a + x, b + (a + x)) xs" by simp
  also have "\<dots> = (a + x + fst (foldl checksum_step (0, 0) xs),
      b + (a + x) + word_of_nat (length xs) * (a + x) + snd (foldl checksum_step (0, 0) xs))"
    by (rule Cons.IH)
  finally show ?case
    using Cons.IH [of x x] by (simp add: algebra_simps)
qed simp

lemma checksum_fst_append:
  "fst (foldl checksum_step (0, 0) (xs @ ys))
    = fst (foldl checksum_step (0, 0) xs) + fst (foldl checksum_step (0, 0) ys)"
proof -
  obtain a b where ab: "foldl checksum_step (0, 0) xs = (a, b)" by fastforce
  show ?thesis
    using checksum_fold [of a b ys] by (simp add: ab)
qed

lemma checksum_fst_Cons:
  "fst (foldl checksum_step (0, 0) (x # xs)) = x + fst (foldl checksum_step (0, 0) xs)"
  using checksum_fst_append [of "[x]" xs] by simp

lemma length_set_checksum [simp]: "length (set_checksum data n) = length data"
  by (simp add: set_checksum_def split_beta)

lemma checksum_of_update:
  assumes "n - 2 \<le> i"
  shows "checksum_of (data[i := x]) n = checksum_of data n"
proof -
  have "take (n - 4) (drop 2 (data[i := x])) = take (n - 4) (drop 2 data)"
    using assms by (intro nth_equalityI) auto
  then show ?thesis by (simp add: checksum_of_def)
qed

lemma check_set_checksum:
  assumes "4 \<le> n" and "n \<le> length data"
  shows "check_checksum (set_checksum data n) n"
proof -
  obtain a b where ab: "checksum_of data n = (a, b)" by fastforce
  then have "checksum_of (set_checksum data n) n = (a, b)"
    by (simp add: set_checksum_def checksum_of_update)
  moreover have "n - 2 < length data" and "n - 1 < length data" and "n - 2 \<noteq> n - 1"
    using assms by auto
  ultimately show ?thesis
    by (simp add: check_checksum_def set_checksum_def ab byte_at_def)
qed

lemma msg_type_eq_iff:
  "msg_type data = w \<longleftrightarrow> byte_at data 2 = ucast (drop_bit 8 w) \<and> byte_at data 3 = ucast w"
proof
  assume "msg_type data = w"
  then have w: "w = push_bit 8 (ucast (byte_at data 2)) OR ucast (byte_at data 3)"
    by (simp add: msg_type_def)
  show "byte_at data 2 = ucast (drop_bit 8 w) \<and> byte_at data 3 = ucast w"
    unfolding w
    by (intro conjI bit_eqI)
      (auto simp add: bit_ucast_iff bit_drop_bit_eq bit_or_iff bit_push_bit_iff dest: bit_imp_le_length)
next
  assume b: "byte_at data 2 = ucast (drop_bit 8 w) \<and> byte_at data 3 = ucast w"
  show "msg_type data = w"
  proof (rule bit_eqI)
    fix n assume "possible_bit TYPE(16 word) n"
    then have "n < 16" by simp
    then show "bit (msg_type data) n = bit w n"
      using b by (auto simp add: msg_type_def bit_ucast_iff bit_drop_bit_eq bit_or_iff bit_push_bit_iff)
  qed
qed

text \<open>The first sum of a range in which one octet is replaced.\<close>

lemma checksum_fst_replace:
  "fst (foldl checksum_step (0, 0) (xs @ y # zs)) - fst (foldl checksum_step (0, 0) (xs @ x # zs)) = y - x"
  by (simp add: checksum_fst_append checksum_fst_Cons del: foldl_append foldl_Cons)

lemma checksum_of_replace:
  assumes "2 \<le> i" and "i + 2 < n" and "n \<le> length data" and "y \<noteq> data ! i"
  shows "fst (checksum_of (data[i := y]) n) \<noteq> fst (checksum_of data n)"
proof -
  let ?t = "take (n - 4) (drop 2 data)"
  have t: "take (n - 4) (drop 2 (data[i := y])) = ?t[i - 2 := y]"
    using assms(1,2) by (simp add: drop_update_swap take_update_swap)
  have len: "i - 2 < length ?t" using assms(1-3) by simp
  have "2 + (i - 2) = i" using assms(1) by simp
  then have "?t ! (i - 2) = data ! i" using assms(1-3) by (simp del: add_2_eq_Suc)
  then have "?t = take (i - 2) ?t @ data ! i # drop (Suc (i - 2)) ?t"
    using id_take_nth_drop [OF len] by simp
  moreover have "?t[i - 2 := y] = take (i - 2) ?t @ y # drop (Suc (i - 2)) ?t"
    by (rule upd_conv_take_nth_drop [OF len])
  ultimately have "fst (checksum_of (data[i := y]) n) - fst (checksum_of data n) = y - data ! i"
    unfolding checksum_of_def t by (metis checksum_fst_replace)
  then show ?thesis using assms(4) by auto
qed

text \<open>
  Claim C8.  A frame that \<open>verifyMsg\<close> accepts is rejected as soon as any one of its octets, header,
  length and checksum included, has a different value.
\<close>

theorem verifyMsg_detects_octet_error:
  assumes "verifyMsg data len" and "len \<le> length data" and "i < len" and "y \<noteq> data ! i"
  shows "\<not> verifyMsg (data[i := y]) len"
proof -
  have len: "8 \<le> len" and sync: "data ! 0 = UBX_SYNC_1" "data ! 1 = UBX_SYNC_2"
    and chk: "check_checksum data len"
    using assms(1,2) by (auto simp add: verifyMsg_def byte_at_def split: if_splits)
  consider (head) "i < 2" | (mid) "2 \<le> i" "i + 2 < len" | (tail) "len \<le> i + 2" by linarith
  then show ?thesis
  proof cases
    case head
    then have "i = 0 \<or> i = 1" by auto
    with assms len sync show ?thesis by (auto simp add: verifyMsg_def byte_at_def)
  next
    case mid
    have "fst (checksum_of (data[i := y]) len) \<noteq> fst (checksum_of data len)"
      by (rule checksum_of_replace) (use mid assms in auto)
    moreover have "fst (checksum_of data len) = data ! (len - 2)"
      using chk assms(2) len by (auto simp add: check_checksum_def byte_at_def split_beta)
    ultimately have "\<not> check_checksum (data[i := y]) len"
      using mid assms(2) len by (auto simp add: check_checksum_def byte_at_def split_beta)
    then show ?thesis by (auto simp add: verifyMsg_def simp del: add_2_eq_Suc')
  next
    case tail
    then have i: "i = len - 2 \<or> i = len - 1" using assms(3) by auto
    have "checksum_of (data[i := y]) len = checksum_of data len"
      using tail by (intro checksum_of_update) auto
    then have "\<not> check_checksum (data[i := y]) len"
      using i chk assms(2-4) len by (auto simp add: check_checksum_def byte_at_def split_beta)
    then show ?thesis by (auto simp add: verifyMsg_def simp del: add_2_eq_Suc')
  qed
qed

text \<open>The acknowledgement of a configuration message, used by the witnesses.\<close>

definition ack_frame :: bytes where
  "ack_frame = [0xB5, 0x62, 0x05, 0x01, 0x02, 0x00, 0x06, 0x8A, 0x98, 0xC1]"

lemma ack_frame_ok: "verifyMsg ack_frame 10"
  by code_simp

theorem verifyMsg_detects_octet_error_witness:
  "\<not> verifyMsg (ack_frame[3 := 0]) 10"
  by (rule verifyMsg_detects_octet_error [OF ack_frame_ok]) (simp_all add: ack_frame_def)

text \<open>Both checks look at the first \<open>len\<close> octets only.\<close>

lemma verifyMsg_take:
  assumes "len \<le> length data"
  shows "verifyMsg (take len data @ rest) len = verifyMsg data len"
proof (cases "len < 8")
  case True
  then show ?thesis by (simp add: verifyMsg_def)
next
  case False
  with assms show ?thesis
    by (simp add: verifyMsg_def check_checksum_def checksum_of_def le16_def byte_at_take drop_take min_def split_beta)
qed

lemma verifyMsg_len: "verifyMsg data len \<Longrightarrow> 8 \<le> len"
  by (auto simp add: verifyMsg_def split: if_splits)

lemma msg_type_take:
  "len \<le> length data \<Longrightarrow> 8 \<le> len \<Longrightarrow> msg_type (take len data @ rest) = msg_type data"
  by (simp add: msg_type_def byte_at_take)

text \<open>
  \<open>check_ack\<close> answers only to valid frames, never reads past the length it is given, and
  tells acknowledged (1), refused (-1) and everything else (0) apart by class and id alone.
\<close>

lemma check_ack_spec:
  assumes "len \<le> length data"
  shows "(check_ack data len = 1 \<longleftrightarrow> verifyMsg data len \<and> data ! 2 = 5 \<and> data ! 3 = 1)
    \<and> (check_ack data len = - 1 \<longleftrightarrow> verifyMsg data len \<and> data ! 2 = 5 \<and> data ! 3 = 0)
    \<and> check_ack data len \<in> {1, - 1, 0}
    \<and> check_ack (take len data @ rest) len = check_ack data len"
proof -
  note len = verifyMsg_len
  have "check_ack (take len data @ rest) len = check_ack data len"
    using assms len [of data len] by (auto simp add: check_ack_def verifyMsg_take msg_type_take)
  moreover have "verifyMsg data len \<Longrightarrow> byte_at data 2 = data ! 2 \<and> byte_at data 3 = data ! 3"
    using len [of data len] assms by (auto simp add: byte_at_def)
  ultimately show ?thesis
    by (auto simp add: check_ack_def ubx_ids msg_type_eq_iff split: if_splits)
qed

lemma check_ack_spec_witness:
  "check_ack ack_frame 10 = 1 \<and> check_ack (take 10 ack_frame @ [1, 2, 3]) 10 = 1"
  using check_ack_spec [of 10 ack_frame "[1, 2, 3]"] ack_frame_ok by (simp add: ack_frame_def)

end
