(* ===== verification/Float64.thy ===== *)
theory Float64
  imports Prelude
begin

text \<open>
  IEEE 754 binary64 and the conversions of C++ on it, as the driver's targets (x86-64 and AArch64
  with round to nearest even) compute them.  \<open>Fin m e\<close> stands for \<open>m * 2 ^ e\<close>; every operation
  computes the exact result on integers and rounds it once with \<open>f64_of\<close>, which yields one
  canonical pair per number, so that equality of doubles is equality of terms.  One thing is
  dropped: the sign of a zero, on which no branch of the code depends.
\<close>

datatype f64 = Fin int int | Inf bool | NaN

section \<open>Rounding\<close>

function blen :: "int \<Rightarrow> nat" where
  "blen n = (if n \<le> 0 then 0 else Suc (blen (n div 2)))"
  by pat_completeness auto
termination by (relation "measure nat") auto

declare blen.simps [simp del]

text \<open>The integer nearest to \<open>m / 2 ^ k\<close>, ties to even.\<close>

definition rne :: "int \<Rightarrow> nat \<Rightarrow> int" where
  "rne m k =
     (let q = m div 2 ^ k; r = m mod 2 ^ k in
      if 2 * r > 2 ^ k \<or> (2 * r = 2 ^ k \<and> odd q) then q + 1 else q)"

text \<open>A rounded significand that reached the next power of two moves up; too large overflows.\<close>

definition f64_pack :: "bool \<Rightarrow> int \<Rightarrow> int \<Rightarrow> f64" where
  "f64_pack neg q e1 =
     (let (q2, e2) = (if \<bar>q\<bar> = 2 ^ 53 then (q div 2, e1 + 1) else (q, e1))
      in if q2 = 0 then Fin 0 0 else if e2 > 971 then Inf neg else Fin q2 e2)"

text \<open>The double nearest to \<open>m * 2 ^ e\<close>.\<close>

definition f64_of :: "int \<Rightarrow> int \<Rightarrow> f64" where
  "f64_of m e =
     (if m = 0 then Fin 0 0
      else let e1 = max (e + int (blen \<bar>m\<bar>) - 53) (- 1074);
               q = (if e1 \<le> e then m * 2 ^ nat (e - e1) else rne m (nat (e1 - e)))
           in f64_pack (m < 0) q e1)"

definition f64_wf :: "f64 \<Rightarrow> bool" where
  "f64_wf x = (case x of
     Fin m e \<Rightarrow> (m = 0 \<and> e = 0)
       \<or> (m \<noteq> 0 \<and> \<bar>m\<bar> < 2 ^ 53 \<and> - 1074 \<le> e \<and> e \<le> 971 \<and> (2 ^ 52 \<le> \<bar>m\<bar> \<or> e = - 1074))
   | _ \<Rightarrow> True)"

section \<open>Arithmetic and comparison\<close>

definition f64_int :: "int \<Rightarrow> f64" where
  "f64_int n = f64_of n 0"

fun fneg :: "f64 \<Rightarrow> f64" where
  "fneg (Fin m e) = Fin (- m) e"
| "fneg (Inf s) = Inf (\<not> s)"
| "fneg NaN = NaN"

fun fadd :: "f64 \<Rightarrow> f64 \<Rightarrow> f64" where
  "fadd (Fin a e) (Fin b f) =
     (let g = min e f in f64_of (a * 2 ^ nat (e - g) + b * 2 ^ nat (f - g)) g)"
| "fadd NaN y = NaN"
| "fadd x NaN = NaN"
| "fadd (Inf s) (Inf t) = (if s = t then Inf s else NaN)"
| "fadd (Inf s) (Fin b f) = Inf s"
| "fadd (Fin a e) (Inf t) = Inf t"

definition fsub :: "f64 \<Rightarrow> f64 \<Rightarrow> f64" where
  "fsub x y = fadd x (fneg y)"

fun fmul :: "f64 \<Rightarrow> f64 \<Rightarrow> f64" where
  "fmul (Fin a e) (Fin b f) = f64_of (a * b) (e + f)"
| "fmul NaN y = NaN"
| "fmul x NaN = NaN"
| "fmul (Inf s) (Inf t) = Inf (s \<noteq> t)"
| "fmul (Inf s) (Fin b f) = (if b = 0 then NaN else Inf (s \<noteq> (b < 0)))"
| "fmul (Fin a e) (Inf t) = (if a = 0 then NaN else Inf (t \<noteq> (a < 0)))"

text \<open>
  Division keeps 55 or more quotient bits and a sticky bit, enough for a correct rounding.
\<close>

fun fdiv :: "f64 \<Rightarrow> f64 \<Rightarrow> f64" where
  "fdiv (Fin a e) (Fin b f) =
     (if b = 0 then (if a = 0 then NaN else Inf (a < 0))
      else let k = 56 + blen \<bar>b\<bar>;
               n = \<bar>a\<bar> * 2 ^ k;
               q = 2 * (n div \<bar>b\<bar>) + (if n mod \<bar>b\<bar> = 0 then 0 else 1)
           in f64_of (if (a < 0) = (b < 0) then q else - q) (e - f - int k - 1))"
| "fdiv NaN y = NaN"
| "fdiv x NaN = NaN"
| "fdiv (Inf s) (Inf t) = NaN"
| "fdiv (Inf s) (Fin b f) = Inf (s \<noteq> (b < 0))"
| "fdiv (Fin a e) (Inf t) = Fin 0 0"

fun flt :: "f64 \<Rightarrow> f64 \<Rightarrow> bool" where
  "flt (Fin a e) (Fin b f) =
     (let g = min e f in a * 2 ^ nat (e - g) < b * 2 ^ nat (f - g))"
| "flt NaN y = False"
| "flt x NaN = False"
| "flt (Inf s) (Inf t) = (s \<and> \<not> t)"
| "flt (Inf s) (Fin b f) = s"
| "flt (Fin a e) (Inf t) = (\<not> t)"

fun feq :: "f64 \<Rightarrow> f64 \<Rightarrow> bool" where
  "feq (Fin a e) (Fin b f) =
     (let g = min e f in a * 2 ^ nat (e - g) = b * 2 ^ nat (f - g))"
| "feq (Inf s) (Inf t) = (s = t)"
| "feq x y = False"

definition fle :: "f64 \<Rightarrow> f64 \<Rightarrow> bool" where
  "fle x y = (flt x y \<or> feq x y)"

section \<open>Conversions\<close>

text \<open>Truncation towards zero and floor, as integers; \<open>None\<close> for the infinities and NaN.\<close>

fun f64_trunc :: "f64 \<Rightarrow> int option" where
  "f64_trunc (Fin m e) =
     Some (if 0 \<le> e then m * 2 ^ nat e else sgn m * (\<bar>m\<bar> div 2 ^ nat (- e)))"
| "f64_trunc _ = None"

fun f64_floor :: "f64 \<Rightarrow> int option" where
  "f64_floor (Fin m e) = Some (if 0 \<le> e then m * 2 ^ nat e else m div 2 ^ nat (- e))"
| "f64_floor _ = None"

definition int_min :: int where "int_min = - (2 ^ 31)"

text \<open>
  \<open>(int)x\<close>.  The standard leaves a value that does not fit (and NaN) undefined; this is the
  result of the x86-64 instruction the compiler emits, the \<open>integer indefinite\<close> value.
\<close>

definition to_i32 :: "f64 \<Rightarrow> int" where
  "to_i32 x = (case f64_trunc x of
     Some n \<Rightarrow> if - (2 ^ 31) \<le> n \<and> n < 2 ^ 31 then n else int_min
   | None \<Rightarrow> int_min)"

text \<open>\<open>std::floor\<close>.\<close>

definition ffloor :: "f64 \<Rightarrow> f64" where
  "ffloor x = (case f64_floor x of Some n \<Rightarrow> f64_int n | None \<Rightarrow> x)"

text \<open>\<open>std::fmod\<close> of finite arguments is exact.\<close>

fun ffmod :: "f64 \<Rightarrow> f64 \<Rightarrow> f64" where
  "ffmod (Fin a e) (Fin b f) =
     (if b = 0 then NaN
      else let g = min e f; x = a * 2 ^ nat (e - g); y = \<bar>b * 2 ^ nat (f - g)\<bar>
           in f64_of (sgn x * (\<bar>x\<bar> mod y)) g)"
| "ffmod (Fin a e) (Inf t) = Fin a e"
| "ffmod x y = NaN"

text \<open>A decimal literal \<open>d * 10 ^ k\<close>, correctly rounded as the compiler reads it.\<close>

definition f64_dec :: "int \<Rightarrow> int \<Rightarrow> f64" where
  "f64_dec d k =
     (if 0 \<le> k then f64_of (d * 10 ^ nat k) 0
      else let p = 10 ^ nat (- k); s = 60 + blen p; n = d * 2 ^ s
           in f64_of (2 * (n div p) + (if n mod p = 0 then 0 else 1)) (- int s - 1))"

text \<open>The octets of a double or a float in a message; a float converts to a double exactly.\<close>

definition f64_of_bits :: "u64 \<Rightarrow> f64" where
  "f64_of_bits w =
     (let s = bit w 63; ex = uint (take_bit 11 (drop_bit 52 w)); fr = uint (take_bit 52 w) in
      if ex = 2047 then (if fr = 0 then Inf s else NaN)
      else let m = (if ex = 0 then fr else fr + 2 ^ 52); e = (if ex = 0 then - 1074 else ex - 1075)
           in f64_of (if s then - m else m) e)"

definition f64_of_f32_bits :: "u32 \<Rightarrow> f64" where
  "f64_of_f32_bits w =
     (let s = bit w 31; ex = uint (take_bit 8 (drop_bit 23 w)); fr = uint (take_bit 23 w) in
      if ex = 255 then (if fr = 0 then Inf s else NaN)
      else let m = (if ex = 0 then fr else fr + 2 ^ 23); e = (if ex = 0 then - 149 else ex - 150)
           in f64_of (if s then - m else m) e)"

definition f64_at :: "bytes \<Rightarrow> nat \<Rightarrow> f64" where
  "f64_at b i = f64_of_bits (le64 b i)"

definition f32_at :: "bytes \<Rightarrow> nat \<Rightarrow> f64" where
  "f32_at b i = f64_of_f32_bits (le32 b i)"

section \<open>Canonical form\<close>

lemma blen_0 [simp]: "blen 0 = 0"
  by (simp add: blen.simps)

lemma blen_le_iff: "0 \<le> n \<Longrightarrow> blen n \<le> k \<longleftrightarrow> n < 2 ^ k"
proof (induction k arbitrary: n)
  case 0
  then show ?case by (simp add: blen.simps [of n])
next
  case (Suc k)
  have "n div 2 < c \<longleftrightarrow> n < 2 * c" for c :: int
    by linarith
  with Suc show ?case
    by (simp add: blen.simps [of n])
qed

lemma blen_ge: "n > 0 \<Longrightarrow> 2 ^ (blen n - 1) \<le> n"
  using blen_le_iff [of n "blen n - 1"] by (cases "blen n") (auto simp add: blen.simps [of n] not_less)

lemma blen_mult_pow: "n > 0 \<Longrightarrow> blen (n * 2 ^ k) = blen n + k"
proof (induction k)
  case (Suc k)
  have "n * 2 ^ Suc k div 2 = n * 2 ^ k" and "\<not> n * 2 ^ Suc k \<le> 0"
    using Suc.prems by (simp_all add: not_le)
  with Suc show ?case
    by (subst blen.simps) (simp del: power_Suc)
qed simp

lemma rne_exact [simp]: "rne (m * 2 ^ k) k = m"
  by (simp add: rne_def Let_def)

lemma rne_scale: "rne (m * 2 ^ j) (i + j) = rne m i"
proof -
  have 1: "m * 2 ^ j div 2 ^ (i + j) = m div 2 ^ i"
    by (simp add: power_add)
  have 2: "m * 2 ^ j mod 2 ^ (i + j) = (m mod 2 ^ i) * 2 ^ j"
    by (simp add: power_add mult_mod_left)
  have "2 * (m mod 2 ^ i * 2 ^ j) > 2 ^ (i + j) \<longleftrightarrow> 2 * (m mod 2 ^ i) > 2 ^ i"
    using mult_less_cancel_right_pos [of "2 ^ j" "2 ^ i" "2 * (m mod 2 ^ i)"]
    by (simp add: power_add mult.assoc)
  moreover have "2 * (m mod 2 ^ i * 2 ^ j) = 2 ^ (i + j) \<longleftrightarrow> 2 * (m mod 2 ^ i) = 2 ^ i"
    using mult_cancel_right [of "2 * (m mod 2 ^ i)" "2 ^ j" "2 ^ i"]
    by (simp add: power_add mult.assoc)
  ultimately show ?thesis
    by (simp only: rne_def Let_def 1 2)
qed

text \<open>\<open>f64_of\<close> depends on the number only, not on the pair that denotes it.\<close>

lemma f64_of_scale: "f64_of (m * 2 ^ k) e = f64_of m (e + int k)"
proof (cases "m = 0")
  case False
  let ?l = "int (blen \<bar>m\<bar>)"
  define e1 where "e1 = max (e + int k + ?l - 53) (- 1074)"
  have len: "int (blen \<bar>m * 2 ^ k\<bar>) = ?l + int k"
    using False blen_mult_pow [of "\<bar>m\<bar>" k] by (simp add: abs_mult)
  have e1: "max (e + int (blen \<bar>m * 2 ^ k\<bar>) - 53) (- 1074) = e1"
    by (simp add: len e1_def algebra_simps)
  have q: "(if e1 \<le> e then m * 2 ^ k * 2 ^ nat (e - e1) else rne (m * 2 ^ k) (nat (e1 - e)))
      = (if e1 \<le> e + int k then m * 2 ^ nat (e + int k - e1) else rne m (nat (e1 - (e + int k))))"
  proof -
    consider (a) "e1 \<le> e" | (b) "e < e1" "e1 \<le> e + int k" | (c) "e + int k < e1" by linarith
    then show ?thesis
    proof cases
      case a
      then have "nat (e + int k - e1) = k + nat (e - e1)" by simp
      with a show ?thesis by (simp add: power_add)
    next
      case b
      define j where "j = nat (e + int k - e1)"
      have "k = j + nat (e1 - e)" using b by (simp add: j_def)
      then have "m * 2 ^ k = (m * 2 ^ j) * 2 ^ nat (e1 - e)" by (simp add: power_add)
      then have "rne (m * 2 ^ k) (nat (e1 - e)) = m * 2 ^ j" by (simp only: rne_exact)
      then show ?thesis using b by (simp add: j_def)
    next
      case c
      then have "nat (e1 - e) = nat (e1 - (e + int k)) + k" by simp
      then show ?thesis using c by (simp only: rne_scale) simp
    qed
  qed
  have neg: "m * 2 ^ k < 0 \<longleftrightarrow> m < 0" by (simp add: mult_less_0_iff)
  show ?thesis
    using False by (simp add: f64_of_def [of "m * 2 ^ k"] f64_of_def [of m] neg e1 q Let_def e1_def [symmetric])
qed (simp add: f64_of_def)

lemma blen_eq: "(2 :: int) ^ k \<le> n \<Longrightarrow> n < 2 ^ Suc k \<Longrightarrow> blen n = Suc k"
  using blen_le_iff [of n "Suc k"] blen_le_iff [of n k] order_trans [of 0 "2 ^ k" n] by simp

lemma f64_of_0 [simp]: "f64_of 0 e = Fin 0 0"
  by (simp add: f64_of_def)

lemma f64_of_exact:
  assumes "m \<noteq> 0" and "\<bar>m\<bar> < 2 ^ 53" and "- 1074 \<le> e" and "e \<le> 971"
  defines "e1 \<equiv> max (e + int (blen \<bar>m\<bar>) - 53) (- 1074)"
  shows "f64_of m e = Fin (m * 2 ^ nat (e - e1)) e1" and "e1 \<le> e" and "- 1074 \<le> e1"
    and "\<bar>m * 2 ^ nat (e - e1)\<bar> < 2 ^ 53"
    and "2 ^ 52 \<le> \<bar>m * 2 ^ nat (e - e1)\<bar> \<or> e1 = - 1074"
proof -
  let ?l = "blen \<bar>m\<bar>"
  have l: "?l \<le> 53" using assms(2) by (simp add: blen_le_iff)
  show e1: "e1 \<le> e" and "- 1074 \<le> e1" using l assms(3) by (simp_all add: e1_def)
  have "\<bar>m\<bar> < 2 ^ ?l"
    using blen_le_iff [of "\<bar>m\<bar>" ?l] by simp
  moreover have k: "nat (e - e1) + ?l \<le> 53" using l e1 by (auto simp add: e1_def)
  ultimately have "\<bar>m\<bar> * 2 ^ nat (e - e1) < 2 ^ ?l * 2 ^ nat (e - e1)" by simp
  also have "\<dots> = 2 ^ (nat (e - e1) + ?l)" by (simp add: power_add)
  also have "\<dots> \<le> 2 ^ 53" by (rule power_increasing) (use k in simp_all)
  finally show q: "\<bar>m * 2 ^ nat (e - e1)\<bar> < 2 ^ 53" by (simp add: abs_mult)
  show "2 ^ 52 \<le> \<bar>m * 2 ^ nat (e - e1)\<bar> \<or> e1 = - 1074"
  proof (cases "e1 = - 1074")
    case False
    then have k: "nat (e - e1) + ?l = 53" using l by (auto simp add: e1_def max_def split: if_splits)
    have "0 < ?l" using assms(1) by (simp add: blen.simps)
    have "2 ^ (?l - 1) \<le> \<bar>m\<bar>"
      using blen_ge [of "\<bar>m\<bar>"] assms(1) by simp
    then have "2 ^ (?l - 1) * 2 ^ nat (e - e1) \<le> \<bar>m\<bar> * 2 ^ nat (e - e1)" by simp
    moreover have "?l - 1 + nat (e - e1) = 52" using k \<open>0 < ?l\<close> by linarith
    then have "2 ^ (?l - 1) * 2 ^ nat (e - e1) = (2 :: int) ^ 52"
      by (metis power_add)
    ultimately have "2 ^ 52 \<le> \<bar>m\<bar> * 2 ^ nat (e - e1)" by (simp only:)
    then show ?thesis by (simp add: abs_mult)
  qed simp
  have "\<bar>m * 2 ^ nat (e - e1)\<bar> \<noteq> 2 ^ 53" using q by simp
  then have "f64_pack (m < 0) (m * 2 ^ nat (e - e1)) e1 = Fin (m * 2 ^ nat (e - e1)) e1"
    using assms(1,4) e1(1) by (simp add: f64_pack_def)
  then show "f64_of m e = Fin (m * 2 ^ nat (e - e1)) e1"
    unfolding f64_of_def Let_def e1_def [symmetric] using assms(1) e1(1) by (simp only: if_True if_False)
qed

text \<open>A canonical pair is its own rounding.\<close>

lemma f64_of_wf: "f64_wf (Fin m e) \<Longrightarrow> f64_of m e = Fin m e"
proof -
  assume wf: "f64_wf (Fin m e)"
  show ?thesis
  proof (cases "m = 0")
    case False
    with wf have m: "\<bar>m\<bar> < 2 ^ 53" "- 1074 \<le> e" "e \<le> 971" "2 ^ 52 \<le> \<bar>m\<bar> \<or> e = - 1074"
      by (auto simp add: f64_wf_def)
    have "max (e + int (blen \<bar>m\<bar>) - 53) (- 1074) = e"
    proof (cases "e = - 1074")
      case True
      have "blen \<bar>m\<bar> \<le> 53" using m(1) by (simp add: blen_le_iff)
      with True show ?thesis by simp
    next
      case e: False
      have "blen \<bar>m\<bar> = Suc 52"
        by (rule blen_eq) (use m e in simp_all)
      with m show ?thesis by simp
    qed
    with f64_of_exact(1) [OF False m(1-3)] show ?thesis by simp
  qed (use wf in \<open>simp add: f64_wf_def\<close>)
qed

text \<open>Numbers with 53 significant bits in range; arithmetic on them that stays there is exact.\<close>

definition exact53 :: "int \<Rightarrow> int \<Rightarrow> bool" where
  "exact53 m e \<longleftrightarrow> \<bar>m\<bar> < 2 ^ 53 \<and> - 1074 \<le> e \<and> e \<le> 971"

lemma f64_of_cases:
  assumes "exact53 m e"
  obtains k where "f64_of m e = Fin (m * 2 ^ k) (e - int k)"
    | "m = 0" "f64_of m e = Fin 0 0"
proof (cases "m = 0")
  case False
  with assms f64_of_exact(1,2) [OF False, of e] show ?thesis
    by (intro that(1) [of "nat (e - max (e + int (blen \<bar>m\<bar>) - 53) (- 1074))"])
      (simp add: exact53_def)
qed (use that in simp)

lemma f64_of_shift: "e \<le> f \<Longrightarrow> f64_of (m * 2 ^ nat (f - e)) e = f64_of m f"
  by (simp add: f64_of_scale)

text \<open>The operations on numbers given by any pair, not only the canonical one.\<close>

lemma fadd_zero_left: "fadd (Fin 0 e) (Fin b f) = f64_of b f"
  by (simp add: f64_of_shift)

lemma fadd_zero_right: "fadd (Fin a e) (Fin 0 f) = f64_of a e"
  by (simp add: f64_of_shift)

lemma fadd_at:
  assumes "g \<le> e" and "g \<le> f"
  shows "fadd (Fin a e) (Fin b f) = f64_of (a * 2 ^ nat (e - g) + b * 2 ^ nat (f - g)) g"
proof -
  define h where "h = min e f"
  have "nat (e - g) = nat (e - h) + nat (h - g)" and "nat (f - g) = nat (f - h) + nat (h - g)"
    using assms by (auto simp add: h_def min_def)
  then have "a * 2 ^ nat (e - g) + b * 2 ^ nat (f - g)
      = (a * 2 ^ nat (e - h) + b * 2 ^ nat (f - h)) * 2 ^ nat (h - g)"
    by (simp add: power_add algebra_simps)
  then show ?thesis
    using assms f64_of_shift [of g h] by (simp add: h_def Let_def)
qed

lemma fadd_exact:
  assumes "exact53 a e" and "exact53 b f" and "g \<le> e" and "g \<le> f"
  shows "fadd (f64_of a e) (f64_of b f) = f64_of (a * 2 ^ nat (e - g) + b * 2 ^ nat (f - g)) g"
proof (rule f64_of_cases [OF assms(1)])
  fix k assume a: "f64_of a e = Fin (a * 2 ^ k) (e - int k)"
  show ?thesis
  proof (rule f64_of_cases [OF assms(2)])
    fix j assume b: "f64_of b f = Fin (b * 2 ^ j) (f - int j)"
    define h where "h = g - int (k + j)"
    have "nat (e - int k - h) = nat (e - g) + j" "nat (f - int j - h) = nat (f - g) + k"
      using assms(3,4) by (simp_all add: h_def)
    then have "a * 2 ^ k * 2 ^ nat (e - int k - h) + b * 2 ^ j * 2 ^ nat (f - int j - h)
        = (a * 2 ^ nat (e - g) + b * 2 ^ nat (f - g)) * 2 ^ (k + j)"
      by (simp only: power_add) (simp add: algebra_simps)
    moreover have "h \<le> e - int k" "h \<le> f - int j" using assms(3,4) by (simp_all add: h_def)
    ultimately have "fadd (f64_of a e) (f64_of b f)
        = f64_of ((a * 2 ^ nat (e - g) + b * 2 ^ nat (f - g)) * 2 ^ (k + j)) h"
      by (simp only: a b fadd_at)
    then show ?thesis by (simp add: f64_of_scale h_def)
  next
    assume b: "b = 0" "f64_of b f = Fin 0 0"
    show ?thesis
      using assms(3) by (simp add: a b fadd_zero_right f64_of_scale f64_of_shift del: fadd.simps)
  qed
next
  assume a: "a = 0" "f64_of a e = Fin 0 0"
  show ?thesis
  proof (rule f64_of_cases [OF assms(2)])
    fix j assume b: "f64_of b f = Fin (b * 2 ^ j) (f - int j)"
    show ?thesis
      using assms(4) by (simp add: a b fadd_zero_left f64_of_scale f64_of_shift del: fadd.simps)
  qed (simp add: a)
qed

lemma fneg_exact: "exact53 m e \<Longrightarrow> fneg (f64_of m e) = f64_of (- m) e"
proof (cases "m = 0")
  case False
  assume "exact53 m e"
  with False show ?thesis
    using f64_of_exact(1) [of m e] f64_of_exact(1) [of "- m" e] by (simp add: exact53_def)
qed simp

lemma fsub_exact:
  assumes "exact53 a e" and "exact53 b f" and "g \<le> e" and "g \<le> f"
  shows "fsub (f64_of a e) (f64_of b f) = f64_of (a * 2 ^ nat (e - g) - b * 2 ^ nat (f - g)) g"
proof -
  have "exact53 (- b) f" using assms(2) by (simp add: exact53_def)
  then show ?thesis
    using fadd_exact [of a e "- b" f g] assms by (simp add: fsub_def fneg_exact)
qed

lemma fmul_exact:
  assumes "exact53 a e" and "exact53 b f"
  shows "fmul (f64_of a e) (f64_of b f) = f64_of (a * b) (e + f)"
proof (rule f64_of_cases [OF assms(1)])
  fix k assume a: "f64_of a e = Fin (a * 2 ^ k) (e - int k)"
  show ?thesis
  proof (rule f64_of_cases [OF assms(2)])
    fix j assume b: "f64_of b f = Fin (b * 2 ^ j) (f - int j)"
    have "fmul (f64_of a e) (f64_of b f) = f64_of ((a * b) * 2 ^ (k + j)) (e - int k + (f - int j))"
      by (simp add: a b power_add algebra_simps)
    then show ?thesis by (simp add: f64_of_scale)
  qed (simp add: a)
next
  assume a: "a = 0" "f64_of a e = Fin 0 0"
  show ?thesis by (rule f64_of_cases [OF assms(2)]) (simp_all add: a)
qed

lemma f64_floor_exact:
  assumes "exact53 m e"
  shows "f64_floor (f64_of m e) = Some (if 0 \<le> e then m * 2 ^ nat e else m div 2 ^ nat (- e))"
proof (rule f64_of_cases [OF assms])
  fix k assume a: "f64_of m e = Fin (m * 2 ^ k) (e - int k)"
  consider (1) "0 \<le> e - int k" | (2) "e - int k < 0" "0 \<le> e" | (3) "e < 0" by linarith
  then show ?thesis
  proof cases
    case 1
    then have "nat e = k + nat (e - int k)" by simp
    with 1 show ?thesis by (simp add: a power_add)
  next
    case 2
    then have "k = nat e + nat (int k - e)" by simp
    then have "m * 2 ^ k = (m * 2 ^ nat e) * 2 ^ nat (int k - e)" by (metis mult.assoc power_add)
    then have "m * 2 ^ k div 2 ^ nat (int k - e) = m * 2 ^ nat e"
      by (simp only:) simp
    with 2 show ?thesis by (simp add: a)
  next
    case 3
    then have "nat (int k - e) = nat (- e) + k" by simp
    with 3 show ?thesis by (simp add: a power_add)
  qed
qed simp_all

lemma f64_trunc_floor: "0 \<le> m \<Longrightarrow> f64_trunc (Fin m e) = f64_floor (Fin m e)"
  by (auto simp add: sgn_if)

lemma f64_int_exact: "\<bar>n\<bar> < 2 ^ 53 \<Longrightarrow> exact53 n 0"
  by (simp add: exact53_def)

lemma f64_floor_int [simp]: "\<bar>n\<bar> < 2 ^ 53 \<Longrightarrow> f64_floor (f64_int n) = Some n"
  by (simp add: f64_int_def f64_floor_exact f64_int_exact)

lemma f64_trunc_int [simp]: "\<bar>n\<bar> < 2 ^ 53 \<Longrightarrow> f64_trunc (f64_int n) = Some n"
proof -
  assume "\<bar>n\<bar> < 2 ^ 53"
  then show ?thesis
    unfolding f64_int_def
    by (rule f64_of_cases [OF f64_int_exact]) (auto simp add: abs_mult sgn_if zero_less_mult_iff)
qed

lemma to_i32_int [simp]: "- (2 ^ 31) \<le> n \<Longrightarrow> n < 2 ^ 31 \<Longrightarrow> to_i32 (f64_int n) = n"
  by (simp add: to_i32_def)

lemma ffloor_int [simp]: "\<bar>n\<bar> < 2 ^ 53 \<Longrightarrow> ffloor (f64_int n) = f64_int n"
  by (simp add: ffloor_def)

lemma fadd_int: "\<bar>a\<bar> < 2 ^ 53 \<Longrightarrow> \<bar>b\<bar> < 2 ^ 53 \<Longrightarrow> fadd (f64_int a) (f64_int b) = f64_int (a + b)"
  using fadd_exact [of a 0 b 0 0] by (simp add: f64_int_def f64_int_exact)

lemma fmul_int: "\<bar>a\<bar> < 2 ^ 53 \<Longrightarrow> \<bar>b\<bar> < 2 ^ 53 \<Longrightarrow> fmul (f64_int a) (f64_int b) = f64_int (a * b)"
  using fmul_exact [of a 0 b 0] by (simp add: f64_int_def f64_int_exact)

lemma fsub_int: "\<bar>a\<bar> < 2 ^ 53 \<Longrightarrow> \<bar>b\<bar> < 2 ^ 53 \<Longrightarrow> fsub (f64_int a) (f64_int b) = f64_int (a - b)"
  using fsub_exact [of a 0 b 0 0] by (simp add: f64_int_def f64_int_exact)

lemma f64_int_0 [simp]: "f64_int 0 = Fin 0 0"
  by (simp add: f64_int_def)

text \<open>Splitting a number into its floor and its fraction loses nothing.\<close>

lemma f64_wf_exact53: "f64_wf (Fin m e) \<Longrightarrow> exact53 m e"
  by (auto simp add: f64_wf_def exact53_def)

lemma floor_fraction:
  assumes "f64_wf x" and "f64_floor x = Some n" and "0 \<le> n" and "n < 2 ^ 53"
  shows "fadd (f64_int n) (fsub x (f64_int n)) = x"
proof -
  obtain m e where x: "x = Fin m e" using assms(2) by (cases x) auto
  have ex: "exact53 m e" and xo: "x = f64_of m e"
    using assms(1) by (simp_all add: x f64_wf_exact53 f64_of_wf)
  have nx: "exact53 n 0" using assms(3,4) by (simp add: exact53_def)
  show ?thesis
  proof (cases "0 \<le> e")
    case True
    have "n = m * 2 ^ nat e" using assms(2) True by (simp add: x)
    with True have "x = f64_int n"
      using f64_of_shift [of 0 e m] by (simp add: xo f64_int_def)
    with assms(3,4) show ?thesis by (simp add: fsub_int fadd_int del: f64_int_0)
  next
    case False
    define p :: int where "p = 2 ^ nat (- e)"
    have p: "0 < p" by (simp add: p_def)
    have n: "n = m div p" using assms(2) False by (simp add: x p_def)
    have "0 \<le> m" using assms(3) p by (simp add: n pos_imp_zdiv_nonneg_iff)
    then have r: "exact53 (m - n * p) e"
      using ex p zmod_le_nonneg_dividend [of m p] pos_mod_sign [of p m]
      by (simp add: exact53_def n minus_div_mult_eq_mod)
    have "fsub x (f64_int n) = f64_of (m - n * p) e"
      using fsub_exact [OF ex nx, of e] False by (simp add: xo f64_int_def p_def)
    then show ?thesis
      using fadd_exact [OF nx r, of e] False by (simp add: f64_int_def p_def xo)
  qed
qed

text \<open>Comparison with an integer is comparison of the floor.\<close>

lemma flt_at:
  assumes "g \<le> e" and "g \<le> f"
  shows "flt (Fin a e) (Fin b f) \<longleftrightarrow> a * 2 ^ nat (e - g) < b * 2 ^ nat (f - g)"
proof -
  define h where "h = min e f"
  have "nat (e - g) = nat (e - h) + nat (h - g)" and "nat (f - g) = nat (f - h) + nat (h - g)"
    using assms by (auto simp add: h_def min_def)
  then have "a * 2 ^ nat (e - g) < b * 2 ^ nat (f - g)
      \<longleftrightarrow> (a * 2 ^ nat (e - h)) * 2 ^ nat (h - g) < (b * 2 ^ nat (f - h)) * 2 ^ nat (h - g)"
    by (simp add: power_add mult.assoc)
  then show ?thesis by (simp add: h_def Let_def)
qed

lemma f64_int_Fin:
  assumes "\<bar>k\<bar> < 2 ^ 53"
  obtains j where "f64_int k = Fin (k * 2 ^ j) (- int j)"
  using assms by (auto simp add: f64_int_def intro: f64_of_cases [OF f64_int_exact [OF assms]])

lemma floor_less_iff_mult: "0 < p \<Longrightarrow> m div p < k \<longleftrightarrow> m < k * (p :: int)"
proof -
  assume p: "0 < p"
  then have m: "m div p * p \<le> m" "m < (m div p + 1) * p"
    using pos_mod_sign [OF p, of m] pos_mod_bound [OF p, of m] div_mult_mod_eq [of m p]
    by (simp_all only: distrib_right mult_1)
  show ?thesis
  proof
    assume "m div p < k"
    then have "(m div p + 1) * p \<le> k * p" using p by (intro mult_right_mono) auto
    with m show "m < k * p" by simp
  next
    assume "m < k * p"
    with m(1) have "m div p * p < k * p" by simp
    then show "m div p < k" using p by (simp only: mult_less_cancel_right_pos)
  qed
qed

lemma flt_int_right:
  assumes "f64_floor x = Some n" and "\<bar>k\<bar> < 2 ^ 53"
  shows "flt x (f64_int k) \<longleftrightarrow> n < k"
proof -
  obtain m e where x: "x = Fin m e" using assms(1) by (cases x) auto
  obtain j where k: "f64_int k = Fin (k * 2 ^ j) (- int j)" using f64_int_Fin [OF assms(2)] .
  define g where "g = min e (- int j)"
  have "flt x (f64_int k) \<longleftrightarrow> m * 2 ^ nat (e - g) < k * 2 ^ j * 2 ^ nat (- int j - g)"
    unfolding x k by (rule flt_at) (simp_all add: g_def)
  also have "k * 2 ^ j * 2 ^ nat (- int j - g) = k * 2 ^ nat (- g)"
  proof -
    have "nat (- g) = j + nat (- int j - g)" by (simp add: g_def)
    then show ?thesis by (simp add: power_add mult.assoc)
  qed
  also have "m * 2 ^ nat (e - g) < k * 2 ^ nat (- g) \<longleftrightarrow> n < k"
  proof (cases "0 \<le> e")
    case True
    then have "nat (e - g) = nat e + nat (- g)" by (simp add: g_def)
    with True assms(1) show ?thesis by (simp add: x power_add mult.assoc)
  next
    case False
    then have p: "nat (- g) = nat (- e) + nat (e - g)" by (simp add: g_def)
    have "m * 2 ^ nat (e - g) < k * 2 ^ nat (- g) \<longleftrightarrow> m < k * 2 ^ nat (- e)"
      unfolding p power_add mult.assoc [symmetric] by (rule mult_less_cancel_right_pos) simp
    with False assms(1) show ?thesis by (auto simp add: x floor_less_iff_mult)
  qed
  finally show ?thesis .
qed

lemma flt_asym: "flt x y \<Longrightarrow> \<not> flt y x"
  by (cases x; cases y) (auto simp add: Let_def min.commute)

lemma f64_floor_trunc: "f64_floor x = Some n \<Longrightarrow> 0 \<le> n \<Longrightarrow> f64_trunc x = Some n"
proof -
  assume n: "f64_floor x = Some n" "0 \<le> n"
  obtain m e where x: "x = Fin m e" using n(1) by (cases x) auto
  have "0 \<le> m" using n by (auto simp add: x pos_imp_zdiv_nonneg_iff zero_le_mult_iff split: if_splits)
  with n(1) show ?thesis unfolding x by (simp add: f64_trunc_floor del: f64_floor.simps f64_trunc.simps)
qed

lemma to_i32_floor: "f64_floor x = Some n \<Longrightarrow> 0 \<le> n \<Longrightarrow> n < 2 ^ 31 \<Longrightarrow> to_i32 x = n"
  by (simp add: to_i32_def f64_floor_trunc)

lemma flt_int [simp]: "\<bar>a\<bar> < 2 ^ 53 \<Longrightarrow> \<bar>b\<bar> < 2 ^ 53 \<Longrightarrow> flt (f64_int a) (f64_int b) \<longleftrightarrow> a < b"
  by (rule flt_int_right) (rule f64_floor_int)

end
