(* ===== verification/Bit_Codec.thy ===== *)
theory Bit_Codec
  imports Float64
begin

text \<open>
  Big-endian bit fields in an octet buffer: \<open>setbitu\<close>, \<open>getbitu\<close> and the readers of signed, split
  and sign-magnitude fields built on it.  Positions count bits from the most significant bit of the
  first octet.
\<close>

section \<open>Operations\<close>

definition getbitu :: "bytes \<Rightarrow> nat \<Rightarrow> nat \<Rightarrow> u32" where
  "getbitu buff pos len =
     foldl (\<lambda>bits i. push_bit 1 bits + (drop_bit (7 - i mod 8) (ucast (byte_at buff (i div 8))) AND 1))
       0 [pos..<pos + len]"

text \<open>The loop of \<open>setbitu\<close> with \<open>n\<close> rounds to go.\<close>

fun setbitu_loop :: "bytes \<Rightarrow> nat \<Rightarrow> nat \<Rightarrow> u32 \<Rightarrow> u32 \<Rightarrow> bytes" where
  "setbitu_loop buff i 0 m data = buff"
| "setbitu_loop buff i (Suc n) m data =
     (let old = byte_at buff (i div 8);
          new = (if data AND m \<noteq> 0 then old OR push_bit (7 - i mod 8) 1
                 else old AND NOT (push_bit (7 - i mod 8) 1))
      in setbitu_loop (buff[i div 8 := new]) (i + 1) n (drop_bit 1 m) data)"

definition setbitu :: "bytes \<Rightarrow> nat \<Rightarrow> nat \<Rightarrow> u32 \<Rightarrow> bytes" where
  "setbitu buff pos len data =
     (if len = 0 \<or> len > 32 then buff
      else setbitu_loop buff pos len (push_bit (len - 1) 1) data)"

text \<open>The \<open>int\<close> results are integers; \<open>sint\<close> is the conversion of \<open>uint32_t\<close> to \<open>int\<close>.\<close>

definition getbits :: "bytes \<Rightarrow> nat \<Rightarrow> nat \<Rightarrow> int" where
  "getbits buff pos len =
     (let bits = getbitu buff pos len in
      if len = 0 \<or> len \<ge> 32 \<or> bits AND push_bit (len - 1) 1 = 0 then sint bits
      else sint (bits OR push_bit len (NOT 0)))"

definition getbitu2 :: "bytes \<Rightarrow> nat \<Rightarrow> nat \<Rightarrow> nat \<Rightarrow> nat \<Rightarrow> u32" where
  "getbitu2 buff p1 l1 p2 l2 = push_bit l2 (getbitu buff p1 l1) + getbitu buff p2 l2"

definition getbits2 :: "bytes \<Rightarrow> nat \<Rightarrow> nat \<Rightarrow> nat \<Rightarrow> nat \<Rightarrow> int" where
  "getbits2 buff p1 l1 p2 l2 =
     (if getbitu buff p1 1 \<noteq> 0
      then sint (push_bit l2 (word_of_int (getbits buff p1 l1)) + getbitu buff p2 l2)
      else sint (getbitu2 buff p1 l1 p2 l2))"

definition getbitu3 :: "bytes \<Rightarrow> nat \<Rightarrow> nat \<Rightarrow> nat \<Rightarrow> nat \<Rightarrow> nat \<Rightarrow> nat \<Rightarrow> u32" where
  "getbitu3 buff p1 l1 p2 l2 p3 l3 =
     push_bit (l2 + l3) (getbitu buff p1 l1) + push_bit l3 (getbitu buff p2 l2) + getbitu buff p3 l3"

definition getbits3 :: "bytes \<Rightarrow> nat \<Rightarrow> nat \<Rightarrow> nat \<Rightarrow> nat \<Rightarrow> nat \<Rightarrow> nat \<Rightarrow> int" where
  "getbits3 buff p1 l1 p2 l2 p3 l3 =
     (if getbitu buff p1 1 \<noteq> 0
      then sint (push_bit (l2 + l3) (word_of_int (getbits buff p1 l1)) + push_bit l3 (getbitu buff p2 l2)
                 + getbitu buff p3 l3)
      else sint (getbitu3 buff p1 l1 p2 l2 p3 l3))"

definition getbitg :: "bytes \<Rightarrow> nat \<Rightarrow> nat \<Rightarrow> f64" where
  "getbitg buff pos len =
     (let value = f64_int (uint (getbitu buff (pos + 1) (len - 1)))
      in if getbitu buff pos 1 \<noteq> 0 then fneg value else value)"

definition merge_two_u :: "u32 \<Rightarrow> u32 \<Rightarrow> nat \<Rightarrow> u32" where
  "merge_two_u a b n = push_bit n a + b"

text \<open>The second parameter has type \<open>uint8_t\<close>: what the callers pass is cut to eight bits.\<close>

definition merge_two_s :: "int \<Rightarrow> u8 \<Rightarrow> nat \<Rightarrow> int" where
  "merge_two_s a b n = sint (push_bit n (word_of_int a) + (ucast b :: u32))"

section \<open>Bit level\<close>

declare push_bit_Suc [simp del]

definition buf_bit :: "bytes \<Rightarrow> nat \<Rightarrow> bool" where
  "buf_bit buff i = bit (byte_at buff (i div 8)) (7 - i mod 8)"

lemma getbitu_0 [simp]: "getbitu buff pos 0 = 0"
  by (simp add: getbitu_def)

lemma getbitu_Suc:
  "getbitu buff pos (Suc n) =
     push_bit 1 (getbitu buff pos n) OR of_bool (buf_bit buff (pos + n))"
proof -
  let ?x = "byte_at buff ((pos + n) div 8)"
  have b: "drop_bit (7 - (pos + n) mod 8) (ucast ?x) AND 1 = (of_bool (buf_bit buff (pos + n)) :: u32)"
    by (rule bit_eqI)
      (auto simp add: buf_bit_def bit_and_iff bit_1_iff bit_drop_bit_eq bit_ucast_iff bit_of_bool_iff)
  have "getbitu buff pos (Suc n) = push_bit 1 (getbitu buff pos n) + of_bool (buf_bit buff (pos + n))"
    by (simp add: getbitu_def b)
  also have "\<dots> = push_bit 1 (getbitu buff pos n) OR of_bool (buf_bit buff (pos + n))"
    by (rule disjunctive_add) (auto simp add: bit_push_bit_iff bit_of_bool_iff)
  finally show ?thesis .
qed

lemma bit_getbitu:
  "bit (getbitu buff pos len) k \<longleftrightarrow> k < len \<and> k < 32 \<and> buf_bit buff (pos + len - 1 - k)"
proof (induction len arbitrary: k)
  case (Suc n)
  show ?case
    by (cases k) (auto simp add: getbitu_Suc bit_or_iff bit_push_bit_iff bit_of_bool_iff Suc.IH)
qed simp

lemma getbitu_less: "len < 32 \<Longrightarrow> getbitu buff pos len = take_bit len (getbitu buff pos len)"
  by (rule bit_eqI) (auto simp add: bit_take_bit_iff bit_getbitu)

lemma length_setbitu_loop [simp]: "length (setbitu_loop buff i n m data) = length buff"
  by (induction n arbitrary: buff i m) (simp_all add: Let_def)

lemma length_setbitu [simp]: "length (setbitu buff pos len data) = length buff"
  by (simp add: setbitu_def)

lemma buf_bit_update:
  assumes "j < 8 * length buff"
  shows "buf_bit (buff[j div 8 := (if c then byte_at buff (j div 8) OR push_bit (7 - j mod 8) 1
                     else byte_at buff (j div 8) AND NOT (push_bit (7 - j mod 8) 1))]) i
    = (if i = j then c else buf_bit buff i)"
proof -
  have j: "j div 8 < length buff" using assms by simp
  show ?thesis
  proof (cases "i div 8 = j div 8")
    case True
    have eq: "i = j \<longleftrightarrow> 7 - i mod 8 = 7 - j mod 8"
    proof
      assume "7 - i mod 8 = 7 - j mod 8"
      moreover have "i mod 8 < 8" and "j mod 8 < 8" by simp_all
      ultimately have "i mod 8 = j mod 8" by linarith
      with True show "i = j" by (metis div_mult_mod_eq)
    qed simp
    show ?thesis
      using True j eq
      by (auto simp add: buf_bit_def byte_at_def bit_or_iff bit_and_iff bit_not_iff bit_push_bit_iff bit_exp_iff)
  next
    case False
    then show ?thesis using j by (auto simp add: buf_bit_def byte_at_def)
  qed
qed

lemma buf_bit_setbitu_loop:
  assumes "i + n \<le> 8 * length buff" and "n \<le> 32"
  shows "buf_bit (setbitu_loop buff i n (push_bit (n - 1) 1) data) j
    = (if i \<le> j \<and> j < i + n then bit data (n - 1 - (j - i)) else buf_bit buff j)"
  using assms
proof (induction n arbitrary: buff i)
  case (Suc n)
  let ?new = "if data AND push_bit n 1 \<noteq> 0 then byte_at buff (i div 8) OR push_bit (7 - i mod 8) 1
       else byte_at buff (i div 8) AND NOT (push_bit (7 - i mod 8) 1)"
  have m: "drop_bit 1 (push_bit n (1 :: u32)) = push_bit (n - 1) 1 \<or> n = 0"
    using Suc.prems(2)
    by (cases n) (auto intro!: bit_eqI simp add: bit_drop_bit_eq bit_exp_iff simp del: power_Suc)
  have c: "data AND push_bit n 1 \<noteq> 0 \<longleftrightarrow> bit data n"
    by (simp add: push_bit_eq_mult and_exp_eq_0_iff_not_bit)
  define b2 where "b2 = buff[i div 8 := ?new]"
  have loop: "setbitu_loop buff i (Suc n) (push_bit n 1) data
      = setbitu_loop b2 (i + 1) n (push_bit (n - 1) 1) data"
    using m unfolding b2_def setbitu_loop.simps Let_def by (cases n) auto
  have "i < 8 * length buff" using Suc.prems by simp
  then have b2: "buf_bit b2 j = (if j = i then bit data n else buf_bit buff j)"
    using buf_bit_update [of i buff "data AND push_bit n 1 \<noteq> 0" j] unfolding b2_def c by simp
  have IH: "buf_bit (setbitu_loop b2 (i + 1) n (push_bit (n - 1) 1) data) j
      = (if i + 1 \<le> j \<and> j < i + 1 + n then bit data (n - 1 - (j - (i + 1))) else buf_bit b2 j)"
    using Suc.prems by (intro Suc.IH) (simp_all add: b2_def)
  have "Suc n - 1 - (j - i) = n - 1 - (j - (i + 1))" if "i < j" using that by simp
  then show ?case
    unfolding diff_Suc_1 loop IH b2 by (cases "j = i") auto
qed auto

lemma buf_bit_setbitu:
  assumes "pos + len \<le> 8 * length buff" and "len \<le> 32"
  shows "buf_bit (setbitu buff pos len data) j
    = (if pos \<le> j \<and> j < pos + len then bit data (pos + len - 1 - j) else buf_bit buff j)"
proof (cases "len = 0")
  case False
  have "len - 1 - (j - pos) = pos + len - 1 - j" if "pos \<le> j" using that by simp
  with False assms show ?thesis
    using buf_bit_setbitu_loop [OF assms, of data j] by (simp add: setbitu_def del: push_bit_of_1)
qed (auto simp add: setbitu_def)

section \<open>The store of bit fields\<close>

text \<open>
  What the subframe decoders need of a buffer: a field reads back as it was written, and writing it
  leaves every disjoint field alone.
\<close>

type_synonym field = "nat \<times> nat \<times> u32"

definition field_ok :: "nat \<Rightarrow> field \<Rightarrow> bool" where
  "field_ok cap f \<longleftrightarrow> (case f of (pos, len, d) \<Rightarrow> 0 < len \<and> len \<le> 32 \<and> pos + len \<le> cap)"

definition field_disjoint :: "field \<Rightarrow> field \<Rightarrow> bool" where
  "field_disjoint f g \<longleftrightarrow>
     (case f of (p, l, _) \<Rightarrow> case g of (q, k, _) \<Rightarrow> p + l \<le> q \<or> q + k \<le> p)"

locale bit_store =
  fixes get :: "'b \<Rightarrow> nat \<Rightarrow> nat \<Rightarrow> u32"
    and set_field :: "'b \<Rightarrow> nat \<Rightarrow> nat \<Rightarrow> u32 \<Rightarrow> 'b"
    and cap :: "'b \<Rightarrow> nat"
  assumes get_set: "field_ok (cap b) (pos, len, d) \<Longrightarrow> get (set_field b pos len d) pos len = take_bit len d"
    and get_set_other: "field_ok (cap b) (pos, len, d) \<Longrightarrow> field_disjoint (pos, len, d) (q, k, d') \<Longrightarrow>
      get (set_field b pos len d) q k = get b q k"
    and cap_set: "cap (set_field b pos len d) = cap b"
begin

definition set_all :: "'b \<Rightarrow> field list \<Rightarrow> 'b" where
  "set_all b fs = foldl (\<lambda>b (p, l, d). set_field b p l d) b fs"

lemma set_all_Nil [simp]: "set_all b [] = b"
  and set_all_Cons [simp]: "set_all b ((p, l, d) # fs) = set_all (set_field b p l d) fs"
  by (simp_all add: set_all_def)

lemma cap_set_all [simp]: "cap (set_all b fs) = cap b"
  by (induction fs arbitrary: b) (auto simp add: cap_set)

lemma get_set_all_other:
  assumes "\<forall>f \<in> set fs. field_ok (cap b) f \<and> field_disjoint f (q, k, 0)"
  shows "get (set_all b fs) q k = get b q k"
  using assms
proof (induction fs arbitrary: b)
  case (Cons f fs)
  obtain p l d where f: "f = (p, l, d)" by (cases f) auto
  have "get (set_field b p l d) q k = get b q k"
    using Cons.prems by (intro get_set_other [where d' = 0]) (auto simp add: f)
  with Cons show ?case by (simp add: f cap_set)
qed simp

text \<open>Every field of a list of disjoint ones reads back.\<close>

lemma get_set_all:
  assumes "\<forall>f \<in> set fs. field_ok (cap b) f" and "sorted_wrt field_disjoint fs" and "(p, l, d) \<in> set fs"
  shows "get (set_all b fs) p l = take_bit l d"
  using assms
proof (induction fs arbitrary: b)
  case (Cons f fs)
  obtain q k e where f: "f = (q, k, e)" by (cases f) auto
  show ?case
  proof (cases "(p, l, d) = f")
    case True
    have "get (set_all (set_field b p l d) fs) p l = get (set_field b p l d) p l"
      using Cons.prems True
      by (intro get_set_all_other) (auto simp add: cap_set field_disjoint_def split: prod.splits)
    also have "\<dots> = take_bit l d" using Cons.prems True by (intro get_set) auto
    finally show ?thesis using True by auto
  next
    case False
    with Cons.prems have "(p, l, d) \<in> set fs" by auto
    with Cons show ?thesis by (simp add: f cap_set)
  qed
qed simp

end

lemma getbitu_setbitu:
  assumes "0 < len" and "len \<le> 32" and "pos + len \<le> 8 * length buff"
  shows "getbitu (setbitu buff pos len d) pos len = take_bit len d"
  by (rule bit_eqI)
    (use assms in \<open>auto simp add: bit_getbitu bit_take_bit_iff buf_bit_setbitu\<close>)

lemma getbitu_setbitu_other:
  assumes "0 < len" and "len \<le> 32" and "pos + len \<le> 8 * length buff" and "pos + len \<le> q \<or> q + k \<le> pos"
  shows "getbitu (setbitu buff pos len d) q k = getbitu buff q k"
  by (rule bit_eqI)
    (use assms in \<open>auto simp add: bit_getbitu buf_bit_setbitu\<close>)

interpretation bits: bit_store getbitu setbitu "\<lambda>b. 8 * length b"
  by unfold_locales
    (auto simp add: field_ok_def field_disjoint_def getbitu_setbitu getbitu_setbitu_other)

text \<open>
  Claim C9.  Bit fields are a store: a list of pairwise disjoint fields inside the buffer, written
  one after the other by \<open>setbitu\<close>, reads back value by value with \<open>getbitu\<close> (cut to the field's
  width), every field disjoint from all of them reads as before, and the buffer keeps its length.
\<close>

theorem bit_fields_roundtrip:
  assumes "\<forall>f \<in> set fs. field_ok (8 * length b) f" and "sorted_wrt field_disjoint fs"
  defines "b2 \<equiv> foldl (\<lambda>b (p, l, d). setbitu b p l d) b fs"
  shows "(\<forall>(p, l, d) \<in> set fs. getbitu b2 p l = take_bit l d)
    \<and> (\<forall>q k. (\<forall>f \<in> set fs. field_disjoint f (q, k, 0)) \<longrightarrow> getbitu b2 q k = getbitu b q k)
    \<and> length b2 = length b"
  using assms(1,2) bits.get_set_all [of fs b] bits.get_set_all_other [of fs b] bits.cap_set_all [of b fs]
  unfolding b2_def bits.set_all_def by auto

theorem bit_fields_roundtrip_witness:
  "getbitu (setbitu (setbitu [0, 255, 0] 3 7 0x55) 12 10 0x3FF) 3 7 = 0x55"
  using bit_fields_roundtrip [of "[(3, 7, 0x55), (12, 10, 0x3FF)]" "[0, 255, 0]"]
  by (simp add: field_ok_def field_disjoint_def take_bit_eq_mod)

section \<open>Signed and split fields\<close>

lemma bit_sint_word:
  fixes w :: u32
  shows "bit (sint w) k \<longleftrightarrow> bit w (min k 31)"
  using bit_imp_le_length [of w k] by (auto simp add: bit_sint_iff min_def not_le)

text \<open>A word whose bits from \<open>len\<close> on repeat bit \<open>len - 1\<close> holds a \<open>len\<close>-bit two's complement number.\<close>

lemma sint_sign_extended:
  fixes w g :: u32
  assumes "0 < len" and "len \<le> 32"
    and "\<And>j. j < 32 \<Longrightarrow> bit w j \<longleftrightarrow> (if j < len then bit g j else bit g (len - 1))"
  shows "sint w = signed_take_bit (len - 1) (uint g)"
proof (rule bit_eqI)
  fix k :: nat
  have "bit (sint w) k \<longleftrightarrow> (if min k 31 < len then bit g (min k 31) else bit g (len - 1))"
    using assms(3) [of "min k 31"] by (simp add: bit_sint_word)
  also have "\<dots> \<longleftrightarrow> bit g (min (len - 1) k)"
  proof -
    consider "k < len" | "len \<le> k" "k \<le> 31" | "len \<le> k" "31 < k" "len = 32" | "len \<le> k" "31 < k" "len < 32"
      using assms(2) by linarith
    moreover have "min (len - 1) k = (if k < len then k else len - 1)" by auto
    ultimately show ?thesis using assms(1,2) by cases (simp_all add: min_def)
  qed
  finally show "bit (sint w) k = bit (signed_take_bit (len - 1) (uint g)) k"
    using assms(1,2) by (auto simp add: bit_signed_take_bit_iff bit_uint_iff)
qed

lemma getbits_signed:
  assumes "0 < len" and "len \<le> 32"
  shows "getbits buff pos len = signed_take_bit (len - 1) (uint (getbitu buff pos len))"
proof -
  let ?g = "getbitu buff pos len"
  have sign: "?g AND push_bit (len - 1) 1 = 0 \<longleftrightarrow> \<not> bit ?g (len - 1)"
    by (simp add: push_bit_eq_mult and_exp_eq_0_iff_not_bit)
  have top: "bit ?g j \<Longrightarrow> j < len" for j
    by (simp add: bit_getbitu)
  show ?thesis
  proof (cases "len \<ge> 32 \<or> \<not> bit ?g (len - 1)")
    case True
    then have "getbits buff pos len = sint ?g" unfolding getbits_def Let_def sign by auto
    also have "\<dots> = signed_take_bit (len - 1) (uint ?g)"
      using True top assms by (intro sint_sign_extended) auto
    finally show ?thesis .
  next
    case False
    then have "getbits buff pos len = sint (?g OR push_bit len (NOT 0))"
      using assms(1) unfolding getbits_def Let_def sign by auto
    also have "\<dots> = signed_take_bit (len - 1) (uint ?g)"
      using False top assms
      by (intro sint_sign_extended) (auto simp add: bit_or_iff bit_push_bit_iff bit_not_iff bit_mask_iff)
    finally show ?thesis .
  qed
qed

text \<open>The word a split field denotes: the parts side by side.\<close>

lemma getbitu2_bits:
  assumes "l2 \<le> 32"
  shows "getbitu2 buff p1 l1 p2 l2 = push_bit l2 (getbitu buff p1 l1) OR getbitu buff p2 l2"
  unfolding getbitu2_def
  by (rule disjunctive_add) (auto simp add: bit_push_bit_iff bit_getbitu)

lemma bit_getbitu2:
  "l2 \<le> 32 \<Longrightarrow> bit (getbitu2 buff p1 l1 p2 l2) j \<longleftrightarrow>
     (if j < l2 then bit (getbitu buff p2 l2) j else j < 32 \<and> bit (getbitu buff p1 l1) (j - l2))"
  by (auto simp add: getbitu2_bits bit_or_iff bit_push_bit_iff bit_getbitu)

lemma getbits2_signed:
  assumes "0 < l1" and "l1 + l2 \<le> 32"
  shows "getbits2 buff p1 l1 p2 l2 = signed_take_bit (l1 + l2 - 1) (uint (getbitu2 buff p1 l1 p2 l2))"
proof -
  let ?g = "getbitu2 buff p1 l1 p2 l2" and ?h = "getbitu buff p1 l1" and ?l = "getbitu buff p2 l2"
  have len: "0 < l1 + l2" using assms(1) by simp
  have first: "getbitu buff p1 1 \<noteq> 0 \<longleftrightarrow> bit ?h (l1 - 1)"
    using assms(1,2) by (auto simp add: getbitu_Suc [of buff p1 0, simplified] bit_getbitu)
  have top: "bit ?h j \<Longrightarrow> j < l1" for j
    by (simp add: bit_getbitu)
  have bg: "bit ?g j \<longleftrightarrow> (if j < l2 then bit ?l j else j < 32 \<and> bit ?h (j - l2))" for j
    using assms(2) by (intro bit_getbitu2) simp
  show ?thesis
  proof (cases "getbitu buff p1 1 \<noteq> 0")
    case True
    let ?s = "word_of_int (getbits buff p1 l1) :: u32"
    have s: "bit ?s j \<longleftrightarrow> j < 32 \<and> bit ?h (min (l1 - 1) j)" for j
      using assms by (auto simp add: bit_word_of_int_iff getbits_signed bit_signed_take_bit_iff bit_uint_iff)
    have "push_bit l2 ?s + ?l = push_bit l2 ?s OR ?l"
      by (rule disjunctive_add) (auto simp add: bit_push_bit_iff bit_getbitu)
    then have "getbits2 buff p1 l1 p2 l2 = sint (push_bit l2 ?s OR ?l)"
      using True by (simp add: getbits2_def)
    also have "\<dots> = signed_take_bit (l1 + l2 - 1) (uint ?g)"
    proof (rule sint_sign_extended [OF len assms(2)])
      fix j :: nat assume j: "j < 32"
      have "bit (push_bit l2 ?s OR ?l) j \<longleftrightarrow> (if j < l2 then bit ?l j else bit ?h (min (l1 - 1) (j - l2)))"
        using j by (auto simp add: bit_or_iff bit_push_bit_iff s bit_getbitu)
      also have "\<dots> \<longleftrightarrow> (if j < l1 + l2 then bit ?g j else bit ?g (l1 + l2 - 1))"
      proof -
        have "min (l1 - 1) (j - l2) = (if j - l2 < l1 then j - l2 else l1 - 1)" by auto
        then show ?thesis using j assms by (auto simp add: bg)
      qed
      finally show "bit (push_bit l2 ?s OR ?l) j \<longleftrightarrow> \<dots>" .
    qed
    finally show ?thesis .
  next
    case False
    then have "getbits2 buff p1 l1 p2 l2 = sint ?g" by (simp add: getbits2_def)
    also have "\<dots> = signed_take_bit (l1 + l2 - 1) (uint ?g)"
    proof (rule sint_sign_extended [OF len assms(2)])
      fix j :: nat assume "j < 32"
      show "bit ?g j \<longleftrightarrow> (if j < l1 + l2 then bit ?g j else bit ?g (l1 + l2 - 1))"
        using False first top [of "j - l2"] assms by (auto simp add: bg)
    qed
    finally show ?thesis .
  qed
qed

text \<open>
  Signed fields, whole or split over two places: \<open>getbits\<close> and \<open>getbits2\<close> return the two's
  complement value of the bits of the field (for a split field, of its parts side by side), for all
  widths up to 32 bits.
\<close>

lemma signed_fields:
  assumes "0 < l1" and "l1 + l2 \<le> 32"
  shows "getbits buff p1 l1 = signed_take_bit (l1 - 1) (uint (getbitu buff p1 l1))
    \<and> getbits2 buff p1 l1 p2 l2
        = signed_take_bit (l1 + l2 - 1) (2 ^ l2 * uint (getbitu buff p1 l1) + uint (getbitu buff p2 l2))"
proof -
  have "uint (getbitu2 buff p1 l1 p2 l2) = push_bit l2 (uint (getbitu buff p1 l1)) OR uint (getbitu buff p2 l2)"
    using assms(2)
    by (intro bit_eqI)
      (auto simp add: bit_uint_iff bit_getbitu2 bit_or_iff bit_push_bit_iff bit_getbitu)
  also have "\<dots> = push_bit l2 (uint (getbitu buff p1 l1)) + uint (getbitu buff p2 l2)"
    by (rule disjunctive_add [symmetric]) (auto simp add: bit_push_bit_iff bit_uint_iff bit_getbitu)
  finally show ?thesis
    using assms by (simp add: getbits_signed getbits2_signed push_bit_eq_mult mult.commute)
qed

lemma signed_fields_witness:
  "getbits2 [0xF0, 0x0F] 0 4 12 4 = signed_take_bit 7 (2 ^ 4 * 15 + 15)"
proof -
  have "getbitu [0xF0, 0x0F] 0 4 = 15" and "getbitu [0xF0, 0x0F] 12 4 = 15" by code_simp+
  then show ?thesis using signed_fields [of 4 4 "[0xF0, 0x0F]" 0 12] by simp
qed

text \<open>
  \<open>merge_two_s\<close> joins a signed high part and a low part of at most eight bits correctly,
  and only those: with a low part of more bits, as the BeiDou D2 decoder passes (18, 22 and 11
  bits), the parameter type drops everything above bit 7.
\<close>

lemma merge_two_s_spec:
  assumes "n + k \<le> 31" and "- (2 ^ k) \<le> a" and "a < 2 ^ k" and "uint b < 2 ^ n"
  shows "merge_two_s a (ucast (b :: u32)) n = a * 2 ^ n + uint b mod 256"
proof -
  define r where "r = uint b mod 256"
  have r: "0 \<le> r" "r < 2 ^ n"
    using assms(4) zmod_le_nonneg_dividend [of "uint b" 256] by (simp_all add: r_def)
  have cast: "(ucast (ucast b :: u8) :: u32) = word_of_int r"
    by (rule bit_eqI)
      (auto simp add: r_def bit_ucast_iff bit_word_of_int_iff take_bit_eq_mod [of 8, simplified, symmetric]
        bit_take_bit_iff bit_uint_iff)
  have a: "a * 2 ^ n + r < 2 ^ 31" "- (2 ^ 31) \<le> a * 2 ^ n + r"
  proof -
    have p: "(2 :: int) ^ k * 2 ^ n \<le> 2 ^ 31"
      using assms(1) power_increasing [of "n + k" 31 "2 :: int"] by (simp add: power_add mult.commute)
    have "(a + 1) * 2 ^ n \<le> 2 ^ k * 2 ^ n" by (rule mult_right_mono) (use assms(3) in simp_all)
    then show "a * 2 ^ n + r < 2 ^ 31" using p r(2) by (simp add: algebra_simps)
    have "- (2 ^ k) * 2 ^ n \<le> a * 2 ^ n" by (rule mult_right_mono) (use assms(2) in simp_all)
    then show "- (2 ^ 31) \<le> a * 2 ^ n + r" using p r(1) by (simp add: algebra_simps)
  qed
  have "push_bit n (word_of_int a) + (ucast (ucast b :: u8) :: u32) = word_of_int (a * 2 ^ n + r)"
    unfolding cast by (simp add: push_bit_eq_mult)
  then have "merge_two_s a (ucast b) n = sint (word_of_int (a * 2 ^ n + r) :: u32)"
    by (simp only: merge_two_s_def)
  also have "\<dots> = a * 2 ^ n + r"
    by (rule sint_word_of_int_id [OF a(2,1)])
  finally show ?thesis by (simp add: r_def)
qed

lemma merge_two_s_spec_witness:
  "merge_two_s (- 3) (ucast (0x1AB :: u32)) 11 = - 3 * 2 ^ 11 + 0xAB"
  using merge_two_s_spec [of 11 4 "- 3" "0x1AB"] by simp

end
