(* ===== verification/Cxx_Text.thy ===== *)
theory Cxx_Text
  imports Prelude
begin

text \<open>
  The pieces of the C++ standard library that turn numbers into text and back: \<open>std::stoull\<close> and
  its signed variants with their two exceptions, and the \<open>ostream\<close> insertion of an unsigned number
  with \<open>setw\<close> and \<open>setfill\<close>.
\<close>

datatype cxx_error = Invalid_argument | Out_of_range

text \<open>A computation that may throw, followed by another one.\<close>

fun bind_res :: "'e + 'a \<Rightarrow> ('a \<Rightarrow> 'e + 'b) \<Rightarrow> 'e + 'b" where
  "bind_res (Inl e) f = Inl e"
| "bind_res (Inr x) f = f x"

lemma bind_res_Inr: "bind_res m f = Inr y \<longleftrightarrow> (\<exists>x. m = Inr x \<and> f x = Inr y)"
  by (cases m) auto

lemma bind_resE: "bind_res m f = Inr y \<Longrightarrow> (\<And>x. m = Inr x \<Longrightarrow> f x = Inr y \<Longrightarrow> thesis) \<Longrightarrow> thesis"
  by (cases m) auto

lemma bind_res_assoc: "bind_res (bind_res m f) g = bind_res m (\<lambda>x. bind_res (f x) g)"
  by (cases m) simp_all

lemma bind_res_cong [fundef_cong]:
  "m = m' \<Longrightarrow> (\<And>x. m' = Inr x \<Longrightarrow> f x = g x) \<Longrightarrow> bind_res m f = bind_res m' g"
  by (cases m') auto

abbreviation code_of :: "char \<Rightarrow> nat" where
  "code_of c \<equiv> of_char c"

definition is_digit :: "char \<Rightarrow> bool" where
  "is_digit c \<longleftrightarrow> 48 \<le> code_of c \<and> code_of c \<le> 57"

definition is_space :: "char \<Rightarrow> bool" where
  "is_space c \<longleftrightarrow> code_of c = 32 \<or> (9 \<le> code_of c \<and> code_of c \<le> 13)"

definition digit_val :: "char \<Rightarrow> nat" where
  "digit_val c = code_of c - 48"

definition digit_char :: "nat \<Rightarrow> char" where
  "digit_char d = char_of (48 + d)"

section \<open>Reading\<close>

definition digits_val :: "string \<Rightarrow> nat" where
  "digits_val ds = foldl (\<lambda>n c. 10 * n + digit_val c) 0 ds"

text \<open>White space and sign are skipped, then the longest run of digits counts; the rest is ignored.\<close>

definition split_sign :: "string \<Rightarrow> bool \<times> string" where
  "split_sign s =
     (case dropWhile is_space s of
        [] \<Rightarrow> (False, [])
      | c # cs \<Rightarrow>
          if c = CHR ''-'' then (True, cs) else if c = CHR ''+'' then (False, cs) else (False, c # cs))"

definition stoull :: "string \<Rightarrow> cxx_error + nat" where
  "stoull s =
     (let (neg, t) = split_sign s; ds = takeWhile is_digit t; n = digits_val ds in
      if ds = [] then Inl Invalid_argument
      else if n \<ge> 2 ^ 64 then Inl Out_of_range
      else Inr (if neg then (2 ^ 64 - n) mod 2 ^ 64 else n))"

definition stoll :: "string \<Rightarrow> cxx_error + int" where
  "stoll s =
     (let (neg, t) = split_sign s; ds = takeWhile is_digit t;
          n = (if neg then - int (digits_val ds) else int (digits_val ds)) in
      if ds = [] then Inl Invalid_argument
      else if n < - (2 ^ 63) \<or> 2 ^ 63 \<le> n then Inl Out_of_range else Inr n)"

section \<open>Writing\<close>

fun dec_digits :: "nat \<Rightarrow> nat list" where
  "dec_digits n = (if n < 10 then [n] else dec_digits (n div 10) @ [n mod 10])"

declare dec_digits.simps [simp del]

definition dec :: "nat \<Rightarrow> string" where
  "dec n = map digit_char (dec_digits n)"

definition setw :: "nat \<Rightarrow> char \<Rightarrow> string \<Rightarrow> string" where
  "setw k c s = replicate (k - length s) c @ s"

section \<open>Reading back what was written\<close>

lemma code_digit_char: "d < 10 \<Longrightarrow> code_of (digit_char d) = 48 + d"
  by (simp add: digit_char_def of_char_of)

lemma digit_char_digit [simp]: "d < 10 \<Longrightarrow> is_digit (digit_char d)"
  and digit_val_digit_char [simp]: "d < 10 \<Longrightarrow> digit_val (digit_char d) = d"
  by (simp_all add: is_digit_def digit_val_def code_digit_char)

lemma dec_digits_less: "d \<in> set (dec_digits n) \<Longrightarrow> d < 10"
proof (induction n rule: dec_digits.induct)
  case (1 n)
  then show ?case by (cases "n < 10") (auto simp add: dec_digits.simps [of n])
qed

lemma dec_all_digits: "c \<in> set (dec n) \<Longrightarrow> is_digit c"
  by (auto simp add: dec_def dest: dec_digits_less)

lemma dec_not_Nil [simp]: "dec n \<noteq> []"
  by (simp add: dec_def dec_digits.simps [of n])

lemma digits_val_snoc [simp]: "digits_val (s @ [c]) = 10 * digits_val s + digit_val c"
  by (simp add: digits_val_def)

lemma digits_val_Nil [simp]: "digits_val [] = 0"
  by (simp add: digits_val_def)

lemma digits_val_dec: "digits_val (dec n) = n"
proof (induction n rule: dec_digits.induct)
  case (1 n)
  show ?case
  proof (cases "n < 10")
    case True
    then show ?thesis
      using digits_val_snoc [of "[]"] by (simp add: dec_def dec_digits.simps [of n])
  next
    case False
    then have "dec n = dec (n div 10) @ [digit_char (n mod 10)]"
      by (simp add: dec_def dec_digits.simps [of n])
    with 1 False show ?thesis by simp
  qed
qed

lemma digits_val_zeros: "digits_val (replicate k CHR ''0'' @ s) = digits_val s"
proof -
  have "foldl (\<lambda>n c. 10 * n + digit_val c) 0 (replicate k CHR ''0'') = 0"
    by (induction k) (simp_all add: digit_val_def)
  then show ?thesis by (simp add: digits_val_def)
qed

lemma digit_not_sign: "is_digit c \<Longrightarrow> c \<noteq> CHR ''-'' \<and> c \<noteq> CHR ''+'' \<and> \<not> is_space c"
  by (auto simp add: is_digit_def is_space_def)

lemma split_sign_digits:
  assumes "s \<noteq> []" and "\<forall>c \<in> set s. is_digit c"
  shows "split_sign s = (False, s)"
  using assms by (cases s) (simp_all add: split_sign_def digit_not_sign)

lemma stoull_digits:
  assumes "s \<noteq> []" and "\<forall>c \<in> set s. is_digit c" and "digits_val s < 2 ^ 64"
  shows "stoull s = Inr (digits_val s)"
proof -
  have tw: "takeWhile is_digit s = s" using assms(2) by (simp add: takeWhile_eq_all_conv)
  show ?thesis using assms by (simp add: stoull_def split_sign_digits tw Let_def)
qed

lemma setw_zero_digits: "\<forall>c \<in> set (setw k CHR ''0'' (dec n)). is_digit c"
  by (auto simp add: setw_def is_digit_def dest: dec_all_digits)

text \<open>What \<open>setw\<close> with zero fill writes, \<open>stoull\<close> reads.\<close>

lemma stoull_setw_dec: "n < 2 ^ 64 \<Longrightarrow> stoull (setw k CHR ''0'' (dec n)) = Inr n"
  using stoull_digits [of "setw k CHR ''0'' (dec n)"] setw_zero_digits [of k n]
  by (simp add: setw_def digits_val_zeros digits_val_dec)

lemma stoull_dec: "n < 2 ^ 64 \<Longrightarrow> stoull (dec n) = Inr n"
  using stoull_digits [of "dec n"] by (simp add: digits_val_dec dec_all_digits)

end
