(* ===== verification/Gnss_Sat.thy ===== *)
theory Gnss_Sat
  imports Cxx_Text
begin

text \<open>
  Satellites: the constellation masks and number ranges of \<open>gnss_constant.hpp\<close>, the numbering of
  \<open>sat_no\<close> and \<open>satsys\<close>, and its text form \<open>sat2str\<close> and \<open>str2sat\<close>.
\<close>

section \<open>Constellations and ranges\<close>

definition SYS_NONE :: u32 where "SYS_NONE = 0x00"
definition SYS_GPS :: u32 where "SYS_GPS = 0x01"
definition SYS_SBS :: u32 where "SYS_SBS = 0x02"
definition SYS_GLO :: u32 where "SYS_GLO = 0x04"
definition SYS_GAL :: u32 where "SYS_GAL = 0x08"
definition SYS_QZS :: u32 where "SYS_QZS = 0x10"
definition SYS_BDS :: u32 where "SYS_BDS = 0x20"

lemmas sys_defs = SYS_NONE_def SYS_GPS_def SYS_SBS_def SYS_GLO_def SYS_GAL_def SYS_QZS_def SYS_BDS_def

definition MIN_PRN_GPS :: u32 where "MIN_PRN_GPS = 1"
definition MAX_PRN_GPS :: u32 where "MAX_PRN_GPS = 32"
definition N_SAT_GPS :: u32 where "N_SAT_GPS = MAX_PRN_GPS - MIN_PRN_GPS + 1"
definition MIN_PRN_GLO :: u32 where "MIN_PRN_GLO = 1"
definition MAX_PRN_GLO :: u32 where "MAX_PRN_GLO = 27"
definition N_SAT_GLO :: u32 where "N_SAT_GLO = MAX_PRN_GLO - MIN_PRN_GLO + 1"
definition MIN_PRN_GAL :: u32 where "MIN_PRN_GAL = 1"
definition MAX_PRN_GAL :: u32 where "MAX_PRN_GAL = 38"
definition N_SAT_GAL :: u32 where "N_SAT_GAL = MAX_PRN_GAL - MIN_PRN_GAL + 1"
definition MIN_PRN_BDS :: u32 where "MIN_PRN_BDS = 1"
definition MAX_PRN_BDS :: u32 where "MAX_PRN_BDS = 63"
definition N_SAT_BDS :: u32 where "N_SAT_BDS = MAX_PRN_BDS - MIN_PRN_BDS + 1"
definition MAX_SAT :: u32 where "MAX_SAT = N_SAT_GPS + N_SAT_GLO + N_SAT_GAL + N_SAT_BDS"

lemmas prn_defs = MIN_PRN_GPS_def MAX_PRN_GPS_def N_SAT_GPS_def MIN_PRN_GLO_def MAX_PRN_GLO_def
  N_SAT_GLO_def MIN_PRN_GAL_def MAX_PRN_GAL_def N_SAT_GAL_def MIN_PRN_BDS_def MAX_PRN_BDS_def
  N_SAT_BDS_def MAX_SAT_def

section \<open>Numbering\<close>

definition sat_no :: "u32 \<Rightarrow> u32 \<Rightarrow> u32" where
  "sat_no sys prn =
     (if prn = 0 then 0
      else if sys = SYS_GPS then
        (if prn < MIN_PRN_GPS \<or> prn > MAX_PRN_GPS then 0 else prn - MIN_PRN_GPS + 1)
      else if sys = SYS_GLO then
        (if prn < MIN_PRN_GLO \<or> prn > MAX_PRN_GLO then 0 else N_SAT_GPS + prn - MIN_PRN_GLO + 1)
      else if sys = SYS_GAL then
        (if prn < MIN_PRN_GAL \<or> prn > MAX_PRN_GAL then 0
         else N_SAT_GPS + N_SAT_GLO + prn - MIN_PRN_GAL + 1)
      else if sys = SYS_BDS then
        (if prn < MIN_PRN_BDS \<or> prn > MAX_PRN_BDS then 0
         else N_SAT_GPS + N_SAT_GLO + N_SAT_GAL + prn - MIN_PRN_BDS + 1)
      else 0)"

text \<open>\<open>satsys\<close> returns the system and writes the PRN through its pointer: here a pair.\<close>

definition satsys :: "u32 \<Rightarrow> u32 \<times> u32" where
  "satsys sat =
     (if sat \<le> 0 \<or> sat > MAX_SAT then (SYS_NONE, 0)
      else if sat \<le> N_SAT_GPS then (SYS_GPS, sat + (MIN_PRN_GPS - 1))
      else let sat = sat - N_SAT_GPS in
      if sat \<le> N_SAT_GLO then (SYS_GLO, sat + (MIN_PRN_GLO - 1))
      else let sat = sat - N_SAT_GLO in
      if sat \<le> N_SAT_GAL then (SYS_GAL, sat + (MIN_PRN_GAL - 1))
      else let sat = sat - N_SAT_GAL in
      if sat \<le> N_SAT_BDS then (SYS_BDS, sat + (MIN_PRN_BDS - 1))
      else (SYS_NONE, 0))"

lemma word_in_range:
  fixes w :: u32
  assumes "unat w < n" and "list_all (\<lambda>k. P (word_of_nat k)) [0..<n]"
  shows "P w"
proof -
  have "unat w \<in> set [0..<n]" using assms(1) by simp
  with assms(2) have "P (word_of_nat (unat w))" by (auto simp only: list_all_iff)
  then show ?thesis by simp
qed

definition sat_roundtrip :: "u32 \<Rightarrow> u32 \<Rightarrow> bool" where
  "sat_roundtrip sys prn =
     (sat_no sys prn = 0 \<or> satsys (sat_no sys prn) = (sys, prn) \<and> sat_no sys prn \<le> MAX_SAT)"

lemma sat_roundtrip_table:
  "list_all (\<lambda>s. list_all (\<lambda>k. sat_roundtrip s (word_of_nat k)) [0..<64])
     [SYS_GPS, SYS_GLO, SYS_GAL, SYS_BDS]"
  by code_simp

lemma satsys_table:
  "list_all (\<lambda>k. let (s, p) = satsys (word_of_nat k) in k = 0 \<or> sat_no s p = word_of_nat k) [0..<161]"
  by code_simp

lemma sat_no_nonzero:
  "sat_no sys prn \<noteq> 0 \<Longrightarrow> sys \<in> {SYS_GPS, SYS_GLO, SYS_GAL, SYS_BDS} \<and> unat prn < 64"
  by (auto simp add: sat_no_def prn_defs sys_defs word_less_nat_alt split: if_splits)

lemma sat_roundtrip_all: "sat_roundtrip sys prn"
proof (cases "sat_no sys prn = 0")
  case False
  then have "sys \<in> {SYS_GPS, SYS_GLO, SYS_GAL, SYS_BDS}" and prn: "unat prn < 64"
    using sat_no_nonzero by blast+
  with sat_roundtrip_table have "list_all (\<lambda>k. sat_roundtrip sys (word_of_nat k)) [0..<64]"
    by (auto simp only: list_all_iff list.set)
  with prn show ?thesis by (rule word_in_range)
qed (simp add: sat_roundtrip_def)

lemma sat_no_le: "sat_no sys prn \<le> MAX_SAT"
  using sat_roundtrip_all [of sys prn] by (auto simp add: sat_roundtrip_def)

lemma satsys_sat_no: "sat_no sys prn \<noteq> 0 \<Longrightarrow> satsys (sat_no sys prn) = (sys, prn)"
  using sat_roundtrip_all [of sys prn] by (auto simp add: sat_roundtrip_def)

lemma sat_no_of_satsys:
  assumes "sat \<noteq> 0" and "sat \<le> MAX_SAT"
  shows "sat_no (fst (satsys sat)) (snd (satsys sat)) = sat"
proof -
  have "unat sat < 161" using assms(2) by (simp add: prn_defs word_le_nat_alt)
  then have "let (s, p) = satsys sat in unat sat = 0 \<or> sat_no s p = sat"
    by (rule word_in_range)
      (use satsys_table in \<open>simp add: list_all_iff unat_of_nat Let_def\<close>)
  with assms(1) show ?thesis by (simp add: split_beta unat_eq_zero)
qed

text \<open>
  Claim C7.  The numbering is a bijection between the supported (system, PRN) pairs and 1..160:
  \<open>satsys\<close> undoes \<open>sat_no\<close> wherever that returns a number, \<open>sat_no\<close> undoes \<open>satsys\<close> on every number
  of the range, and no number outside the range is produced.
\<close>

theorem sat_no_satsys_bijection:
  "(sat_no sys prn \<noteq> 0 \<longrightarrow> satsys (sat_no sys prn) = (sys, prn) \<and> sat_no sys prn \<le> MAX_SAT)
    \<and> (sat \<noteq> 0 \<and> sat \<le> MAX_SAT \<longrightarrow> sat_no (fst (satsys sat)) (snd (satsys sat)) = sat)"
  using satsys_sat_no sat_no_le sat_no_of_satsys by blast

theorem sat_no_satsys_bijection_witness:
  "satsys (sat_no SYS_GAL 38) = (SYS_GAL, 38) \<and> sat_no SYS_GAL 38 = 97
    \<and> sat_no (fst (satsys 160)) (snd (satsys 160)) = 160"
proof -
  have no: "sat_no SYS_GAL 38 = 97" by (simp add: sat_no_def sys_defs prn_defs)
  show ?thesis
    using sat_no_satsys_bijection [of SYS_GAL 38 160] by (simp add: no prn_defs)
qed

section \<open>Text form\<close>

text \<open>A system outside the six leaves the stream empty.\<close>

definition sat2str :: "u32 \<Rightarrow> string" where
  "sat2str no =
     (let (sys, prn) = satsys no; p = setw 2 CHR ''0'' (dec (unat prn)) in
      if sys = SYS_GPS then CHR ''G'' # p
      else if sys = SYS_GLO then CHR ''R'' # p
      else if sys = SYS_BDS then CHR ''C'' # p
      else if sys = SYS_GAL then CHR ''E'' # p
      else if sys = SYS_SBS then CHR ''S'' # p
      else if sys = SYS_QZS then CHR ''J'' # p
      else [])"

text \<open>\<open>std::stoul\<close> (64-bit \<open>unsigned long\<close>) may throw; the PRN is its value cut to 32 bits.\<close>

definition str2sat :: "string \<Rightarrow> cxx_error + u32" where
  "str2sat s =
     (if length s < 3 then Inr 0
      else case stoull (take 2 (drop 1 s)) of
        Inl e \<Rightarrow> Inl e
      | Inr n \<Rightarrow>
          (let prn = word_of_nat n; c = s ! 0 in
           Inr (if c = CHR ''G'' then sat_no SYS_GPS prn
                else if c = CHR ''R'' then sat_no SYS_GLO prn
                else if c = CHR ''C'' then sat_no SYS_BDS prn
                else if c = CHR ''E'' then sat_no SYS_GAL prn
                else if c = CHR ''S'' then sat_no SYS_SBS prn
                else if c = CHR ''J'' then sat_no SYS_QZS prn
                else 0)))"

lemma length_setw_dec: "n < 100 \<Longrightarrow> length (setw 2 CHR ''0'' (dec n)) = 2"
proof -
  assume "n < 100"
  then have "n div 10 < 10" by simp
  with \<open>n < 100\<close> have "length (dec n) \<le> 2"
    by (cases "n < 10") (simp_all add: dec_def dec_digits.simps [of n] dec_digits.simps [of "n div 10"])
  then show ?thesis by (simp add: setw_def)
qed

lemma satsys_cases:
  assumes "sat \<noteq> 0" and "sat \<le> MAX_SAT"
  shows "fst (satsys sat) \<in> {SYS_GPS, SYS_GLO, SYS_GAL, SYS_BDS}" and "unat (snd (satsys sat)) < 64"
  using assms sat_no_of_satsys [OF assms] sat_no_nonzero [of "fst (satsys sat)" "snd (satsys sat)"]
  by auto

text \<open>
  Every satellite survives its text form: \<open>str2sat\<close> reads what \<open>sat2str\<close> prints (letter
  of the constellation and the PRN padded to two digits) back to the same number, without an
  exception.
\<close>

lemma str2sat_sat2str:
  assumes "sat \<noteq> 0" and "sat \<le> MAX_SAT"
  shows "str2sat (sat2str sat) = Inr sat"
proof -
  obtain sys prn where sp: "satsys sat = (sys, prn)" by fastforce
  let ?p = "setw 2 CHR ''0'' (dec (unat prn))"
  have sys: "sys \<in> {SYS_GPS, SYS_GLO, SYS_GAL, SYS_BDS}" and prn: "unat prn < 64"
    using satsys_cases [OF assms] by (simp_all add: sp)
  have len: "length ?p = 2" using prn by (simp add: length_setw_dec)
  have num: "stoull ?p = Inr (unat prn)" using prn by (simp add: stoull_setw_dec)
  have inv: "sat_no sys prn = sat" using sat_no_of_satsys [OF assms] by (simp add: sp)
  from sys show ?thesis
    using len num inv by (auto simp add: sat2str_def sp str2sat_def sys_defs Let_def)
qed

lemma str2sat_sat2str_witness: "str2sat (sat2str 97) = Inr 97 \<and> sat2str 97 = ''E38''"
proof
  show "str2sat (sat2str 97) = Inr 97"
    by (rule str2sat_sat2str) (simp_all add: prn_defs)
  show "sat2str 97 = ''E38''" by code_simp
qed

end
