(* ===== verification/Gnss_Time.thy ===== *)
theory Gnss_Time
  imports Float64 "HOL-Library.Signed_Division"
begin

text \<open>
  Time: \<open>gtime_t\<close>, the calendar conversions, the week/time-of-week systems of GPS, Galileo and
  BeiDou, and leap seconds.  Machine arithmetic is written out: an \<open>int\<close> result is reduced to 32
  bits (two's complement) by \<open>i32\<close>, an \<open>uint32_t\<close> is a word; \<open>time_t\<close> has 64 bits, which none of the
  sums here can leave.  Division of integers truncates (\<open>sdiv\<close>, \<open>smod\<close>), as in C++.
\<close>

section \<open>Representation\<close>

record gtime =
  gt_time :: int
  gt_sec :: f64

definition i32 :: "int \<Rightarrow> int" where
  "i32 n = (n + 2 ^ 31) mod 2 ^ 32 - 2 ^ 31"

lemma i32_id [simp]: "- (2 ^ 31) \<le> n \<Longrightarrow> n < 2 ^ 31 \<Longrightarrow> i32 n = n"
  by (simp add: i32_def)

definition f0 :: f64 where "f0 = Fin 0 0"

section \<open>Calendar\<close>

definition doy_table :: "int list" where
  "doy_table = [1, 32, 60, 91, 121, 152, 182, 213, 244, 274, 305, 335]"

text \<open>\<open>ep\<close> holds year, month, day, hour, minute and second.\<close>

definition epoch2time :: "f64 list \<Rightarrow> gtime" where
  "epoch2time ep =
     (let year = to_i32 (ep ! 0); mon = to_i32 (ep ! 1); day = to_i32 (ep ! 2) in
      if year < 1970 \<or> year > 2099 \<or> mon < 1 \<or> mon > 12 then \<lparr>gt_time = 0, gt_sec = f0\<rparr>
      else
        let days = i32 ((year - 1970) * 365 + (year - 1969) sdiv 4 + doy_table ! nat (mon - 1)
                        + day - 2 + (if year smod 4 = 0 \<and> mon \<ge> 3 then 1 else 0));
            sec = to_i32 (ffloor (ep ! 5))
        in \<lparr>gt_time = days * 86400 + i32 (to_i32 (ep ! 3) * 3600) + i32 (to_i32 (ep ! 4) * 60) + sec,
            gt_sec = fsub (ep ! 5) (f64_int sec)\<rparr>)"

definition mday :: "int list" where
  "mday = [31,28,31,30,31,30,31,31,30,31,30,31,31,28,31,30,31,30,31,31,30,31,30,31,
           31,29,31,30,31,30,31,31,30,31,30,31,31,28,31,30,31,30,31,31,30,31,30,31]"

fun month_loop :: "int list \<Rightarrow> int \<Rightarrow> int \<Rightarrow> int \<times> int" where
  "month_loop [] mon day = (mon, day)"
| "month_loop (m # ms) mon day =
     (if day \<ge> m then month_loop ms (mon + 1) (day - m) else (mon, day))"

definition time2epoch :: "gtime \<Rightarrow> f64 list" where
  "time2epoch t =
     (let days = i32 (gt_time t sdiv 86400);
          sec = i32 (gt_time t - days * 86400);
          (mon, day) = month_loop mday 0 (days smod 1461)
      in [f64_int (1970 + days sdiv 1461 * 4 + mon sdiv 12), f64_int (mon smod 12 + 1),
          f64_int (day + 1), f64_int (sec sdiv 3600), f64_int (sec smod 3600 sdiv 60),
          fadd (f64_int (sec smod 60)) (gt_sec t)])"

section \<open>Differences and sums\<close>

text \<open>\<open>difftime\<close> of two \<open>time_t\<close> is their difference as a double.\<close>

definition time_diff :: "gtime \<Rightarrow> gtime \<Rightarrow> f64" where
  "time_diff t1 t2 =
     fsub (fadd (f64_int (gt_time t1 - gt_time t2)) (gt_sec t1)) (gt_sec t2)"

definition time_add :: "gtime \<Rightarrow> f64 \<Rightarrow> gtime" where
  "time_add t sec =
     (let s = fadd (gt_sec t) sec; tt = ffloor s
      in \<lparr>gt_time = gt_time t + to_i32 tt, gt_sec = fsub s tt\<rparr>)"

definition time2sec :: "gtime \<Rightarrow> f64" where
  "time2sec t = fadd (f64_int (gt_time t)) (gt_sec t)"

definition to_i64 :: "f64 \<Rightarrow> int" where
  "to_i64 x = (case f64_trunc x of
     Some n \<Rightarrow> if - (2 ^ 63) \<le> n \<and> n < 2 ^ 63 then n else - (2 ^ 63)
   | None \<Rightarrow> - (2 ^ 63))"

definition sec2time :: "f64 \<Rightarrow> gtime" where
  "sec2time sec =
     (let t = to_i64 (ffloor sec) in \<lparr>gt_time = t, gt_sec = fsub sec (f64_int t)\<rparr>)"

section \<open>Week and time of week\<close>

definition gpst0 :: "f64 list" where "gpst0 = map f64_int [1980, 1, 6, 0, 0, 0]"
definition gst0 :: "f64 list" where "gst0 = map f64_int [1999, 8, 22, 0, 0, 0]"
definition bdt0 :: "f64 list" where "bdt0 = map f64_int [2006, 1, 1, 0, 0, 0]"

text \<open>The guard shared by the three encoders; a NaN passes it.\<close>

definition tow_guard :: "f64 \<Rightarrow> f64" where
  "tow_guard tow =
     (if flt tow (f64_int (- 1000000000)) \<or> flt (f64_int 1000000000) tow then f0 else tow)"

text \<open>The product with the week is an \<open>uint32_t\<close>, as is the sum with \<open>(int)tow\<close>.\<close>

definition gpst2time :: "u32 \<Rightarrow> f64 \<Rightarrow> gtime" where
  "gpst2time week tow =
     (let t = epoch2time gpst0; tow = tow_guard tow
      in \<lparr>gt_time = gt_time t + uint (604800 * week + word_of_int (to_i32 tow)),
          gt_sec = fsub tow (f64_int (to_i32 tow))\<rparr>)"

definition time2gpst :: "gtime \<Rightarrow> u32 \<times> f64" where
  "time2gpst t =
     (let sec = gt_time t - gt_time (epoch2time gpst0);
          w = word_of_int (sec sdiv 604800) :: u32
      in (w, fadd (f64_int (sec - uint (w * 86400 * 7))) (gt_sec t)))"

definition gst2time :: "int \<Rightarrow> f64 \<Rightarrow> gtime" where
  "gst2time week tow =
     (let t = epoch2time gst0; tow = tow_guard tow
      in \<lparr>gt_time = gt_time t + i32 (604800 * week + to_i32 tow),
          gt_sec = fsub tow (f64_int (to_i32 tow))\<rparr>)"

definition time2gst :: "gtime \<Rightarrow> int \<times> f64" where
  "time2gst t =
     (let sec = gt_time t - gt_time (epoch2time gst0);
          w = i32 (sec sdiv 604800)
      in (w, fadd (f64_int (sec - i32 (w * 86400 * 7))) (gt_sec t)))"

definition bdt2time :: "int \<Rightarrow> f64 \<Rightarrow> gtime" where
  "bdt2time week tow =
     (let t = epoch2time bdt0; tow = tow_guard tow
      in \<lparr>gt_time = gt_time t + i32 (604800 * week + to_i32 tow),
          gt_sec = fsub tow (f64_int (to_i32 tow))\<rparr>)"

definition time2bdt :: "gtime \<Rightarrow> int \<times> f64" where
  "time2bdt t =
     (let sec = gt_time t - gt_time (epoch2time bdt0);
          w = i32 (sec sdiv 604800)
      in (w, fadd (f64_int (sec - i32 (w * 86400 * 7))) (gt_sec t)))"

section \<open>Leap seconds\<close>

definition leaps :: "int list list" where
  "leaps = [[2017,1,1,0,0,0,-18], [2015,7,1,0,0,0,-17], [2012,7,1,0,0,0,-16], [2009,1,1,0,0,0,-15],
    [2006,1,1,0,0,0,-14], [1999,1,1,0,0,0,-13], [1997,7,1,0,0,0,-12], [1996,1,1,0,0,0,-11],
    [1994,7,1,0,0,0,-10], [1993,7,1,0,0,0,-9], [1992,7,1,0,0,0,-8], [1991,1,1,0,0,0,-7],
    [1990,1,1,0,0,0,-6], [1988,1,1,0,0,0,-5], [1985,7,1,0,0,0,-4], [1983,7,1,0,0,0,-3],
    [1982,7,1,0,0,0,-2], [1981,7,1,0,0,0,-1]]"

text \<open>A row of the table: its epoch and its offset, as doubles.  The zero row that ends the C table
  is the end of the list.\<close>

definition leap_epoch :: "int list \<Rightarrow> gtime" where
  "leap_epoch row = epoch2time (map f64_int row)"

definition leap_offset :: "int list \<Rightarrow> f64" where
  "leap_offset row = f64_int (row ! 6)"

fun gpst2utc_loop :: "int list list \<Rightarrow> gtime \<Rightarrow> gtime" where
  "gpst2utc_loop [] t = t"
| "gpst2utc_loop (row # rows) t =
     (let tu = time_add t (leap_offset row) in
      if fle f0 (time_diff tu (leap_epoch row)) then tu else gpst2utc_loop rows t)"

definition gpst2utc :: "gtime \<Rightarrow> gtime" where
  "gpst2utc t = gpst2utc_loop leaps t"

fun utc2gpst_loop :: "int list list \<Rightarrow> gtime \<Rightarrow> gtime" where
  "utc2gpst_loop [] t = t"
| "utc2gpst_loop (row # rows) t =
     (if fle f0 (time_diff t (leap_epoch row)) then time_add t (fneg (leap_offset row))
      else utc2gpst_loop rows t)"

definition utc2gpst :: "gtime \<Rightarrow> gtime" where
  "utc2gpst t = utc2gpst_loop leaps t"

fun leap_seconds_loop :: "int list list \<Rightarrow> gtime \<Rightarrow> u32" where
  "leap_seconds_loop [] t = - 1"
| "leap_seconds_loop (row # rows) t =
     (let tu = time_add t (leap_offset row) in
      if fle f0 (time_diff tu (leap_epoch row)) then word_of_int (to_i32 (fneg (leap_offset row)))
      else leap_seconds_loop rows t)"

definition leap_seconds_from_GPS_epoch :: "f64 list \<Rightarrow> u32" where
  "leap_seconds_from_GPS_epoch datetime = leap_seconds_loop leaps (epoch2time datetime)"

text \<open>Day of the year: the epoch with month and day 1 and no time of day is its January 1st.\<close>

definition time2doy :: "gtime \<Rightarrow> f64" where
  "time2doy t =
     (let ep = [time2epoch t ! 0, f64_int 1, f64_int 1, f0, f0, f0]
      in fadd (fdiv (time_diff t (epoch2time ep)) (f64_int 86400)) (f64_int 1))"

section \<open>The calendar round trip\<close>

definition leap_year :: "int \<Rightarrow> bool" where
  "leap_year y \<longleftrightarrow> y mod 4 = 0"

definition month_days :: "int \<Rightarrow> int \<Rightarrow> int" where
  "month_days y m =
     (if m = 2 then (if leap_year y then 29 else 28) else if m \<in> {4, 6, 9, 11} then 30 else 31)"

text \<open>Index of a month in its cycle of four years.\<close>

definition month_index :: "int \<Rightarrow> int \<Rightarrow> nat" where
  "month_index y m = nat ((y - 1970) mod 4 * 12 + m - 1)"

lemma month_loop_take:
  assumes "k < length ms" and "0 \<le> r" and "r < ms ! k" and "\<forall>m \<in> set ms. 0 < m"
  shows "month_loop ms n (sum_list (take k ms) + r) = (n + int k, r)"
  using assms
proof (induction ms arbitrary: k n)
  case (Cons m ms)
  show ?case
  proof (cases k)
    case 0
    with Cons.prems show ?thesis by simp
  next
    case (Suc j)
    have "0 \<le> sum_list (take j ms)"
      using Cons.prems(4) by (intro sum_list_nonneg) (auto dest: in_set_takeD intro: less_imp_le)
    with Suc Cons.prems show ?thesis
      using Cons.IH [of j "n + 1"] by simp
  qed
qed simp

lemma mod4_cases: "(y :: int) mod 4 = 0 \<or> y mod 4 = 1 \<or> y mod 4 = 2 \<or> y mod 4 = 3"
  by presburger

lemma month_cases: "1 \<le> m \<Longrightarrow> m \<le> 12 \<Longrightarrow>
  m = 1 \<or> m = 2 \<or> m = 3 \<or> m = 4 \<or> m = 5 \<or> m = 6 \<or> m = 7 \<or> m = 8 \<or> m = 9 \<or> m = 10
    \<or> m = 11 \<or> m = (12 :: int)"
  by presburger

text \<open>Days since 1970, as \<open>epoch2time\<close> counts them, in terms of the four-year table.\<close>

definition epoch_days :: "int \<Rightarrow> int \<Rightarrow> int \<Rightarrow> int" where
  "epoch_days y m d =
     (y - 1970) * 365 + (y - 1969) div 4 + doy_table ! nat (m - 1) + d - 2
       + (if y mod 4 = 0 \<and> m \<ge> 3 then 1 else 0)"

lemma epoch_days_cycle:
  assumes "1970 \<le> y" and "1 \<le> m" and "m \<le> 12"
  shows "epoch_days y m d
      = 1461 * ((y - 1970) div 4) + sum_list (take (month_index y m) mday) + (d - 1)"
    and "mday ! month_index y m = month_days y m" and "month_index y m < 48"
proof -
  define c where "c = (y - 1970) div 4"
  define r where "r = (y - 1970) mod 4"
  have y: "y = 1970 + 4 * c + r" by (simp add: c_def r_def)
  have r: "r = 0 \<or> r = 1 \<or> r = 2 \<or> r = 3" unfolding r_def by (rule mod4_cases)
  have q: "(y - 1969) div 4 = c + (r + 1) div 4" using r unfolding y by auto
  have l: "(y mod 4 = 0) = (r = 2)" using r unfolding y by presburger
  have ix: "month_index y m = nat (r * 12 + m - 1)" by (simp add: month_index_def r_def)
  show "mday ! month_index y m = month_days y m"
    using r month_cases [OF assms(2,3)]
    by (auto simp add: ix month_days_def leap_year_def l mday_def)
  show "month_index y m < 48" using r assms(2,3) by (auto simp add: ix)
  show "epoch_days y m d = 1461 * ((y - 1970) div 4) + sum_list (take (month_index y m) mday) + (d - 1)"
    using r month_cases [OF assms(2,3)] unfolding c_def [symmetric] epoch_days_def q l ix
    by (elim disjE) (simp_all add: y doy_table_def mday_def)
qed

lemma sdiv_nonneg: "0 \<le> a \<Longrightarrow> 0 \<le> b \<Longrightarrow> (a :: int) sdiv b = a div b"
  and smod_nonneg: "0 \<le> a \<Longrightarrow> 0 \<le> b \<Longrightarrow> (a :: int) smod b = a mod b"
  by (simp_all add: signed_divide_int_def signed_modulo_int_def sgn_if)

definition valid_epoch :: "int \<Rightarrow> int \<Rightarrow> int \<Rightarrow> int \<Rightarrow> int \<Rightarrow> int \<Rightarrow> bool" where
  "valid_epoch y m d h mi s \<longleftrightarrow> 1970 \<le> y \<and> y \<le> 2099 \<and> 1 \<le> m \<and> m \<le> 12 \<and> 1 \<le> d \<and> d \<le> month_days y m
     \<and> 0 \<le> h \<and> h < 24 \<and> 0 \<le> mi \<and> mi < 60 \<and> 0 \<le> s \<and> s < 60"

abbreviation epoch_list :: "int \<Rightarrow> int \<Rightarrow> int \<Rightarrow> int \<Rightarrow> int \<Rightarrow> f64 \<Rightarrow> f64 list" where
  "epoch_list y m d h mi x \<equiv> [f64_int y, f64_int m, f64_int d, f64_int h, f64_int mi, x]"

lemma month_days_le: "month_days y m \<le> 31"
  by (simp add: month_days_def)

lemma doy_table_bounds: "1 \<le> m \<Longrightarrow> m \<le> 12 \<Longrightarrow> 1 \<le> doy_table ! nat (m - 1) \<and> doy_table ! nat (m - 1) \<le> 335"
  using month_cases [of m] by (auto simp add: doy_table_def)

lemma epoch_days_bounds:
  assumes "1970 \<le> y" and "y \<le> 2099" and "1 \<le> m" and "m \<le> 12" and "1 \<le> d" and "d \<le> 31"
  shows "0 \<le> epoch_days y m d" and "epoch_days y m d < 50000"
  using assms doy_table_bounds [OF assms(3,4)] by (auto simp add: epoch_days_def)

lemma epoch2time_valid:
  assumes "valid_epoch y m d h mi s" and "f64_floor x = Some s"
  shows "epoch2time (epoch_list y m d h mi x)
    = \<lparr>gt_time = epoch_days y m d * 86400 + h * 3600 + mi * 60 + s, gt_sec = fsub x (f64_int s)\<rparr>"
proof -
  have v: "1970 \<le> y" "y \<le> 2099" "1 \<le> m" "m \<le> 12" "1 \<le> d" "d \<le> 31" "0 \<le> h" "h < 24"
    "0 \<le> mi" "mi < 60" "0 \<le> s" "s < 60"
    using assms(1) month_days_le [of y m] by (simp_all add: valid_epoch_def)
  have "ffloor x = f64_int s" using assms(2) by (simp add: ffloor_def)
  moreover have "i32 (epoch_days y m d) = epoch_days y m d"
    using epoch_days_bounds [OF v(1-6)] by simp
  ultimately show ?thesis
    using v by (simp add: epoch2time_def Let_def sdiv_nonneg smod_nonneg epoch_days_def)
qed

lemma month_days_pos: "0 < month_days y m"
  by (simp add: month_days_def)

lemma mday_pos: "\<forall>m \<in> set mday. 0 < m"
  by (simp add: mday_def)

lemma length_mday: "length mday = 48"
  by (simp add: mday_def)

lemma sum_take_mday: "k < 48 \<Longrightarrow> 0 \<le> sum_list (take k mday) \<and> sum_list (take k mday) + mday ! k \<le> 1461"
proof -
  assume "k < 48"
  moreover have "list_all (\<lambda>k. 0 \<le> sum_list (take k mday) \<and> sum_list (take k mday) + mday ! k \<le> 1461) [0..<48]"
    by code_simp
  ultimately show ?thesis by (simp add: list_all_iff)
qed

lemma time2epoch_valid:
  assumes "valid_epoch y m d h mi s"
  shows "time2epoch \<lparr>gt_time = epoch_days y m d * 86400 + h * 3600 + mi * 60 + s, gt_sec = f\<rparr>
    = epoch_list y m d h mi (fadd (f64_int s) f)"
proof -
  have v: "1970 \<le> y" "y \<le> 2099" "1 \<le> m" "m \<le> 12" "1 \<le> d" "d \<le> month_days y m" "d \<le> 31" "0 \<le> h" "h < 24"
    "0 \<le> mi" "mi < 60" "0 \<le> s" "s < 60"
    using assms month_days_le [of y m] by (simp_all add: valid_epoch_def)
  define D where "D = epoch_days y m d"
  define k where "k = month_index y m"
  have D: "0 \<le> D" "D < 50000"
    unfolding D_def using v by (simp_all add: epoch_days_bounds)
  note cyc = epoch_days_cycle(1) [OF v(1,3,4), of d, folded k_def D_def]
  note cyc' = epoch_days_cycle(2,3) [OF v(1,3,4), folded k_def]
  define c where "c = (y - 1970) div 4"
  have sum: "0 \<le> sum_list (take k mday)" "sum_list (take k mday) + (d - 1) < 1461"
    using sum_take_mday [OF cyc'(2)] cyc'(1) v(6) by simp_all
  define z where "z = sum_list (take k mday) + (d - 1)"
  have "D = 1461 * c + z" and "0 \<le> z" and "z < 1461"
    using cyc sum v(5) by (simp_all add: c_def z_def)
  then have dm: "D mod 1461 = sum_list (take k mday) + (d - 1)" and dd: "D div 1461 = c"
    unfolding z_def [symmetric] by (auto intro: int_mod_pos_eq int_div_pos_eq)
  have loop: "month_loop mday 0 (D mod 1461) = (int k, d - 1)"
    unfolding dm using month_loop_take [of k mday "d - 1" 0] cyc' v(5,6)
    by (simp add: length_mday mday_pos)
  have k: "int k = (y - 1970) mod 4 * 12 + m - 1"
  proof -
    have "0 \<le> (y - 1970) mod 4" by simp
    then have "0 \<le> (y - 1970) mod 4 * 12 + m - 1" using v(3) by linarith
    then show ?thesis by (simp only: k_def month_index_def nat_0_le)
  qed
  have km: "int k div 12 = (y - 1970) mod 4" "int k mod 12 = m - 1"
    by (rule int_div_pos_eq [of _ _ _ "m - 1"] int_mod_pos_eq [of _ _ "(y - 1970) mod 4"];
        use k v(3,4) in simp)+
  have time: "0 \<le> D * 86400 + h * 3600 + mi * 60 + s" using v D by simp
  have day: "(D * 86400 + h * 3600 + mi * 60 + s) div 86400 = D"
    by (rule int_div_pos_eq [of _ _ _ "h * 3600 + mi * 60 + s"]) (use v in simp_all)
  have hour: "(h * 3600 + mi * 60 + s) div 3600 = h"
    by (rule int_div_pos_eq [of _ _ _ "mi * 60 + s"]) (use v in simp_all)
  have "(h * 3600 + mi * 60 + s) mod 3600 = mi * 60 + s"
    by (rule int_mod_pos_eq [of _ _ h]) (use v in simp_all)
  moreover have "(mi * 60 + s) div 60 = mi"
    by (rule int_div_pos_eq [of _ _ _ s]) (use v in simp_all)
  ultimately have min: "(h * 3600 + mi * 60 + s) mod 3600 div 60 = mi" by simp
  have sec: "(h * 3600 + (mi * 60 + s)) mod 60 = s"
    by (rule int_mod_pos_eq [of _ _ "h * 60 + mi"]) (use v in simp_all)
  have yr: "1970 + c * 4 + (y - 1970) mod 4 = y"
    by (simp add: c_def)
  show ?thesis
    unfolding D_def [symmetric]
    using v D time loop km yr
    by (simp add: time2epoch_def Let_def sdiv_nonneg smod_nonneg day dd hour min sec)
qed

text \<open>
  Claim C5.  Calendar and \<open>time_t\<close> agree: for every real date and time of day from 1970 to 2099
  (leap years included), with any fraction of a second, \<open>time2epoch\<close> returns exactly the fields
  \<open>epoch2time\<close> was given.
\<close>

theorem time2epoch_epoch2time:
  assumes "valid_epoch y m d h mi s" and "f64_wf x" and "f64_floor x = Some s"
  shows "time2epoch (epoch2time (epoch_list y m d h mi x)) = epoch_list y m d h mi x"
proof -
  have "0 \<le> s" "s < 60" using assms(1) by (simp_all add: valid_epoch_def)
  with assms show ?thesis
    by (simp add: epoch2time_valid time2epoch_valid floor_fraction)
qed

theorem time2epoch_epoch2time_witness:
  "time2epoch (epoch2time (epoch_list 2024 2 29 23 59 (Fin 4503599627370496 (- 47))))
    = epoch_list 2024 2 29 23 59 (Fin 4503599627370496 (- 47))"
  by (rule time2epoch_epoch2time [of _ _ _ _ _ 32])
    (simp_all add: valid_epoch_def month_days_def leap_year_def f64_wf_def)

section \<open>Week and time of week\<close>

text \<open>
  GPS, Galileo and BeiDou count weeks from an epoch of their own in machine integers of their own;
  what a client needs of any of them is the same: where a (week, time of week) pair lies and that
  the pair is read back.
\<close>

locale week_time =
  fixes enc :: "int \<Rightarrow> f64 \<Rightarrow> gtime"
    and dec :: "gtime \<Rightarrow> int \<times> f64"
    and base wmax :: int
  assumes enc: "0 \<le> w \<Longrightarrow> w \<le> wmax \<Longrightarrow> f64_wf tow \<Longrightarrow> f64_floor tow = Some n \<Longrightarrow> 0 \<le> n \<Longrightarrow> n < 604800 \<Longrightarrow>
      enc w tow = \<lparr>gt_time = base + 604800 * w + n, gt_sec = fsub tow (f64_int n)\<rparr>"
    and dec: "0 \<le> w \<Longrightarrow> w \<le> wmax \<Longrightarrow> 0 \<le> n \<Longrightarrow> n < 604800 \<Longrightarrow>
      dec \<lparr>gt_time = base + 604800 * w + n, gt_sec = f\<rparr> = (w, fadd (f64_int n) f)"
begin

lemma dec_enc:
  assumes "0 \<le> w" and "w \<le> wmax" and "f64_wf tow" and "f64_floor tow = Some n" and "0 \<le> n" and "n < 604800"
  shows "dec (enc w tow) = (w, tow)"
  using assms floor_fraction [OF assms(3-5)] by (simp add: enc dec)

lemma enc_less:
  assumes "0 \<le> w" and "w < w'" and "w' \<le> wmax"
    and "f64_wf t" and "f64_floor t = Some n" and "0 \<le> n" and "n < 604800"
    and "f64_wf t'" and "f64_floor t' = Some n'" and "0 \<le> n'" and "n' < 604800"
  shows "gt_time (enc w t) < gt_time (enc w' t')"
  using assms enc [of w t n] enc [of w' t' n'] by simp

end

lemma gps_base: "gt_time (epoch2time gpst0) = 315964800"
  and gst_base: "gt_time (epoch2time gst0) = 935280000"
  and bdt_base: "gt_time (epoch2time bdt0) = 1136073600"
  by code_simp+

lemma tow_guard_id:
  assumes "f64_floor tow = Some n" and "0 \<le> n" and "n < 604800"
  shows "tow_guard tow = tow"
proof -
  have "\<not> flt tow (f64_int (- 1000000000))"
    using assms by (simp add: flt_int_right)
  moreover have "\<not> flt (f64_int 1000000000) tow"
    using flt_asym assms flt_int_right [OF assms(1), of 1000000000] by auto
  ultimately show ?thesis by (simp add: tow_guard_def)
qed

lemma week_div: "0 \<le> n \<Longrightarrow> n < 604800 \<Longrightarrow> (604800 * w + n) div 604800 = (w :: int)"
  by (rule int_div_pos_eq) auto

lemma uint_word_of_int_id: "0 \<le> k \<Longrightarrow> k < 2 ^ 32 \<Longrightarrow> uint (word_of_int k :: u32) = k"
  by (simp add: uint_word_of_int)

interpretation gps: week_time "\<lambda>w. gpst2time (word_of_int w)" "\<lambda>t. (uint (fst (time2gpst t)), snd (time2gpst t))"
  315964800 7100
proof unfold_locales
  fix w n :: int and tow :: f64
  assume w: "0 \<le> w" "w \<le> 7100" and "f64_wf tow" and n: "f64_floor tow = Some n" "0 \<le> n" "n < 604800"
  have "uint (word_of_int (604800 * w + n) :: u32) = 604800 * w + n"
    by (rule uint_word_of_int_id) (use w n(2,3) in simp_all)
  then have "uint (604800 * (word_of_int w :: u32) + word_of_int n) = 604800 * w + n"
    by simp
  then show "gpst2time (word_of_int w) tow = \<lparr>gt_time = 315964800 + 604800 * w + n, gt_sec = fsub tow (f64_int n)\<rparr>"
    using n by (simp add: gpst2time_def Let_def gps_base tow_guard_id [OF n] to_i32_floor)
next
  fix w n :: int and f :: f64
  assume w: "0 \<le> w" "w \<le> 7100" and n: "0 \<le> n" "n < 604800"
  let ?t = "\<lparr>gt_time = 315964800 + 604800 * w + n, gt_sec = f\<rparr>"
  have "(604800 * w + n) sdiv 604800 = w" using w n by (simp add: sdiv_nonneg week_div)
  moreover have "uint (word_of_int (604800 * w) :: u32) = 604800 * w"
    by (rule uint_word_of_int_id) (use w in simp_all)
  then have "uint ((word_of_int w :: u32) * 86400 * 7) = 604800 * w" by (simp add: mult.commute)
  moreover have "uint (word_of_int w :: u32) = w"
    by (rule uint_word_of_int_id) (use w in simp_all)
  ultimately have "time2gpst ?t = (word_of_int w, fadd (f64_int n) f)" and "uint (word_of_int w :: u32) = w"
    by (simp_all add: time2gpst_def Let_def gps_base)
  then show "(uint (fst (time2gpst ?t)), snd (time2gpst ?t)) = (w, fadd (f64_int n) f)"
    by simp
qed

interpretation gst: week_time gst2time time2gst 935280000 3549
proof unfold_locales
  fix w n :: int and tow :: f64
  assume w: "0 \<le> w" "w \<le> 3549" and "f64_wf tow" and n: "f64_floor tow = Some n" "0 \<le> n" "n < 604800"
  then show "gst2time w tow = \<lparr>gt_time = 935280000 + 604800 * w + n, gt_sec = fsub tow (f64_int n)\<rparr>"
    by (simp add: gst2time_def Let_def gst_base tow_guard_id [OF n] to_i32_floor)
next
  fix w n :: int and f :: f64
  assume w: "0 \<le> w" "w \<le> 3549" and n: "0 \<le> n" "n < 604800"
  then show "time2gst \<lparr>gt_time = 935280000 + 604800 * w + n, gt_sec = f\<rparr> = (w, fadd (f64_int n) f)"
    by (simp add: time2gst_def Let_def gst_base sdiv_nonneg week_div)
qed

interpretation bdt: week_time bdt2time time2bdt 1136073600 3549
proof unfold_locales
  fix w n :: int and tow :: f64
  assume w: "0 \<le> w" "w \<le> 3549" and "f64_wf tow" and n: "f64_floor tow = Some n" "0 \<le> n" "n < 604800"
  then show "bdt2time w tow = \<lparr>gt_time = 1136073600 + 604800 * w + n, gt_sec = fsub tow (f64_int n)\<rparr>"
    by (simp add: bdt2time_def Let_def bdt_base tow_guard_id [OF n] to_i32_floor)
next
  fix w n :: int and f :: f64
  assume w: "0 \<le> w" "w \<le> 3549" and n: "0 \<le> n" "n < 604800"
  then show "time2bdt \<lparr>gt_time = 1136073600 + 604800 * w + n, gt_sec = f\<rparr> = (w, fadd (f64_int n) f)"
    by (simp add: time2bdt_def Let_def bdt_base sdiv_nonneg week_div)
qed

text \<open>Whole seconds, negative ones included: \<open>(int)tow\<close> joins the unsigned sum modulo 2^32.\<close>

lemma tow_guard_int: "\<bar>t\<bar> \<le> 1000000000 \<Longrightarrow> tow_guard (f64_int t) = f64_int t"
  by (auto simp add: tow_guard_def)

lemma gpst2time_int:
  assumes "\<bar>t\<bar> \<le> 1000000000" and "0 \<le> 604800 * uint w + t" and "604800 * uint w + t < 2 ^ 32"
  shows "gpst2time w (f64_int t) = \<lparr>gt_time = 315964800 + 604800 * uint w + t, gt_sec = f0\<rparr>"
proof -
  have "uint (word_of_int (604800 * uint w + t) :: u32) = 604800 * uint w + t"
    by (rule uint_word_of_int_id) (use assms(2,3) in simp_all)
  then have "uint (604800 * w + word_of_int t) = 604800 * uint w + t"
    by simp
  moreover have "to_i32 (f64_int t) = t" using assms(1) by simp
  ultimately show ?thesis
    using assms(1) by (simp add: gpst2time_def Let_def gps_base tow_guard_int fsub_int f0_def)
qed

lemma time2gpst_int:
  assumes "0 \<le> w" and "w \<le> 7100" and "0 \<le> t" and "t < 604800"
  shows "time2gpst \<lparr>gt_time = 315964800 + 604800 * w + t, gt_sec = f0\<rparr> = (word_of_int w, f64_int t)"
proof -
  have "fadd (f64_int t) f0 = f64_int t"
    using fadd_int [of t 0] assms(3,4) by (simp add: f0_def)
  then show ?thesis
    using gps.dec [OF assms, of f0] by (metis fst_conv prod.collapse snd_conv word_of_int_uint)
qed

text \<open>
  Claim C6.  Week number and time of week survive the trip through \<open>gtime_t\<close> in all three systems,
  for any double time of week inside the week: GPS weeks up to 7100 (year 2116), Galileo and BeiDou
  weeks up to 3549, the ranges in which the 32-bit product does not wrap.
\<close>

theorem week_time_roundtrip:
  assumes "f64_wf tow" and "f64_floor tow = Some n" and "0 \<le> n" and "n < 604800"
  shows "(unat gw \<le> 7100 \<longrightarrow> time2gpst (gpst2time gw tow) = (gw, tow))
    \<and> (0 \<le> w \<and> w \<le> 3549 \<longrightarrow>
        time2gst (gst2time w tow) = (w, tow) \<and> time2bdt (bdt2time w tow) = (w, tow))"
proof (intro conjI impI)
  assume "unat gw \<le> 7100"
  then have gw: "uint gw \<le> 7100" by (simp only: uint_nat)
  have "uint (fst (time2gpst (gpst2time gw tow))) = uint gw \<and> snd (time2gpst (gpst2time gw tow)) = tow"
    using gps.dec_enc [OF _ gw assms] by simp
  then show "time2gpst (gpst2time gw tow) = (gw, tow)"
    by (metis prod.collapse word_of_int_uint)
next
  assume w: "0 \<le> w \<and> w \<le> 3549"
  then have w': "0 \<le> w" "w \<le> 3549" by simp_all
  show "time2gst (gst2time w tow) = (w, tow)" by (rule gst.dec_enc [OF w' assms])
  show "time2bdt (bdt2time w tow) = (w, tow)" by (rule bdt.dec_enc [OF w' assms])
qed

theorem week_time_roundtrip_witness:
  "time2gpst (gpst2time 2300 (f64_int 345600)) = (2300, f64_int 345600)
    \<and> time2gst (gst2time 1276 (f64_int 345600)) = (1276, f64_int 345600)"
proof -
  have "f64_wf (f64_int 345600)" by code_simp
  then show ?thesis
    using week_time_roundtrip [of "f64_int 345600" 345600 2300 1276] by simp
qed

text \<open>
  The GPS product is computed in \<open>uint32_t\<close>: from week 7102 on the result lies before
  that of week 7101, so time runs backwards there (the 16-bit week of RXM-RAWX can say so).
\<close>

lemma gpst2time_wraps:
  "gt_time (gpst2time 7102 f0) < gt_time (gpst2time 0 f0) + 604800
    \<and> gt_time (gpst2time 7101 f0) = 315964800 + 604800 * 7101"
  by code_simp

end
