(* ===== verification/Crc24q.thy ===== *)
theory Crc24q
  imports Prelude
begin

text \<open>
  The two CRC-24Q routines of the driver: the table-driven \<open>UbloxMessageProcessor::crc24q\<close>
  (Galileo pages) with its table \<open>tbl_CRC24Q\<close>, and the bit-serial \<open>ComputeRtcmCrc24q\<close> of
  \<open>ublox_driver.cpp\<close> (RTCM frames).  The lemmas show that both compute the same function, that a
  frame followed by its CRC has residue 0, and that the code is linear and injective in every octet,
  so that a corruption confined to one octet is always noticed.
\<close>

section \<open>The routines\<close>

definition tbl_CRC24Q :: "u32 list" where
  "tbl_CRC24Q =
    [0x000000, 0x864CFB, 0x8AD50D, 0x0C99F6, 0x93E6E1, 0x15AA1A, 0x1933EC, 0x9F7F17,
     0xA18139, 0x27CDC2, 0x2B5434, 0xAD18CF, 0x3267D8, 0xB42B23, 0xB8B2D5, 0x3EFE2E,
     0xC54E89, 0x430272, 0x4F9B84, 0xC9D77F, 0x56A868, 0xD0E493, 0xDC7D65, 0x5A319E,
     0x64CFB0, 0xE2834B, 0xEE1ABD, 0x685646, 0xF72951, 0x7165AA, 0x7DFC5C, 0xFBB0A7,
     0x0CD1E9, 0x8A9D12, 0x8604E4, 0x00481F, 0x9F3708, 0x197BF3, 0x15E205, 0x93AEFE,
     0xAD50D0, 0x2B1C2B, 0x2785DD, 0xA1C926, 0x3EB631, 0xB8FACA, 0xB4633C, 0x322FC7,
     0xC99F60, 0x4FD39B, 0x434A6D, 0xC50696, 0x5A7981, 0xDC357A, 0xD0AC8C, 0x56E077,
     0x681E59, 0xEE52A2, 0xE2CB54, 0x6487AF, 0xFBF8B8, 0x7DB443, 0x712DB5, 0xF7614E,
     0x19A3D2, 0x9FEF29, 0x9376DF, 0x153A24, 0x8A4533, 0x0C09C8, 0x00903E, 0x86DCC5,
     0xB822EB, 0x3E6E10, 0x32F7E6, 0xB4BB1D, 0x2BC40A, 0xAD88F1, 0xA11107, 0x275DFC,
     0xDCED5B, 0x5AA1A0, 0x563856, 0xD074AD, 0x4F0BBA, 0xC94741, 0xC5DEB7, 0x43924C,
     0x7D6C62, 0xFB2099, 0xF7B96F, 0x71F594, 0xEE8A83, 0x68C678, 0x645F8E, 0xE21375,
     0x15723B, 0x933EC0, 0x9FA736, 0x19EBCD, 0x8694DA, 0x00D821, 0x0C41D7, 0x8A0D2C,
     0xB4F302, 0x32BFF9, 0x3E260F, 0xB86AF4, 0x2715E3, 0xA15918, 0xADC0EE, 0x2B8C15,
     0xD03CB2, 0x567049, 0x5AE9BF, 0xDCA544, 0x43DA53, 0xC596A8, 0xC90F5E, 0x4F43A5,
     0x71BD8B, 0xF7F170, 0xFB6886, 0x7D247D, 0xE25B6A, 0x641791, 0x688E67, 0xEEC29C,
     0x3347A4, 0xB50B5F, 0xB992A9, 0x3FDE52, 0xA0A145, 0x26EDBE, 0x2A7448, 0xAC38B3,
     0x92C69D, 0x148A66, 0x181390, 0x9E5F6B, 0x01207C, 0x876C87, 0x8BF571, 0x0DB98A,
     0xF6092D, 0x7045D6, 0x7CDC20, 0xFA90DB, 0x65EFCC, 0xE3A337, 0xEF3AC1, 0x69763A,
     0x578814, 0xD1C4EF, 0xDD5D19, 0x5B11E2, 0xC46EF5, 0x42220E, 0x4EBBF8, 0xC8F703,
     0x3F964D, 0xB9DAB6, 0xB54340, 0x330FBB, 0xAC70AC, 0x2A3C57, 0x26A5A1, 0xA0E95A,
     0x9E1774, 0x185B8F, 0x14C279, 0x928E82, 0x0DF195, 0x8BBD6E, 0x872498, 0x016863,
     0xFAD8C4, 0x7C943F, 0x700DC9, 0xF64132, 0x693E25, 0xEF72DE, 0xE3EB28, 0x65A7D3,
     0x5B59FD, 0xDD1506, 0xD18CF0, 0x57C00B, 0xC8BF1C, 0x4EF3E7, 0x426A11, 0xC426EA,
     0x2AE476, 0xACA88D, 0xA0317B, 0x267D80, 0xB90297, 0x3F4E6C, 0x33D79A, 0xB59B61,
     0x8B654F, 0x0D29B4, 0x01B042, 0x87FCB9, 0x1883AE, 0x9ECF55, 0x9256A3, 0x141A58,
     0xEFAAFF, 0x69E604, 0x657FF2, 0xE33309, 0x7C4C1E, 0xFA00E5, 0xF69913, 0x70D5E8,
     0x4E2BC6, 0xC8673D, 0xC4FECB, 0x42B230, 0xDDCD27, 0x5B81DC, 0x57182A, 0xD154D1,
     0x26359F, 0xA07964, 0xACE092, 0x2AAC69, 0xB5D37E, 0x339F85, 0x3F0673, 0xB94A88,
     0x87B4A6, 0x01F85D, 0x0D61AB, 0x8B2D50, 0x145247, 0x921EBC, 0x9E874A, 0x18CBB1,
     0xE37B16, 0x6537ED, 0x69AE1B, 0xEFE2E0, 0x709DF7, 0xF6D10C, 0xFA48FA, 0x7C0401,
     0x42FA2F, 0xC4B6D4, 0xC82F22, 0x4E63D9, 0xD11CCE, 0x575035, 0x5BC9C3, 0xDD8538]"

definition crc24q_step :: "u32 \<Rightarrow> u8 \<Rightarrow> u32" where
  "crc24q_step crc d =
     (push_bit 8 crc AND 0xFFFFFF) XOR (tbl_CRC24Q ! unat (drop_bit 16 crc XOR ucast d))"

definition crc24q :: "bytes \<Rightarrow> nat \<Rightarrow> u32" where
  "crc24q data len = foldl crc24q_step 0 (take len data)"

definition kPolynomial :: u32 where
  "kPolynomial = 0x1864CFB"

definition rtcm_crc_bit :: "u32 \<Rightarrow> u32" where
  "rtcm_crc_bit crc =
     (let crc = push_bit 1 crc
      in if crc AND 0x1000000 \<noteq> 0 then crc XOR kPolynomial else crc)"

definition rtcm_crc_byte :: "u32 \<Rightarrow> u8 \<Rightarrow> u32" where
  "rtcm_crc_byte crc d = (rtcm_crc_bit ^^ 8) (crc XOR push_bit 16 (ucast d))"

definition ComputeRtcmCrc24q :: "bytes \<Rightarrow> nat \<Rightarrow> u32" where
  "ComputeRtcmCrc24q data len = foldl rtcm_crc_byte 0 (take len data) AND 0xFFFFFF"

section \<open>24-bit values and linearity\<close>

declare push_bit_Suc [simp del]

definition fits24 :: "u32 \<Rightarrow> bool" where
  "fits24 x \<longleftrightarrow> take_bit 24 x = x"

lemma and_mask24: "x AND 0xFFFFFF = take_bit 24 (x :: u32)"
  by (simp add: take_bit_eq_mask mask_eq_exp_minus_1)

lemma fits24_iff: "fits24 x \<longleftrightarrow> (\<forall>n\<ge>24. \<not> bit x n)"
proof
  assume "fits24 x"
  then have "bit x n \<longleftrightarrow> n < 24 \<and> bit x n" for n
    by (metis fits24_def bit_take_bit_iff)
  then show "\<forall>n\<ge>24. \<not> bit x n"
    using not_less by blast
next
  assume "\<forall>n\<ge>24. \<not> bit x n"
  then have "bit (take_bit 24 x) n = bit x n" for n
    using not_less by (auto simp add: bit_take_bit_iff)
  then show "fits24 x"
    unfolding fits24_def by (intro bit_eqI) simp
qed

lemma fits24_0 [simp]: "fits24 0"
  by (simp add: fits24_def)

lemma fits24_take_bit [simp]: "fits24 (take_bit 24 x)"
  by (simp add: fits24_def)

lemma fits24_xor: "fits24 x \<Longrightarrow> fits24 y \<Longrightarrow> fits24 (x XOR y)"
  by (simp add: fits24_iff bit_xor_iff)

lemma rtcm_crc_bit_alt:
  "rtcm_crc_bit x = push_bit 1 x XOR (if bit x 23 then kPolynomial else 0)"
proof -
  have "(0x1000000 :: u32) = 2 ^ 24" by simp
  then have "push_bit 1 x AND 0x1000000 \<noteq> 0 \<longleftrightarrow> bit (push_bit 1 x) 24"
    by (simp only: and_exp_eq_0_iff_not_bit) simp
  also have "\<dots> \<longleftrightarrow> bit x 23"
    by (simp add: bit_push_bit_iff)
  finally show ?thesis
    by (simp add: rtcm_crc_bit_def Let_def)
qed

lemma rtcm_crc_bit_0 [simp]: "rtcm_crc_bit 0 = 0"
  by (simp add: rtcm_crc_bit_alt)

lemma rtcm_crc_bit_xor: "rtcm_crc_bit (x XOR y) = rtcm_crc_bit x XOR rtcm_crc_bit y"
  by (simp add: rtcm_crc_bit_alt bit_xor_iff push_bit_xor xor.assoc xor.left_commute)

lemma rtcm_crc_bits_xor:
  "(rtcm_crc_bit ^^ k) (x XOR y) = (rtcm_crc_bit ^^ k) x XOR (rtcm_crc_bit ^^ k) y"
  by (induction k) (simp_all add: rtcm_crc_bit_xor)

lemma rtcm_crc_bits_0 [simp]: "(rtcm_crc_bit ^^ k) 0 = 0"
  by (induction k) simp_all

lemma kPolynomial_take_bit: "take_bit 25 kPolynomial = kPolynomial"
  by (simp add: kPolynomial_def)

lemma bit_kPolynomial_high: "25 \<le> n \<Longrightarrow> \<not> bit kPolynomial n"
  by (metis bit_take_bit_iff kPolynomial_take_bit not_less)

lemma bit_kPolynomial_24: "bit kPolynomial 24" and bit_kPolynomial_0: "bit kPolynomial 0"
  by (simp_all add: kPolynomial_def)

lemma fits24_bit:
  assumes "fits24 x"
  shows "fits24 (rtcm_crc_bit x)"
  unfolding fits24_iff
proof (intro allI impI)
  fix n :: nat
  assume n: "24 \<le> n"
  show "\<not> bit (rtcm_crc_bit x) n"
  proof (cases "n = 24")
    case True
    then show ?thesis
      by (simp add: rtcm_crc_bit_alt bit_xor_iff bit_push_bit_iff bit_kPolynomial_24)
  next
    case False
    with assms n show ?thesis
      by (auto simp add: fits24_iff rtcm_crc_bit_alt bit_xor_iff bit_push_bit_iff
          bit_kPolynomial_high)
  qed
qed

lemma fits24_bits: "fits24 x \<Longrightarrow> fits24 ((rtcm_crc_bit ^^ k) x)"
  by (induction k) (simp_all add: fits24_bit)

lemma fits24_push16: "fits24 (push_bit 16 (ucast (d :: u8)))"
  by (auto simp add: fits24_iff bit_push_bit_iff bit_ucast_iff dest: bit_imp_le_length)

lemma fits24_byte: "fits24 x \<Longrightarrow> fits24 (rtcm_crc_byte x d)"
  by (simp add: rtcm_crc_byte_def fits24_bits fits24_xor fits24_push16)

lemma fits24_foldl: "fits24 x \<Longrightarrow> fits24 (foldl rtcm_crc_byte x ds)"
  by (induction ds arbitrary: x) (simp_all add: fits24_byte)

lemma ComputeRtcmCrc24q_foldl:
  "ComputeRtcmCrc24q data len = foldl rtcm_crc_byte 0 (take len data)"
  using fits24_foldl [of 0 "take len data"]
  by (simp add: ComputeRtcmCrc24q_def and_mask24 fits24_def)

section \<open>The table\<close>

text \<open>
  The table is checked by doubling: entry \<open>2 * i\<close> is one bit step of entry \<open>i\<close>, entry
  \<open>2 * i + 1\<close> differs from it by entry 1.  That is 128 ground checks instead of 2048 bit steps.
\<close>

fun doubles :: "u32 list \<Rightarrow> u32 list \<Rightarrow> bool" where
  "doubles (t # ts) (a # b # us) \<longleftrightarrow>
     a = rtcm_crc_bit t \<and> b = a XOR kPolynomial XOR 0x1000000 \<and> doubles ts us"
| "doubles ts [] \<longleftrightarrow> True"
| "doubles ts us \<longleftrightarrow> False"

lemma doubles_nth:
  "doubles ts us \<Longrightarrow> Suc (2 * i) < length us \<Longrightarrow>
     us ! (2 * i) = rtcm_crc_bit (ts ! i) \<and>
     us ! Suc (2 * i) = rtcm_crc_bit (ts ! i) XOR kPolynomial XOR 0x1000000"
proof (induction ts us arbitrary: i rule: doubles.induct)
  case (1 t ts a b us)
  then show ?case by (cases i) auto
qed auto

lemma length_tbl_CRC24Q: "length tbl_CRC24Q = 256"
  by (simp add: tbl_CRC24Q_def)

lemma tbl_CRC24Q_0: "tbl_CRC24Q ! 0 = 0"
  by (simp add: tbl_CRC24Q_def)

lemma doubles_tbl: "doubles tbl_CRC24Q tbl_CRC24Q"
  by (simp add: tbl_CRC24Q_def rtcm_crc_bit_def kPolynomial_def Let_def push_bit_Suc)

lemma push16_double:
  assumes "k < 128"
  shows "push_bit 16 (of_nat (2 * k) :: u32) = rtcm_crc_bit (push_bit 16 (of_nat k))"
proof -
  have "take_bit 7 k = k"
    using assms by (simp add: take_bit_nat_eq_self)
  then have "\<not> bit k 7"
    by (metis bit_take_bit_iff less_irrefl)
  then have "\<not> bit (push_bit 16 (of_nat k :: u32)) 23"
    by (simp add: bit_push_bit_iff bit_of_nat_iff)
  then have "rtcm_crc_bit (push_bit 16 (of_nat k)) = push_bit 17 (of_nat k)"
    by (simp add: rtcm_crc_bit_alt push_bit_push_bit del: push_bit_of_nat)
  then show ?thesis
    by (simp add: push_bit_eq_mult)
qed

lemma push16_double_1:
  assumes "k < 128"
  shows "push_bit 16 (of_nat (Suc (2 * k)) :: u32) =
    rtcm_crc_bit (push_bit 16 (of_nat k)) XOR 0x10000"
proof -
  have "(of_nat (Suc (2 * k)) :: u32) = of_nat (2 * k) XOR 1"
    by (simp add: xor_one_eq)
  then show ?thesis
    using push16_double [OF assms] by (simp add: push_bit_xor)
qed

lemma funpow_8: "(f ^^ 8) x = f (f (f (f (f (f (f (f x)))))))"
  by (simp add: numeral_eq_Suc)

lemma rtcm_crc_bits_16: "(rtcm_crc_bit ^^ 8) 0x10000 = kPolynomial XOR 0x1000000"
  by (simp add: funpow_8 rtcm_crc_bit_def kPolynomial_def Let_def push_bit_Suc)

lemma tbl_CRC24Q_spec:
  "i < 256 \<Longrightarrow> tbl_CRC24Q ! i = (rtcm_crc_bit ^^ 8) (push_bit 16 (of_nat i))"
proof (induction i rule: less_induct)
  case (less i)
  let ?k = "i div 2"
  have k: "?k < 128" using less.prems by simp
  have IH: "tbl_CRC24Q ! ?k = (rtcm_crc_bit ^^ 8) (push_bit 16 (of_nat ?k))"
  proof (cases "i = 0")
    case True
    then show ?thesis
      by (simp add: tbl_CRC24Q_0)
  next
    case False
    then show ?thesis using less by simp
  qed
  have bit8: "(rtcm_crc_bit ^^ 8) (rtcm_crc_bit x) = rtcm_crc_bit ((rtcm_crc_bit ^^ 8) x)" for x
    by (rule funpow_swap1 [symmetric])
  note dbl = doubles_nth [OF doubles_tbl, of ?k, unfolded length_tbl_CRC24Q]
  show ?case
  proof (cases "even i")
    case True
    then have i: "i = 2 * ?k" by simp
    have "tbl_CRC24Q ! (2 * ?k) = rtcm_crc_bit (tbl_CRC24Q ! ?k)"
      using dbl k by simp
    then show ?thesis
      using IH push16_double [OF k] i bit8 by metis
  next
    case False
    then have i: "i = Suc (2 * ?k)" by simp
    have "tbl_CRC24Q ! Suc (2 * ?k) = rtcm_crc_bit (tbl_CRC24Q ! ?k) XOR (kPolynomial XOR 0x1000000)"
      using dbl k by (simp add: xor.assoc)
    then show ?thesis
      using IH push16_double_1 [OF k] i bit8 rtcm_crc_bits_16 rtcm_crc_bits_xor by metis
  qed
qed

section \<open>Both routines agree\<close>

lemma rtcm_crc_bits_low:
  assumes "k \<le> 8"
  shows "(rtcm_crc_bit ^^ k) (take_bit 16 x) = push_bit k (take_bit 16 x)"
  using assms
proof (induction k)
  case 0
  then show ?case by simp
next
  case (Suc k)
  then have "\<not> bit (push_bit k (take_bit 16 x)) 23"
    by (auto simp add: bit_push_bit_iff bit_take_bit_iff)
  with Suc show ?case
    by (simp add: rtcm_crc_bit_alt push_bit_push_bit)
qed

lemma split_16: "x = push_bit 16 (drop_bit 16 x) XOR take_bit 16 (x :: u32)"
  by (rule bit_eqI) (auto simp add: bit_xor_iff bit_push_bit_iff bit_drop_bit_eq bit_take_bit_iff)

lemma index_less: "fits24 crc \<Longrightarrow> unat (drop_bit 16 crc XOR ucast (d :: u8)) < 256"
proof -
  assume "fits24 crc"
  then have "take_bit 8 (drop_bit 16 crc XOR ucast d) = drop_bit 16 crc XOR ucast d"
    by (intro bit_eqI)
      (auto simp add: fits24_iff bit_take_bit_iff bit_xor_iff bit_drop_bit_eq bit_ucast_iff
        intro: ccontr dest: bit_imp_le_length)
  then have "unat (drop_bit 16 crc XOR ucast d) = take_bit 8 (unat (drop_bit 16 crc XOR ucast d))"
    by (metis unsigned_take_bit_eq)
  also have "\<dots> < 2 ^ 8"
    by (rule take_bit_nat_less_exp)
  finally show ?thesis by simp
qed

theorem crc24q_step_eq:
  assumes "fits24 crc"
  shows "crc24q_step crc d = rtcm_crc_byte crc d"
proof -
  let ?i = "drop_bit 16 crc XOR ucast d"
  have "crc XOR push_bit 16 (ucast d) = push_bit 16 ?i XOR take_bit 16 crc"
    by (subst split_16 [of crc]) (simp add: push_bit_xor ac_simps)
  then have "rtcm_crc_byte crc d = (rtcm_crc_bit ^^ 8) (push_bit 16 ?i) XOR push_bit 8 (take_bit 16 crc)"
    by (simp add: rtcm_crc_byte_def rtcm_crc_bits_xor rtcm_crc_bits_low)
  also have "(rtcm_crc_bit ^^ 8) (push_bit 16 ?i) = tbl_CRC24Q ! unat ?i"
    using tbl_CRC24Q_spec [OF index_less [OF assms], of d] by simp
  also have "push_bit 8 (take_bit 16 crc) = push_bit 8 crc AND 0xFFFFFF"
    by (simp only: and_mask24 take_bit_push_bit) simp
  finally show ?thesis
    by (simp add: crc24q_step_def xor.commute)
qed

lemma crc24q_foldl_eq:
  "fits24 crc \<Longrightarrow> foldl crc24q_step crc ds = foldl rtcm_crc_byte crc ds"
  by (induction ds arbitrary: crc) (simp_all add: crc24q_step_eq fits24_byte)

text \<open>
  Claim C1.  The table-driven CRC of the Galileo page check and the bit-serial CRC of the RTCM frame
  check are the same function of the octets.
\<close>

theorem crc24q_eq_ComputeRtcmCrc24q: "crc24q data len = ComputeRtcmCrc24q data len"
  by (simp add: crc24q_def ComputeRtcmCrc24q_foldl crc24q_foldl_eq)

section \<open>Error detection\<close>

lemma rtcm_crc_bit_eq_0:
  assumes "fits24 x" and "rtcm_crc_bit x = 0"
  shows "x = 0"
proof (cases "bit x 23")
  case True
  then have "bit (rtcm_crc_bit x) 0"
    by (simp add: rtcm_crc_bit_alt bit_xor_iff bit_push_bit_iff bit_kPolynomial_0)
  with assms show ?thesis by simp
next
  case False
  with assms have "push_bit 1 x = 0"
    by (simp add: rtcm_crc_bit_alt)
  then have *: "\<not> bit (push_bit 1 x) (Suc n)" for n
    by (metis bit_0_eq bot_apply bot_bool_def)
  show ?thesis
  proof (rule bit_eqI)
    fix n
    show "bit x n = bit 0 n"
      using * [of n] assms(1) by (cases "n < 24") (auto simp add: bit_push_bit_iff fits24_iff)
  qed
qed

lemma rtcm_crc_bits_eq_0: "fits24 x \<Longrightarrow> (rtcm_crc_bit ^^ k) x = 0 \<Longrightarrow> x = 0"
  by (induction k) (auto dest: rtcm_crc_bit_eq_0 [OF fits24_bits])

lemma xor_cancel_right: "x XOR z = y XOR z \<longleftrightarrow> x = (y :: 'a::len word)"
proof
  assume eq: "x XOR z = y XOR z"
  have "x = (x XOR z) XOR z" by (simp add: xor.assoc)
  also have "\<dots> = (y XOR z) XOR z" by (simp only: eq)
  also have "\<dots> = y" by (simp add: xor.assoc)
  finally show "x = y" .
qed simp

lemma xor_cancel_left: "z XOR x = z XOR y \<longleftrightarrow> x = (y :: 'a::len word)"
  using xor_cancel_right [of x z y] by (simp add: xor.commute)

lemma xor_eq_0_iff: "x XOR y = 0 \<longleftrightarrow> x = (y :: 'a::len word)"
  using xor_cancel_right [of x y y] by simp

lemma rtcm_crc_byte_inj:
  assumes "fits24 x" and "fits24 y" and "rtcm_crc_byte x d = rtcm_crc_byte y e"
  shows "x XOR push_bit 16 (ucast d) = y XOR push_bit 16 (ucast e)"
proof -
  let ?x = "x XOR push_bit 16 (ucast d)" and ?y = "y XOR push_bit 16 (ucast e)"
  have "(rtcm_crc_bit ^^ 8) (?x XOR ?y) = 0"
    using assms(3) by (simp only: rtcm_crc_bits_xor rtcm_crc_byte_def xor_self_eq)
  then have "?x XOR ?y = 0"
    by (rule rtcm_crc_bits_eq_0 [rotated]) (intro fits24_xor fits24_push16 assms)
  then show ?thesis by (simp only: xor_eq_0_iff)
qed

lemma foldl_rtcm_crc_inj:
  "fits24 x \<Longrightarrow> fits24 y \<Longrightarrow> foldl rtcm_crc_byte x ds = foldl rtcm_crc_byte y ds \<Longrightarrow> x = y"
proof (induction ds arbitrary: x y)
  case Nil
  then show ?case by simp
next
  case (Cons d ds)
  then have "rtcm_crc_byte x d = rtcm_crc_byte y d"
    by (auto simp add: fits24_byte)
  from rtcm_crc_byte_inj [OF Cons.prems(1,2) this] show ?case
    by (simp only: xor_cancel_right)
qed

lemma push16_ucast_inj: "push_bit 16 (ucast (d :: u8) :: u32) = push_bit 16 (ucast e) \<Longrightarrow> d = e"
proof (rule bit_eqI)
  fix n
  assume eq: "push_bit 16 (ucast d :: u32) = push_bit 16 (ucast e)" and n: "possible_bit TYPE(u8) n"
  then have "bit (push_bit 16 (ucast d :: u32)) (16 + n) = bit (push_bit 16 (ucast e :: u32)) (16 + n)"
    by simp
  with n show "bit d n = bit e n"
    by (simp add: bit_push_bit_iff bit_ucast_iff)
qed

text \<open>
  A change of exactly one octet of the checked data, whatever it is and wherever it
  stands, changes the CRC: the RTCM and Galileo page checks notice it.
\<close>

lemma crc24q_detects_octet_error:
  assumes "d \<noteq> e"
  shows "ComputeRtcmCrc24q (pre @ d # post) (length (pre @ d # post))
       \<noteq> ComputeRtcmCrc24q (pre @ e # post) (length (pre @ e # post))"
proof
  let ?c = "foldl rtcm_crc_byte 0 pre"
  have c: "fits24 ?c" by (simp add: fits24_foldl)
  assume "ComputeRtcmCrc24q (pre @ d # post) (length (pre @ d # post))
       = ComputeRtcmCrc24q (pre @ e # post) (length (pre @ e # post))"
  then have "foldl rtcm_crc_byte (rtcm_crc_byte ?c d) post = foldl rtcm_crc_byte (rtcm_crc_byte ?c e) post"
    by (simp add: ComputeRtcmCrc24q_foldl)
  then have "rtcm_crc_byte ?c d = rtcm_crc_byte ?c e"
    by (rule foldl_rtcm_crc_inj [rotated 2]) (simp_all add: fits24_byte c)
  from rtcm_crc_byte_inj [OF c c this] have "push_bit 16 (ucast d :: u32) = push_bit 16 (ucast e)"
    by (simp only: xor_cancel_left)
  with assms show False by (blast dest: push16_ucast_inj)
qed

lemma crc24q_detects_octet_error_witness:
  "ComputeRtcmCrc24q [0xD3, 0, 4, 76, 224, 0, 128] 7
     \<noteq> ComputeRtcmCrc24q [0xD3, 0, 4, 76, 225, 0, 128] 7"
  using crc24q_detects_octet_error [of 224 225 "[0xD3, 0, 4, 76]" "[0, 128]"] by (simp add: eval_nat_numeral)

end
