(* ===== verification/Nav_Common.thy ===== *)
theory Nav_Common
  imports Bit_Codec Gnss_Sat Gnss_Time Crc24q
begin

text \<open>
  What the navigation decoders share: the scale factors, the ephemeris structures, the state of the
  message processor and the per-satellite subframe buffers.
\<close>

section \<open>Scale factors\<close>

text \<open>The literals of the header; each is named after the power of two it stands for.\<close>

definition P2_5 :: f64 where "P2_5 = f64_dec 3125 (- 5)"
definition P2_6 :: f64 where "P2_6 = f64_dec 15625 (- 6)"
definition P2_11 :: f64 where "P2_11 = f64_dec 4882812500000000 (- 19)"
definition P2_15 :: f64 where "P2_15 = f64_dec 3051757812500000 (- 20)"
definition P2_17 :: f64 where "P2_17 = f64_dec 7629394531250000 (- 21)"
definition P2_19 :: f64 where "P2_19 = f64_dec 1907348632812500 (- 21)"
definition P2_20 :: f64 where "P2_20 = f64_dec 9536743164062500 (- 22)"
definition P2_21 :: f64 where "P2_21 = f64_dec 4768371582031250 (- 22)"
definition P2_23 :: f64 where "P2_23 = f64_dec 1192092895507810 (- 22)"
definition P2_24 :: f64 where "P2_24 = f64_dec 5960464477539063 (- 23)"
definition P2_27 :: f64 where "P2_27 = f64_dec 7450580596923828 (- 24)"
definition P2_29 :: f64 where "P2_29 = f64_dec 1862645149230957 (- 24)"
definition P2_30 :: f64 where "P2_30 = f64_dec 9313225746154785 (- 25)"
definition P2_31 :: f64 where "P2_31 = f64_dec 4656612873077393 (- 25)"
definition P2_32 :: f64 where "P2_32 = f64_dec 2328306436538696 (- 25)"
definition P2_33 :: f64 where "P2_33 = f64_dec 1164153218269348 (- 25)"
definition P2_34 :: f64 where "P2_34 = f64_dec 5820766091346740 (- 26)"
definition P2_35 :: f64 where "P2_35 = f64_dec 2910383045673370 (- 26)"
definition P2_38 :: f64 where "P2_38 = f64_dec 3637978807091710 (- 27)"
definition P2_39 :: f64 where "P2_39 = f64_dec 1818989403545856 (- 27)"
definition P2_40 :: f64 where "P2_40 = f64_dec 9094947017729280 (- 28)"
definition P2_43 :: f64 where "P2_43 = f64_dec 1136868377216160 (- 28)"
definition P2_46 :: f64 where "P2_46 = f64_dec 1421085471520200 (- 29)"
definition P2_48 :: f64 where "P2_48 = f64_dec 3552713678800501 (- 30)"
definition P2_50 :: f64 where "P2_50 = f64_dec 8881784197001252 (- 31)"
definition P2_55 :: f64 where "P2_55 = f64_dec 2775557561562891 (- 32)"
definition P2_59 :: f64 where "P2_59 = f64_dec 1734723475976810 (- 33)"
definition P2_66 :: f64 where "P2_66 = f64_dec 1355252715606881 (- 35)"
definition SC2RAD :: f64 where "SC2RAD = f64_dec 31415926535898 (- 13)"

text \<open>
  The literals of the scale factors 2^-5, -6, -11, -15, -17, -19, -20, -21, -24, -27, -29,
  -30, -31, -48 and -50 denote the powers of two their comments state; those of 2^-23, -32, -33, -34,
  -35, -38, -39, -40, -43, -46, -55, -59 and -66 were cut to 16 digits too early and denote other
  doubles.
\<close>

lemma scale_factor_literals:
  "P2_5 = f64_of 1 (- 5) \<and> P2_6 = f64_of 1 (- 6) \<and> P2_11 = f64_of 1 (- 11) \<and> P2_15 = f64_of 1 (- 15) \<and> P2_17 = f64_of 1 (- 17) \<and> P2_19 = f64_of 1 (- 19) \<and> P2_20 = f64_of 1 (- 20) \<and> P2_21 = f64_of 1 (- 21) \<and> P2_24 = f64_of 1 (- 24) \<and> P2_27 = f64_of 1 (- 27) \<and> P2_29 = f64_of 1 (- 29) \<and> P2_30 = f64_of 1 (- 30) \<and> P2_31 = f64_of 1 (- 31) \<and> P2_48 = f64_of 1 (- 48) \<and> P2_50 = f64_of 1 (- 50)
    \<and> P2_23 \<noteq> f64_of 1 (- 23) \<and> P2_32 \<noteq> f64_of 1 (- 32) \<and> P2_33 \<noteq> f64_of 1 (- 33) \<and> P2_34 \<noteq> f64_of 1 (- 34) \<and> P2_35 \<noteq> f64_of 1 (- 35) \<and> P2_38 \<noteq> f64_of 1 (- 38) \<and> P2_39 \<noteq> f64_of 1 (- 39) \<and> P2_40 \<noteq> f64_of 1 (- 40) \<and> P2_43 \<noteq> f64_of 1 (- 43) \<and> P2_46 \<noteq> f64_of 1 (- 46) \<and> P2_55 \<noteq> f64_of 1 (- 55) \<and> P2_59 \<noteq> f64_of 1 (- 59) \<and> P2_66 \<noteq> f64_of 1 (- 66)"
  by code_simp

section \<open>Ephemerides\<close>

text \<open>\<open>EphemBase\<close> and the two structures derived from it; \<open>make_unique\<close> zeroes every member.\<close>

record ephem_base =
  eph_sat :: u32
  ttr :: gtime
  toe :: gtime
  health :: u32
  ura :: f64
  iode :: u32

record ephem = ephem_base +
  toc :: gtime
  toe_tow :: f64
  week :: u32
  iodc :: u32
  eph_code :: u32
  eph_a :: f64
  eph_e :: f64
  i0 :: f64
  omg :: f64
  omg0 :: f64
  m0 :: f64
  delta_n :: f64
  omg_dot :: f64
  i_dot :: f64
  cuc :: f64
  cus :: f64
  eph_crc :: f64
  crs :: f64
  cic :: f64
  cis :: f64
  af0 :: f64
  af1 :: f64
  af2 :: f64
  tgd0 :: f64
  tgd1 :: f64
  a_dot :: f64
  n_dot :: f64

record glo_ephem = ephem_base +
  freqo :: int
  glo_age :: u32
  glo_pos :: "f64 list"
  glo_vel :: "f64 list"
  glo_acc :: "f64 list"
  tau_n :: f64
  gamma :: f64
  delta_tau_n :: f64

definition gtime0 :: gtime where "gtime0 = \<lparr>gt_time = 0, gt_sec = f0\<rparr>"

definition new_ephem :: "u32 \<Rightarrow> ephem" where
  "new_ephem sat =
     \<lparr>eph_sat = sat, ttr = gtime0, toe = gtime0, health = 0, ura = f0, iode = 0,
      toc = gtime0, toe_tow = f0, week = 0, iodc = 0, eph_code = 0, eph_a = f0, eph_e = f0, i0 = f0,
      omg = f0, omg0 = f0, m0 = f0, delta_n = f0, omg_dot = f0, i_dot = f0, cuc = f0, cus = f0,
      eph_crc = f0, crs = f0, cic = f0, cis = f0, af0 = f0, af1 = f0, af2 = f0, tgd0 = f0, tgd1 = f0,
      a_dot = f0, n_dot = f0\<rparr>"

section \<open>State of the message processor\<close>

text \<open>
  The members of \<open>UbloxMessageProcessor\<close>: the receiver time, the lock time and the tracking state last
  seen per (satellite, signal slot), one row of 380 octets per satellite for the subframes, and the
  BeiDou D1 flags.
\<close>

record ubx_state =
  curr_time :: gtime
  signal_track_lock_times :: "u8 \<Rightarrow> u8 \<Rightarrow> f64 option"
  signal_track_state :: "u8 \<Rightarrow> u8 \<Rightarrow> u8 option"
  subfrm :: "bytes list"
  bds_d1_subfrm_flags :: "u8 list"

definition row_len :: nat where "row_len = 380"

definition ubx_init :: ubx_state where
  "ubx_init =
     \<lparr>curr_time = gtime0,
      signal_track_lock_times = (\<lambda>_ _. None), signal_track_state = (\<lambda>_ _. None),
      subfrm = replicate (unat MAX_SAT) (replicate row_len 0),
      bds_d1_subfrm_flags = replicate (unat MAX_SAT) 0\<rparr>"

text \<open>The invariant of the buffers.\<close>

definition ubx_inv :: "ubx_state \<Rightarrow> bool" where
  "ubx_inv st \<longleftrightarrow> length (subfrm st) = 160 \<and> (\<forall>r \<in> set (subfrm st). length r = row_len)
     \<and> length (bds_d1_subfrm_flags st) = 160"

lemma ubx_inv_init: "ubx_inv ubx_init"
  by (simp add: ubx_inv_def ubx_init_def prn_defs row_len_def)

definition sat_row :: "ubx_state \<Rightarrow> u32 \<Rightarrow> bytes" where
  "sat_row st sat = subfrm st ! (unat sat - 1)"

definition set_row :: "ubx_state \<Rightarrow> u32 \<Rightarrow> bytes \<Rightarrow> ubx_state" where
  "set_row st sat r = st\<lparr>subfrm := (subfrm st)[unat sat - 1 := r]\<rparr>"

text \<open>\<open>setbitu(row + off, pos, len, data)\<close>.\<close>

definition setbitu_at :: "bytes \<Rightarrow> nat \<Rightarrow> nat \<Rightarrow> nat \<Rightarrow> u32 \<Rightarrow> bytes" where
  "setbitu_at r off pos len data = take off r @ setbitu (drop off r) pos len data"

text \<open>Ten words at consecutive positions, as both the GPS and the BeiDou decoder store them.\<close>

definition store_words :: "bytes \<Rightarrow> nat \<Rightarrow> nat \<Rightarrow> u32 list \<Rightarrow> bytes" where
  "store_words r off width ws =
     foldl (\<lambda>r i. setbitu_at r off (width * i) width (ws ! i)) r [0..<10]"

text \<open>\<open>(urai < 6) ? pow(2, urai / 2.0 + 1) : (1 << (urai - 2))\<close>; the powers 2, 2^1.5, 4, ... that
  occur are tabulated, the irrational ones as the nearest double, which \<open>std::pow\<close> returns.\<close>

definition ura_of_index :: "u8 \<Rightarrow> f64" where
  "ura_of_index urai =
     (if urai < 6 then
        [f64_int 2, f64_dec 28284271247461903 (- 16), f64_int 4, f64_dec 56568542494923806 (- 16),
         f64_int 8, f64_dec 11313708498984761 (- 15)] ! unat urai
      else f64_int (2 ^ (unat urai - 2)))"

abbreviation scale :: "int \<Rightarrow> f64 \<Rightarrow> f64" where
  "scale n p \<equiv> fmul (f64_int n) p"

abbreviation half_week :: f64 where "half_week \<equiv> f64_int 302400"

section \<open>Rows\<close>

lemma length_setbitu_at [simp]: "length (setbitu_at r off pos len d) = length r"
  by (auto simp add: setbitu_at_def)

lemma fold_length: "(\<And>r i. length (f r i) = length r) \<Longrightarrow> length (foldl f r is) = length r"
  by (induction "is" arbitrary: r) simp_all

lemma length_store_words [simp]: "length (store_words r off w ws) = length r"
  by (simp add: store_words_def fold_length)

lemma ubx_inv_row: "ubx_inv st \<Longrightarrow> sat \<noteq> 0 \<Longrightarrow> sat \<le> MAX_SAT \<Longrightarrow> length (sat_row st sat) = row_len"
  by (auto simp add: ubx_inv_def sat_row_def prn_defs word_le_nat_alt)

lemma ubx_inv_set_row [simp]: "ubx_inv st \<Longrightarrow> length r = row_len \<Longrightarrow> ubx_inv (set_row st sat r)"
  by (auto simp add: ubx_inv_def set_row_def dest: set_update_subset_insert [THEN subsetD])

lemma ubx_inv_curr [simp]: "ubx_inv (st\<lparr>curr_time := t\<rparr>) = ubx_inv st"
  by (simp add: ubx_inv_def)

lemma sat_row_set_row:
  "ubx_inv st \<Longrightarrow> sat \<noteq> 0 \<Longrightarrow> sat \<le> MAX_SAT \<Longrightarrow> sat' \<noteq> 0 \<Longrightarrow>
    sat_row (set_row st sat r) sat' = (if sat' = sat then r else sat_row st sat')"
proof -
  assume a: "ubx_inv st" "sat \<noteq> 0" "sat \<le> MAX_SAT" "sat' \<noteq> 0"
  have "unat sat' - 1 = unat sat - 1 \<longleftrightarrow> sat' = sat"
    using a(2,4) by (metis Suc_pred' diff_Suc_1 unat_eq_zero unsigned_word_eqI neq0_conv)
  with a show ?thesis
    by (auto simp add: sat_row_def set_row_def ubx_inv_def prn_defs word_le_nat_alt)
qed

text \<open>A base pointer is an offset of eight bits per octet.\<close>

lemma getbitu_drop: "getbitu (drop off r) pos len = getbitu r (8 * off + pos) len"
proof (rule bit_eqI)
  fix k :: nat
  have bb: "buf_bit (drop off r) i = buf_bit r (8 * off + i)" for i
    by (simp add: buf_bit_def)
  show "bit (getbitu (drop off r) pos len) k = bit (getbitu r (8 * off + pos) len) k"
    by (auto simp add: bit_getbitu bb add.assoc)
qed

lemma setbitu_loop_drop:
  "off \<le> length r \<Longrightarrow> take off r @ setbitu_loop (drop off r) i n m d = setbitu_loop r (8 * off + i) n m d"
proof (induction n arbitrary: r i m)
  case (Suc n)
  have ix: "(8 * off + i) div 8 = off + i div 8" "(8 * off + i) mod 8 = i mod 8" by simp_all
  let ?new = "if d AND m \<noteq> 0 then byte_at r (off + i div 8) OR push_bit (7 - i mod 8) 1
       else byte_at r (off + i div 8) AND NOT (push_bit (7 - i mod 8) 1)"
  have r: "take off r = take off (r[off + i div 8 := ?new])"
    "(drop off r)[i div 8 := ?new] = drop off (r[off + i div 8 := ?new])"
    using Suc.prems by (simp_all add: drop_update_swap)
  show ?case
    unfolding setbitu_loop.simps Let_def ix byte_at_drop r
    using Suc.IH [of "r[off + i div 8 := ?new]" "i + 1"] Suc.prems by (simp add: add.assoc)
qed simp

lemma setbitu_at_eq: "off \<le> length r \<Longrightarrow> setbitu_at r off pos len d = setbitu r (8 * off + pos) len d"
  by (simp add: setbitu_at_def setbitu_def setbitu_loop_drop)

definition word_fields :: "nat \<Rightarrow> nat \<Rightarrow> u32 list \<Rightarrow> field list" where
  "word_fields off w ws = map (\<lambda>i. (8 * off + w * i, w, ws ! i)) [0..<10]"

lemma store_words_fields:
  "off \<le> length r \<Longrightarrow> store_words r off w ws = bits.set_all r (word_fields off w ws)"
proof -
  have "off \<le> length r \<Longrightarrow> foldl (\<lambda>r i. setbitu_at r off (w * i) w (ws ! i)) r is
      = foldl (\<lambda>b (p, l, d). setbitu b p l d) r (map (\<lambda>i. (8 * off + w * i, w, ws ! i)) is)" for "is"
    by (induction "is" arbitrary: r) (simp_all add: setbitu_at_eq)
  then show "off \<le> length r \<Longrightarrow> ?thesis"
    by (simp add: store_words_def bits.set_all_def word_fields_def)
qed

lemma word_fields_ok:
  assumes "0 < w" and "w \<le> 32" and "8 * off + 10 * w \<le> cap"
  shows "\<forall>f \<in> set (word_fields off w ws). field_ok cap f"
    and "sorted_wrt field_disjoint (word_fields off w ws)"
proof -
  have le: "w * i + w \<le> 10 * w" if "i < 10" for i :: nat
    using that by (metis Suc_leI add.commute mult.commute mult_Suc mult_le_mono2)
  show "\<forall>f \<in> set (word_fields off w ws). field_ok cap f"
  proof
    fix f assume "f \<in> set (word_fields off w ws)"
    then obtain i where i: "i < 10" and f: "f = (8 * off + w * i, w, ws ! i)" by (auto simp add: word_fields_def)
    show "field_ok cap f"
      unfolding field_ok_def f prod.case using le [OF i] assms by (intro conjI) linarith+
  qed
  have "w * i + w \<le> w * j" if "i < j" for i j :: nat
    using that by (metis Suc_leI add.commute mult_Suc_right mult_le_mono2)
  then show "sorted_wrt field_disjoint (word_fields off w ws)"
    by (auto simp add: word_fields_def sorted_wrt_map field_disjoint_def
        intro!: sorted_wrt_mono_rel [OF _ sorted_wrt_upt])
qed

lemma store_words_read:
  assumes "8 * off + 10 * w \<le> 8 * length r" and "0 < w" and "w \<le> 32" and "i < 10"
  shows "getbitu (store_words r off w ws) (8 * off + w * i) w = take_bit w (ws ! i)"
proof -
  have "(8 * off + w * i, w, ws ! i) \<in> set (word_fields off w ws)"
    using assms(4) by (auto simp add: word_fields_def)
  then show ?thesis
    using bits.get_set_all word_fields_ok [OF assms(2,3,1)] assms(1) by (simp add: store_words_fields)
qed

lemma store_words_other:
  assumes "8 * off + 10 * w \<le> 8 * length r" and "0 < w" and "w \<le> 32"
    and "q + k \<le> 8 * off \<or> 8 * off + 10 * w \<le> q"
  shows "getbitu (store_words r off w ws) q k = getbitu r q k"
proof -
  have le: "w * i + w \<le> 10 * w" if "i < 10" for i :: nat
    using that by (metis Suc_leI add.commute mult.commute mult_Suc mult_le_mono2)
  have "\<forall>f \<in> set (word_fields off w ws). field_disjoint f (q, k, 0)"
  proof
    fix f assume "f \<in> set (word_fields off w ws)"
    then obtain i where i: "i < 10" and f: "f = (8 * off + w * i, w, ws ! i)" by (auto simp add: word_fields_def)
    show "field_disjoint f (q, k, 0)"
      unfolding field_disjoint_def f prod.case using le [OF i] assms(4) by linarith
  qed
  then show ?thesis
    using bits.get_set_all_other word_fields_ok(1) [OF assms(2,3,1)] assms(1)
    by (simp add: store_words_fields)
qed

end
