(* ===== verification/Nav_GPS.thy ===== *)
theory Nav_GPS
  imports Nav_Common
begin

text \<open>
  GPS LNAV: \<open>decode_GPS_subframe\<close> collects the five subframes of a satellite in its row (30 octets,
  ten words of 24 bits each) and \<open>decode_GPS_ephem\<close> decodes subframes 1 to 3.
\<close>

section \<open>Operations\<close>

definition GPS_WEEK_ROLLOVER_N :: u32 where "GPS_WEEK_ROLLOVER_N = 2"
definition PREAMB_CNAV :: u32 where "PREAMB_CNAV = 0x8B"

text \<open>The opening loop of \<open>decode_GPS_ephem\<close>: \<open>Some rc\<close> is its early return.\<close>

fun gps_check_loop :: "bytes \<Rightarrow> nat list \<Rightarrow> int option" where
  "gps_check_loop buf [] = None"
| "gps_check_loop buf (i # is) =
     (if getbitu (drop (30 * i) buf) 43 3 \<noteq> word_of_nat (i + 1) then Some (int i + 1)
      else if i \<noteq> 0 \<and> getbitu (drop (30 * i - 30) buf) 24 17 + 1 \<noteq> getbitu (drop (30 * i) buf) 24 17
      then Some (- 2)
      else gps_check_loop buf is)"

definition gps_check :: "bytes \<Rightarrow> int option" where
  "gps_check buf = gps_check_loop buf [0, 1, 2]"

text \<open>The fields of subframe 1, in the order of the code.\<close>

definition gps_subframe1 :: "bytes \<Rightarrow> ephem \<Rightarrow> ephem" where
  "gps_subframe1 b e =
     (let tow = scale (uint (getbitu b 24 17)) (f64_int 6);
          wk = getbitu b 48 10;
          urai = ucast (getbitu b (48 + 10 + 2) 4) :: u8;
          e = e\<lparr>ura := ura_of_index urai, health := getbitu b 64 6\<rparr>;
          iodc0 = getbitu b 70 2;
          tgd = getbits b (70 + 2 + 88) 8;
          iodc1 = getbitu b 168 8;
          toc' = scale (uint (getbitu b 176 16)) (f64_int 16);
          e = e\<lparr>af2 := scale (getbits b 192 8) P2_55, af1 := scale (getbits b 200 16) P2_43,
                 af0 := scale (getbits b 216 22) P2_31,
                 tgd0 := (if tgd = - 128 then f0 else scale tgd P2_31),
                 iodc := push_bit 8 iodc0 + iodc1,
                 week := wk + 1024 * GPS_WEEK_ROLLOVER_N\<rparr>
      in e\<lparr>ttr := gpst2time (week e) tow, toc := gpst2time (week e) toc'\<rparr>)"

definition gps_subframe2 :: "bytes \<Rightarrow> ephem \<Rightarrow> ephem" where
  "gps_subframe2 b e =
     (let e = e\<lparr>iode := getbitu b 48 8, crs := scale (getbits b 56 16) P2_5,
                 delta_n := fmul (scale (getbits b 72 16) P2_43) SC2RAD,
                 m0 := fmul (scale (getbits b 88 32) P2_31) SC2RAD,
                 cuc := scale (getbits b 120 16) P2_29,
                 eph_e := scale (uint (getbitu b 136 32)) P2_33,
                 cus := scale (getbits b 168 16) P2_29\<rparr>;
          sqrtA = scale (uint (getbitu b 184 32)) P2_19
      in e\<lparr>toe_tow := scale (uint (getbitu b 216 16)) (f64_int 16), eph_a := fmul sqrtA sqrtA\<rparr>)"

definition gps_subframe3 :: "bytes \<Rightarrow> ephem \<Rightarrow> ephem" where
  "gps_subframe3 b e =
     e\<lparr>cic := scale (getbits b 48 16) P2_29,
       omg0 := fmul (scale (getbits b 64 32) P2_31) SC2RAD,
       cis := scale (getbits b 96 16) P2_29,
       i0 := fmul (scale (getbits b 112 32) P2_31) SC2RAD,
       eph_crc := scale (getbits b 144 16) P2_5,
       omg := fmul (scale (getbits b 160 32) P2_31) SC2RAD,
       omg_dot := fmul (scale (getbits b 192 24) P2_43) SC2RAD,
       i_dot := fmul (scale (getbits b 224 14) P2_43) SC2RAD\<rparr>"

text \<open>The issue of data of subframe 3, compared with those of subframes 1 and 2.\<close>

definition gps_iode3 :: "bytes \<Rightarrow> u32" where
  "gps_iode3 b = getbitu b 216 8"

text \<open>The end of the routine: the week handover.\<close>

definition gps_handover :: "ephem \<Rightarrow> ephem" where
  "gps_handover e =
     (let (w, tow) = time2gpst (ttr e);
          e = e\<lparr>week := w\<rparr>;
          toc' = snd (time2gpst (toc e));
          (e, tow) = (if flt (toe_tow e) (fsub tow half_week) then (e\<lparr>week := week e + 1\<rparr>, fsub tow (f64_int 604800))
                      else if flt (fadd tow half_week) (toe_tow e) then (e\<lparr>week := week e - 1\<rparr>, fadd tow (f64_int 604800))
                      else (e, tow))
      in e\<lparr>toe := gpst2time (week e) (toe_tow e), toc := gpst2time (week e) toc',
            ttr := gpst2time (week e) tow\<rparr>)"

text \<open>Result: the return code, the ephemeris as the call leaves it, and the receiver time.\<close>

definition decode_GPS_ephem :: "bytes \<Rightarrow> gtime \<Rightarrow> ephem \<Rightarrow> int \<times> ephem \<times> gtime" where
  "decode_GPS_ephem buf now e =
     (case gps_check buf of
        Some rc \<Rightarrow> (rc, e, now)
      | None \<Rightarrow>
          (let e = gps_subframe3 (drop 60 buf) (gps_subframe2 (drop 30 buf) (gps_subframe1 buf e));
               iode3 = gps_iode3 (drop 60 buf)
           in if iode3 \<noteq> iode e \<or> iode3 \<noteq> iodc e AND 0xFF then (- 1, e, now)
              else let e = gps_handover e in (0, e, ttr e)))"

definition gps_words :: "bytes \<Rightarrow> u32 list" where
  "gps_words msg = map (\<lambda>i. drop_bit 6 (le32 msg (14 + 4 * i))) [0..<10]"

definition gps_subframe_id :: "bytes \<Rightarrow> u32" where
  "gps_subframe_id msg = drop_bit 2 (gps_words msg ! 1) AND 0x07"

definition decode_GPS_subframe :: "ubx_state \<Rightarrow> bytes \<Rightarrow> nat \<Rightarrow> ephem \<Rightarrow> int \<times> ubx_state \<times> ephem" where
  "decode_GPS_subframe st msg len e =
     (if len < 56 then (- 1, st, e)
      else if drop_bit 24 (le32 msg 14) = PREAMB_CNAV then (- 1, st, e)
      else
        let id = gps_subframe_id msg in
        if id < 1 \<or> id > 5 then (- 1, st, e)
        else
          let pos = unat ((id - 1) * 30);
              st = set_row st (eph_sat e) (store_words (sat_row st (eph_sat e)) pos 24 (gps_words msg))
          in if id = 3
             then (case decode_GPS_ephem (sat_row st (eph_sat e)) (curr_time st) e of
                     (rc, e', now) \<Rightarrow> (0, st\<lparr>curr_time := now\<rparr>, e'))
             else (0, st, e))"

section \<open>Collecting subframes\<close>

definition gps_accepted :: "bytes \<Rightarrow> nat \<Rightarrow> bool" where
  "gps_accepted msg len \<longleftrightarrow> 56 \<le> len \<and> drop_bit 24 (le32 msg 14) \<noteq> PREAMB_CNAV
     \<and> 1 \<le> gps_subframe_id msg \<and> gps_subframe_id msg \<le> 5"

definition gps_offset :: "bytes \<Rightarrow> nat" where
  "gps_offset msg = 30 * (unat (gps_subframe_id msg) - 1)"

lemma gps_offset_pos:
  assumes "gps_accepted msg len"
  shows "unat ((gps_subframe_id msg - 1) * 30) = gps_offset msg" and "gps_offset msg \<le> 120"
proof -
  have "unat (gps_subframe_id msg) \<in> {1, 2, 3, 4, 5}"
    using assms by (auto simp add: gps_accepted_def word_le_nat_alt)
  then have "gps_subframe_id msg \<in> word_of_nat ` {1, 2, 3, 4, 5}"
    by (rule rev_image_eqI) simp
  then show "unat ((gps_subframe_id msg - 1) * 30) = gps_offset msg" and "gps_offset msg \<le> 120"
    by (auto simp add: gps_offset_def)
qed

lemma decode_GPS_subframe_rejected:
  "\<not> gps_accepted msg len \<Longrightarrow> decode_GPS_subframe st msg len e = (- 1, st, e)"
  by (auto simp add: decode_GPS_subframe_def gps_accepted_def Let_def not_le word_less_nat_alt word_le_nat_alt)

text \<open>The state once an accepted subframe is stored, before any decoding.\<close>

definition gps_stored :: "ubx_state \<Rightarrow> bytes \<Rightarrow> u32 \<Rightarrow> ubx_state" where
  "gps_stored st msg sat =
     set_row st sat (store_words (sat_row st sat) (gps_offset msg) 24 (gps_words msg))"

lemma decode_GPS_subframe_accepted:
  assumes "gps_accepted msg len"
  shows "decode_GPS_subframe st msg len e =
     (let st1 = gps_stored st msg (eph_sat e) in
      if gps_subframe_id msg = 3
      then (case decode_GPS_ephem (sat_row st1 (eph_sat e)) (curr_time st1) e of
              (rc, e', now) \<Rightarrow> (0, st1\<lparr>curr_time := now\<rparr>, e'))
      else (0, st1, e))"
proof -
  have guards: "(len < 56) = False" "(drop_bit 24 (le32 msg 14) = PREAMB_CNAV) = False"
    "(gps_subframe_id msg < 1 \<or> gps_subframe_id msg > 5) = False"
    using assms by (auto simp add: gps_accepted_def not_less)
  show ?thesis
    unfolding decode_GPS_subframe_def guards if_False Let_def gps_offset_pos(1) [OF assms] gps_stored_def ..
qed

lemma decode_GPS_subframe_state:
  assumes "gps_accepted msg len"
  shows "\<exists>t. fst (snd (decode_GPS_subframe st msg len e)) = gps_stored st msg (eph_sat e)\<lparr>curr_time := t\<rparr>"
proof -
  have "\<exists>t. st = st\<lparr>curr_time := t\<rparr>" for st :: ubx_state
    by (rule exI [of _ "curr_time st"]) simp
  then show ?thesis
    by (auto simp add: decode_GPS_subframe_accepted [OF assms] Let_def split: prod.splits)
qed

lemma gps_stored_inv:
  assumes "ubx_inv st" and "sat \<noteq> 0" and "sat \<le> MAX_SAT"
  shows "ubx_inv (gps_stored st msg sat)"
    and "sat' \<noteq> 0 \<Longrightarrow> sat' \<noteq> sat \<Longrightarrow> sat_row (gps_stored st msg sat) sat' = sat_row st sat'"
    and "sat_row (gps_stored st msg sat) sat
      = store_words (sat_row st sat) (gps_offset msg) 24 (gps_words msg)"
  using assms by (simp_all add: gps_stored_def ubx_inv_row sat_row_set_row)

lemma sat_row_curr [simp]: "sat_row (st\<lparr>curr_time := t\<rparr>) sat = sat_row st sat"
  by (simp add: sat_row_def)

text \<open>
  A GPS subframe message that passes the length, CNAV and id checks puts its ten 24-bit
  words (parity removed) at its own place of its own satellite's row: each reads back, every bit of
  the row outside that place keeps its value, every other satellite's row is untouched, and the
  buffers keep their sizes.  A message that fails a check changes nothing at all.
\<close>

lemma gps_subframe_assembly:
  assumes "ubx_inv st" and "eph_sat e \<noteq> 0" and "eph_sat e \<le> MAX_SAT"
    and "decode_GPS_subframe st msg len e = (rc, st', e')"
  defines "row \<equiv> sat_row st (eph_sat e)" and "row' \<equiv> sat_row st' (eph_sat e)"
  shows "ubx_inv st'
    \<and> (gps_accepted msg len \<longrightarrow> rc = 0
        \<and> (\<forall>i < 10. getbitu (drop (gps_offset msg) row') (24 * i) 24 = take_bit 24 (gps_words msg ! i))
        \<and> (\<forall>q k. q + k \<le> 8 * gps_offset msg \<or> 8 * gps_offset msg + 240 \<le> q \<longrightarrow> getbitu row' q k = getbitu row q k)
        \<and> (\<forall>sat. sat \<noteq> 0 \<and> sat \<noteq> eph_sat e \<longrightarrow> sat_row st' sat = sat_row st sat))
    \<and> (\<not> gps_accepted msg len \<longrightarrow> rc = - 1 \<and> st' = st \<and> e' = e)"
proof (cases "gps_accepted msg len")
  case True
  note inv = gps_stored_inv [OF assms(1-3)]
  obtain t where st': "st' = gps_stored st msg (eph_sat e)\<lparr>curr_time := t\<rparr>"
    using decode_GPS_subframe_state [OF True, of st e] assms(4) by auto
  have rc: "rc = 0"
    using assms(4) by (auto simp add: decode_GPS_subframe_accepted [OF True] Let_def split: if_splits prod.splits)
  have row': "row' = store_words row (gps_offset msg) 24 (gps_words msg)"
    using inv(3) by (simp add: row'_def row_def st')
  have len: "8 * gps_offset msg + 10 * 24 \<le> 8 * length row"
    using gps_offset_pos(2) [OF True] ubx_inv_row [OF assms(1-3)] by (simp add: row_def row_len_def)
  show ?thesis
    using True inv(1,2) rc store_words_read [OF len] store_words_other [OF len]
    by (simp add: st' row' getbitu_drop)
next
  case False
  with assms(1,4) show ?thesis by (simp add: decode_GPS_subframe_rejected)
qed

section \<open>Decoding\<close>

definition gps_consistent :: "bytes \<Rightarrow> bool" where
  "gps_consistent buf \<longleftrightarrow> gps_check buf = None
     \<and> gps_iode3 (drop 60 buf) = getbitu (drop 30 buf) 48 8
     \<and> gps_iode3 (drop 60 buf) = (push_bit 8 (getbitu buf 70 2) + getbitu buf 168 8) AND 0xFF"

lemma gps_iode_iodc:
  "iode (gps_subframe3 b3 (gps_subframe2 b2 (gps_subframe1 b1 e))) = getbitu b2 48 8"
  "iodc (gps_subframe3 b3 (gps_subframe2 b2 (gps_subframe1 b1 e)))
    = push_bit 8 (getbitu b1 70 2) + getbitu b1 168 8"
  "ttr (gps_subframe3 b3 (gps_subframe2 b2 (gps_subframe1 b1 e))) = ttr (gps_subframe1 b1 e)"
  by (simp_all add: gps_subframe1_def gps_subframe2_def gps_subframe3_def Let_def)


section \<open>Week handover\<close>

definition gps_time :: "int \<Rightarrow> int \<Rightarrow> gtime" where
  "gps_time w t = \<lparr>gt_time = 315964800 + 604800 * w + t, gt_sec = f0\<rparr>"

lemma gps_time_next: "gps_time (w + 1) (t - 604800) = gps_time w t"
  and gps_time_prev: "gps_time (w - 1) (t + 604800) = gps_time w t"
  by (simp_all add: gps_time_def)

lemma gpst2time_gps_time:
  assumes "1 \<le> w" and "w \<le> 7000" and "\<bar>t\<bar> < 1209600" and "0 \<le> 604800 * w + t"
  shows "gpst2time (word_of_int w) (f64_int t) = gps_time w t"
proof -
  have "uint (word_of_int w :: u32) = w" by (rule uint_word_of_int_id) (use assms in simp_all)
  then show ?thesis using assms gpst2time_int [of t "word_of_int w"] by (simp add: gps_time_def)
qed

lemma time2gpst_gps_time:
  "0 \<le> w \<Longrightarrow> w \<le> 7100 \<Longrightarrow> 0 \<le> t \<Longrightarrow> t < 604800 \<Longrightarrow> time2gpst (gps_time w t) = (word_of_int w, f64_int t)"
  by (simp add: gps_time_def time2gpst_int)

definition gps_handover_week :: "int \<Rightarrow> int \<Rightarrow> int \<Rightarrow> int" where
  "gps_handover_week w t s = (if s < t - 302400 then w + 1 else if t + 302400 < s then w - 1 else w)"

text \<open>
  The week handover of the GPS decoder: given transmission time, clock and ephemeris
  reference times in whole seconds of a week, the transmission time is kept, the reference time of
  the ephemeris goes to the week in which it lies within half a week of the transmission time, and
  the clock reference time moves with it.
\<close>

lemma gps_handover_half_week:
  assumes "2 \<le> w" and "w \<le> 6000" and "0 \<le> t" and "t < 604800" and "0 \<le> c" and "c < 604800"
    and "0 \<le> s" and "s < 604800"
    and "ttr e = gps_time w t" and "toc e = gps_time w c" and "toe_tow e = f64_int s"
  shows "ttr (gps_handover e) = gps_time w t
    \<and> toe (gps_handover e) = gps_time (gps_handover_week w t s) s
    \<and> toc (gps_handover e) = gps_time (gps_handover_week w t s) c
    \<and> \<bar>gt_time (toe (gps_handover e)) - gt_time (ttr (gps_handover e))\<bar> \<le> 302400"
proof -
  have dec: "time2gpst (gps_time w t) = (word_of_int w, f64_int t)"
    "time2gpst (gps_time w c) = (word_of_int w, f64_int c)"
    using assms by (simp_all add: time2gpst_gps_time)
  have lo: "fsub (f64_int t) half_week = f64_int (t - 302400)" "fadd (f64_int t) half_week = f64_int (t + 302400)"
    "fsub (f64_int t) (f64_int 604800) = f64_int (t - 604800)" "fadd (f64_int t) (f64_int 604800) = f64_int (t + 604800)"
    using assms by (simp_all add: fadd_int fsub_int)
  have wk: "word_of_int w + 1 = (word_of_int (w + 1) :: u32)" "word_of_int w - 1 = (word_of_int (w - 1) :: u32)"
    by simp_all
  consider "s < t - 302400" | "t + 302400 < s" | "t - 302400 \<le> s" "s \<le> t + 302400" by linarith
  then have "ttr (gps_handover e) = gps_time w t
      \<and> toe (gps_handover e) = gps_time (gps_handover_week w t s) s
      \<and> toc (gps_handover e) = gps_time (gps_handover_week w t s) c"
  proof cases
    case 1
    then show ?thesis
      using assms gpst2time_gps_time [of "w + 1"] gps_time_next [of w t]
      by (simp add: gps_handover_def Let_def dec lo wk gps_handover_week_def del: of_int_add)
  next
    case 2
    then show ?thesis
      using assms gpst2time_gps_time [of "w - 1"] gps_time_prev [of w t]
      by (simp add: gps_handover_def Let_def dec lo wk gps_handover_week_def del: of_int_diff)
  next
    case 3
    then show ?thesis
      using assms gpst2time_gps_time [of w]
      by (simp add: gps_handover_def Let_def dec lo gps_handover_week_def)
  qed
  then show ?thesis
    using assms(3-8) by (auto simp add: gps_time_def gps_handover_week_def)
qed

section \<open>Examples\<close>

text \<open>A first subframe as the receiver forwards it, and the row of a satellite whose subframes 1 to 3
carry Z-counts 1 to 3 and zeros elsewhere.\<close>

definition gps_demo_msg :: bytes where
  "gps_demo_msg = replicate 19 0 @ [1] @ replicate 36 0"

definition gps_demo_row :: bytes where
  "gps_demo_row = [0, 0, 0, 0, 0, 0x84] @ replicate 24 0 @ [0, 0, 0, 0, 1, 0x08] @ replicate 24 0
     @ [0, 0, 0, 0, 1, 0x8C] @ replicate 314 0"

lemma gps_demo_msg_accepted: "gps_accepted gps_demo_msg 56"
  by code_simp

lemma gps_demo_row_consistent: "gps_consistent gps_demo_row"
  by code_simp

lemma gps_subframe_assembly_witness:
  "ubx_inv (fst (snd (decode_GPS_subframe ubx_init gps_demo_msg 56 (new_ephem 5))))
    \<and> fst (decode_GPS_subframe ubx_init gps_demo_msg 56 (new_ephem 5)) = 0"
  using gps_subframe_assembly [OF ubx_inv_init _ _ triple_eq, of "new_ephem 5" gps_demo_msg 56]
    gps_demo_msg_accepted
  by (simp add: new_ephem_def prn_defs)


lemma gps_handover_half_week_witness:
  "toe (gps_handover ((new_ephem 5)\<lparr>ttr := gps_time 2300 604000, toc := gps_time 2300 600000, toe_tow := f64_int 7200\<rparr>))
    = gps_time 2301 7200"
  using gps_handover_half_week [of 2300 604000 600000 7200
      "(new_ephem 5)\<lparr>ttr := gps_time 2300 604000, toc := gps_time 2300 600000, toe_tow := f64_int 7200\<rparr>"]
  by (simp add: gps_handover_week_def)

end
