(* ===== verification/Ubx_Signals.thy ===== *)
theory Ubx_Signals
  imports Gnss_Sat Gnss_Time
begin

text \<open>
  The signal tables of the message processor: u-blox constellation and signal identifiers to the
  project's systems, observation codes, frequency slots and carrier frequencies.
\<close>

section \<open>Codes and frequencies\<close>

definition CODE_NONE :: int where "CODE_NONE = 0"
definition CODE_L1C :: int where "CODE_L1C = 1"
definition CODE_L1B :: int where "CODE_L1B = 11"
definition CODE_L2C :: int where "CODE_L2C = 14"
definition CODE_L2L :: int where "CODE_L2L = 17"
definition CODE_L2M :: int where "CODE_L2M = 22"
definition CODE_L7I :: int where "CODE_L7I = 27"
definition CODE_L7Q :: int where "CODE_L7Q = 28"
definition CODE_L1I :: int where "CODE_L1I = 47"
definition N_FREQ :: int where "N_FREQ = 3"

lemmas code_defs = CODE_NONE_def CODE_L1C_def CODE_L1B_def CODE_L2C_def CODE_L2L_def CODE_L2M_def
  CODE_L7I_def CODE_L7Q_def CODE_L1I_def

definition LIGHT_SPEED :: f64 where "LIGHT_SPEED = f64_int 299792458"

text \<open>\<open>FREQ1\<close>, \<open>FREQ2\<close>, \<open>FREQ5\<close>, \<open>FREQ6\<close>, \<open>FREQ7\<close>, \<open>FREQ8\<close>, \<open>FREQ9\<close> in Hz.\<close>

definition carrier_freqs :: "f64 list" where
  "carrier_freqs = map f64_int
     [1575420000, 1227600000, 1176450000, 1278750000, 1207140000, 1191795000, 2492028000]"

definition lam_carr :: "f64 list" where
  "lam_carr = map (fdiv LIGHT_SPEED) carrier_freqs"

definition freq_glo :: "f64 list" where
  "freq_glo = map f64_int [1602000000, 1246000000, 1202025000] @ replicate 5 f0"

definition dfrq_glo :: "f64 list" where
  "dfrq_glo = map f64_int [562500, 437500] @ replicate 6 f0"

definition freq_bds :: "f64 list" where
  "freq_bds = map f64_int [1561098000, 1207140000, 1268520000, 1207140000] @ replicate 4 f0"

section \<open>Tables\<close>

definition ubx_sys :: "u8 \<Rightarrow> u32" where
  "ubx_sys gnssid =
     (if gnssid = 0 then SYS_GPS
      else if gnssid = 1 then SYS_SBS
      else if gnssid = 2 then SYS_GAL
      else if gnssid = 3 then SYS_BDS
      else if gnssid = 5 then SYS_QZS
      else if gnssid = 6 then SYS_GLO
      else SYS_NONE)"

definition ubx_sys_str :: "u8 \<Rightarrow> string" where
  "ubx_sys_str gnssid =
     (if gnssid = 0 then ''SYS_GPS''
      else if gnssid = 1 then ''SYS_SBS''
      else if gnssid = 2 then ''SYS_GAL''
      else if gnssid = 3 then ''SYS_BDS''
      else if gnssid = 5 then ''SYS_QZS''
      else if gnssid = 6 then ''SYS_GLO''
      else ''SYS_NONE'')"

definition ubx_sig :: "u32 \<Rightarrow> u8 \<Rightarrow> int" where
  "ubx_sig sys sigid =
     (if sys = SYS_GPS then
        (if sigid = 0 then CODE_L1C else if sigid = 3 then CODE_L2L
         else if sigid = 4 then CODE_L2M else CODE_NONE)
      else if sys = SYS_GLO then
        (if sigid = 0 then CODE_L1C else if sigid = 2 then CODE_L2C else CODE_NONE)
      else if sys = SYS_GAL then
        (if sigid = 0 then CODE_L1C else if sigid = 1 then CODE_L1B
         else if sigid = 5 then CODE_L7I else if sigid = 6 then CODE_L7Q else CODE_NONE)
      else if sys = SYS_QZS then
        (if sigid = 0 then CODE_L1C else if sigid = 5 then CODE_L2L else CODE_NONE)
      else if sys = SYS_BDS then
        (if sigid = 0 then CODE_L1I else if sigid = 1 then CODE_L1I
         else if sigid = 2 then CODE_L7I else if sigid = 3 then CODE_L7I else CODE_NONE)
      else if sys = SYS_SBS then CODE_L1C
      else CODE_NONE)"

definition sig_idx :: "u32 \<Rightarrow> int \<Rightarrow> int" where
  "sig_idx sys code =
     (if sys = SYS_GPS then
        (if code = CODE_L1C then 1 else if code = CODE_L2L then 2
         else if code = CODE_L2M then N_FREQ + 1 else 0)
      else if sys = SYS_GLO then
        (if code = CODE_L1C then 1 else if code = CODE_L2C then 2 else 0)
      else if sys = SYS_GAL then
        (if code = CODE_L1C then 1 else if code = CODE_L1B then N_FREQ + 1
         else if code = CODE_L7I then 2 else if code = CODE_L7Q then 2 else 0)
      else if sys = SYS_QZS then
        (if code = CODE_L1C then 1 else if code = CODE_L2L then 2 else 0)
      else if sys = SYS_BDS then
        (if code = CODE_L1I then 1 else if code = CODE_L7I then 2 else 0)
      else if sys = SYS_SBS then (if code = CODE_L1C then 1 else 0)
      else 0)"

definition sig_freq :: "u32 \<Rightarrow> int \<Rightarrow> int \<Rightarrow> f64" where
  "sig_freq sys sid fcn =
     (let i = nat (sid - 1) in
      if sys = SYS_GLO then fadd (freq_glo ! i) (fmul (dfrq_glo ! i) (f64_int fcn))
      else if sys = SYS_BDS then freq_bds ! i
      else fdiv LIGHT_SPEED (lam_carr ! i))"

section \<open>What the tables give\<close>

text \<open>Every signal that passes the slot check has slot 1 or 2, within all three frequency arrays.\<close>

lemma if_mem: "x \<in> S \<Longrightarrow> y \<in> S \<Longrightarrow> (if c then x else y) \<in> S"
  by simp

lemma sig_idx_values: "sig_idx sys code \<in> {0, 1, 2, 4}"
  unfolding sig_idx_def by (intro if_mem) (simp_all add: N_FREQ_def)

lemma sig_idx_range:
  "sig_idx sys code \<noteq> 0 \<Longrightarrow> sig_idx sys code \<le> N_FREQ \<Longrightarrow> sig_idx sys code = 1 \<or> sig_idx sys code = 2"
  using sig_idx_values [of sys code] by (auto simp add: N_FREQ_def)

lemma ubx_sig_range: "ubx_sig sys sigid \<in> {0..48}"
  unfolding ubx_sig_def by (intro if_mem) (simp_all add: code_defs)

text \<open>
  What the frequency of a slot should be: the carrier of the observation code itself (L1, L2, E5b,
  B1, B2, and the GLONASS carriers with their channel number).
\<close>

definition true_freq :: "u32 \<Rightarrow> int \<Rightarrow> int \<Rightarrow> f64" where
  "true_freq sys code fcn =
     (if sys = SYS_GLO then
        (if code = CODE_L1C then f64_int (1602000000 + 562500 * fcn) else f64_int (1246000000 + 437500 * fcn))
      else if sys = SYS_BDS then (if code = CODE_L1I then f64_int 1561098000 else f64_int 1207140000)
      else if code = CODE_L7I \<or> code = CODE_L7Q then f64_int 1207140000
      else if code = CODE_L2L then f64_int 1227600000
      else f64_int 1575420000)"

lemma lam_carr_inverse:
  "fdiv LIGHT_SPEED (lam_carr ! 0) = f64_int 1575420000"
  "fdiv LIGHT_SPEED (lam_carr ! Suc 0) = f64_int 1227600000"
  by code_simp+

text \<open>The signals that pass the slot check, per system with satellite numbers.\<close>

definition accepted_signals :: "(u32 \<times> int \<times> int) list" where
  "accepted_signals =
     [(SYS_GPS, CODE_L1C, 1), (SYS_GPS, CODE_L2L, 2), (SYS_GLO, CODE_L1C, 1), (SYS_GLO, CODE_L2C, 2),
      (SYS_GAL, CODE_L1C, 1), (SYS_GAL, CODE_L7I, 2), (SYS_GAL, CODE_L7Q, 2),
      (SYS_BDS, CODE_L1I, 1), (SYS_BDS, CODE_L7I, 2)]"

lemma accepted_signal:
  assumes "sys \<in> {SYS_GPS, SYS_GLO, SYS_GAL, SYS_BDS}" and "sig_idx sys (ubx_sig sys s) \<noteq> 0"
    and "sig_idx sys (ubx_sig sys s) \<le> N_FREQ"
  shows "(sys, ubx_sig sys s, sig_idx sys (ubx_sig sys s)) \<in> set accepted_signals"
proof -
  consider "sys = SYS_GPS" | "sys = SYS_GLO" | "sys = SYS_GAL" | "sys = SYS_BDS" using assms(1) by auto
  then show ?thesis
  proof cases
    case 1
    with assms(2,3) show ?thesis
      by (cases "s = 0"; cases "s = 3"; cases "s = 4")
        (simp_all add: accepted_signals_def ubx_sig_def sig_idx_def sys_defs code_defs N_FREQ_def)
  next
    case 2
    with assms(2,3) show ?thesis
      by (cases "s = 0"; cases "s = 2")
        (simp_all add: accepted_signals_def ubx_sig_def sig_idx_def sys_defs code_defs N_FREQ_def)
  next
    case 3
    with assms(2,3) show ?thesis
      by (cases "s = 0"; cases "s = 1"; cases "s = 5"; cases "s = 6")
        (simp_all add: accepted_signals_def ubx_sig_def sig_idx_def sys_defs code_defs N_FREQ_def)
  next
    case 4
    with assms(2,3) show ?thesis
      by (cases "s = 0"; cases "s = 1"; cases "s = 2"; cases "s = 3")
        (simp_all add: accepted_signals_def ubx_sig_def sig_idx_def sys_defs code_defs N_FREQ_def)
  qed
qed

lemma sat_no_sys: "sat_no sys prn \<noteq> 0 \<Longrightarrow> sys \<in> {SYS_GPS, SYS_GLO, SYS_GAL, SYS_BDS}"
  by (auto simp add: sat_no_def split: if_splits)

lemma glo_freq:
  assumes "0 \<le> fcn + 7" and "fcn \<le> 248"
  shows "fadd (freq_glo ! 0) (fmul (dfrq_glo ! 0) (f64_int fcn)) = f64_int (1602000000 + 562500 * fcn)"
    and "fadd (freq_glo ! 1) (fmul (dfrq_glo ! 1) (f64_int fcn)) = f64_int (1246000000 + 437500 * fcn)"
  using assms by (simp_all add: freq_glo_def dfrq_glo_def fmul_int fadd_int)

text \<open>
  The frequency published with an accepted observation is the carrier frequency of its
  observation code, for every system, signal and GLONASS channel number, except for the Galileo E5b
  signals: their slot 2 reads the L2 entry of the wavelength table, 1227.60 MHz instead of
  1207.14 MHz.
\<close>

lemma sig_freq_carrier:
  assumes "sat_no sys prn \<noteq> 0" and "- 7 \<le> fcn" and "fcn \<le> 248"
    and "code = ubx_sig sys s" and "sid = sig_idx sys code" and "sid \<noteq> 0" and "sid \<le> N_FREQ"
  shows "sig_freq sys sid fcn =
    (if sys = SYS_GAL \<and> (code = CODE_L7I \<or> code = CODE_L7Q) then f64_int 1227600000 else true_freq sys code fcn)"
proof -
  have "(sys, code, sid) \<in> set accepted_signals"
    using accepted_signal [OF sat_no_sys [OF assms(1)], of s] assms(4-7) by simp
  then show ?thesis
    using assms(2,3) glo_freq [of fcn]
    unfolding accepted_signals_def
    by (auto simp add: sig_freq_def true_freq_def lam_carr_inverse sys_defs code_defs freq_bds_def)
qed

lemma sig_freq_carrier_witness:
  "sig_freq SYS_GLO (sig_idx SYS_GLO (ubx_sig SYS_GLO 2)) (- 4) = f64_int 1244250000
    \<and> sig_freq SYS_GAL (sig_idx SYS_GAL (ubx_sig SYS_GAL 5)) 0 = f64_int 1227600000"
proof -
  have "sat_no SYS_GLO 3 \<noteq> 0" and "sat_no SYS_GAL 3 \<noteq> 0" by code_simp+
  then show ?thesis
    using sig_freq_carrier [of SYS_GLO 3 "- 4" _ 2] sig_freq_carrier [of SYS_GAL 3 0 _ 5]
    by (simp add: true_freq_def sig_idx_def ubx_sig_def sys_defs code_defs N_FREQ_def)
qed

end
