(* ===== verification/Ubx_Meas.thy ===== *)
theory Ubx_Meas
  imports Ubx_Signals Nav_Common
begin

text \<open>
  \<open>parse_meas_msg\<close>: the observations of a UBX-RXM-RAWX message.  The model follows the loop over the
  32-octet blocks; its specification groups the accepted signals by satellite and compares each
  with the last one of its satellite and slot.
\<close>

section \<open>Blocks\<close>

definition CPSTD_VALID :: u8 where "CPSTD_VALID = 10"
definition LLI_SLIP :: u8 where "LLI_SLIP = 0x01"
definition LLI_HALFC :: u8 where "LLI_HALFC = 0x02"

text \<open>\<open>Obs\<close>: one satellite, one column per signal.\<close>

record obs =
  obs_time :: gtime
  obs_sat :: u32
  obs_freqs :: "f64 list"
  obs_cn0 :: "f64 list"
  obs_lli :: "u8 list"
  obs_code :: "u8 list"
  obs_psr :: "f64 list"
  obs_psr_std :: "f64 list"
  obs_cp :: "f64 list"
  obs_cp_std :: "f64 list"
  obs_dopp :: "f64 list"
  obs_dopp_std :: "f64 list"
  obs_status :: "u8 list"

record rawx =
  rx_psr :: f64
  rx_cp :: f64
  rx_dopp :: f64
  rx_gnss_id :: u8
  rx_svid :: u8
  rx_sig_id :: u8
  rx_freq_id :: u8
  rx_lock_time :: u16
  rx_cn0 :: u8
  rx_psr_std :: u8
  rx_cp_std :: u8
  rx_dopp_std :: u8
  rx_tck_sta :: u8

definition read_rawx :: "bytes \<Rightarrow> nat \<Rightarrow> rawx" where
  "read_rawx msg p =
     \<lparr>rx_psr = f64_at msg p, rx_cp = f64_at msg (p + 8), rx_dopp = f32_at msg (p + 16),
      rx_gnss_id = byte_at msg (p + 20), rx_svid = byte_at msg (p + 21),
      rx_sig_id = byte_at msg (p + 22), rx_freq_id = byte_at msg (p + 23),
      rx_lock_time = le16 msg (p + 24), rx_cn0 = byte_at msg (p + 26),
      rx_psr_std = byte_at msg (p + 27) AND 0x0F, rx_cp_std = byte_at msg (p + 28) AND 0x0F,
      rx_dopp_std = byte_at msg (p + 29) AND 0x0F, rx_tck_sta = byte_at msg (p + 30)\<rparr>"

text \<open>The pseudorange and the carrier phase with the invalid ones reset to 0.\<close>

definition meas_psr :: "rawx \<Rightarrow> f64" where
  "meas_psr m = (if rx_tck_sta m AND 0x01 = 0 then f0 else rx_psr m)"

definition meas_cp :: "rawx \<Rightarrow> f64" where
  "meas_cp m =
     (if rx_tck_sta m AND 0x02 = 0 \<or> feq (rx_cp m) (f64_dec (- 5) (- 1)) \<or> rx_cp_std m > CPSTD_VALID
      then f0 else rx_cp m)"

text \<open>The checks that skip a block; otherwise its system, satellite, code and slot.\<close>

definition meas_signal :: "rawx \<Rightarrow> (u32 \<times> u32 \<times> int \<times> int) option" where
  "meas_signal m =
     (let sys = ubx_sys (rx_gnss_id m) in
      if sys = 0 then None
      else let sat = sat_no sys (ucast (rx_svid m)) in
        if sat = 0 then None
        else let code = ubx_sig sys (rx_sig_id m); sid = sig_idx sys code in
          if sid = 0 \<or> sid > N_FREQ then None else Some (sys, sat, code, sid))"

section \<open>Cycle slips\<close>

definition prev_track :: "ubx_state \<Rightarrow> u8 \<times> u8 \<Rightarrow> (f64 \<times> u8) option" where
  "prev_track st k =
     (case (signal_track_lock_times st (fst k) (snd k), signal_track_state st (fst k) (snd k)) of
        (Some l, Some t) \<Rightarrow> Some (l, t) | _ \<Rightarrow> None)"

definition lock_time_s :: "rawx \<Rightarrow> f64" where
  "lock_time_s m = fmul (f64_int (uint (rx_lock_time m))) (f64_dec 1 (- 3))"

definition track_state :: "rawx \<Rightarrow> u8" where
  "track_state m = rx_tck_sta m AND 0x0F"

definition track_slip :: "(f64 \<times> u8) option \<Rightarrow> rawx \<Rightarrow> bool" where
  "track_slip prev m =
     (case prev of None \<Rightarrow> False | Some (prev_lock, prev_state) \<Rightarrow>
        rx_lock_time m = 0 \<or> flt (lock_time_s m) prev_lock
        \<or> (prev_state AND 0x02 \<noteq> 0) \<noteq> (track_state m AND 0x02 \<noteq> 0)
        \<or> (prev_state XOR track_state m) AND 0x08 \<noteq> 0)"

definition set_track :: "ubx_state \<Rightarrow> u8 \<times> u8 \<Rightarrow> f64 \<times> u8 \<Rightarrow> ubx_state" where
  "set_track st k v =
     st\<lparr>signal_track_lock_times := (signal_track_lock_times st)
          (fst k := (signal_track_lock_times st (fst k))(snd k \<mapsto> fst v)),
        signal_track_state := (signal_track_state st)
          (fst k := (signal_track_state st (fst k))(snd k \<mapsto> snd v))\<rparr>"

definition meas_lli :: "bool \<Rightarrow> rawx \<Rightarrow> u8" where
  "meas_lli slip m =
     (if slip then LLI_SLIP else 0) OR (if rx_tck_sta m AND 0x04 = 0 then LLI_HALFC else 0)"

section \<open>The loop\<close>

definition new_obs :: "gtime \<Rightarrow> u32 \<Rightarrow> obs" where
  "new_obs time sat =
     \<lparr>obs_time = time, obs_sat = sat, obs_freqs = [], obs_cn0 = [], obs_lli = [], obs_code = [],
      obs_psr = [], obs_psr_std = [], obs_cp = [], obs_cp_std = [], obs_dopp = [], obs_dopp_std = [],
      obs_status = []\<rparr>"

definition obs_push :: "obs \<Rightarrow> rawx \<Rightarrow> u32 \<times> int \<times> int \<Rightarrow> bool \<Rightarrow> obs" where
  "obs_push ob m s slip =
     (let (sys, code, sid) = s in
      ob\<lparr>obs_freqs := obs_freqs ob @ [sig_freq sys sid (uint (rx_freq_id m) - 7)],
         obs_cn0 := obs_cn0 ob @ [f64_int (uint (rx_cn0 m))],
         obs_lli := obs_lli ob @ [meas_lli slip m],
         obs_code := obs_code ob @ [word_of_int code],
         obs_psr := obs_psr ob @ [meas_psr m],
         obs_psr_std := obs_psr_std ob @ [fmul (f64_dec 1 (- 2)) (f64_int (2 ^ unat (rx_psr_std m)))],
         obs_cp := obs_cp ob @ [meas_cp m],
         obs_cp_std := obs_cp_std ob @ [fmul (f64_dec 4 (- 3)) (f64_int (uint (rx_cp_std m)))],
         obs_dopp := obs_dopp ob @ [rx_dopp m],
         obs_dopp_std := obs_dopp_std ob @ [fmul (f64_dec 2 (- 3)) (f64_int (2 ^ unat (rx_dopp_std m)))],
         obs_status := obs_status ob @ [rx_tck_sta m AND 0x0F]\<rparr>)"

text \<open>The variables of the loop: the tracking maps (in the state), \<open>obs_meas\<close> and \<open>sat2idx\<close>.\<close>

record meas_loop =
  ml_state :: ubx_state
  ml_obs :: "obs list"
  ml_idx :: "u32 \<Rightarrow> nat option"

definition meas_step :: "gtime \<Rightarrow> meas_loop \<Rightarrow> rawx \<Rightarrow> meas_loop" where
  "meas_step time l m =
     (case meas_signal m of None \<Rightarrow> l | Some (sys, sat, code, sid) \<Rightarrow>
        let k = (ucast sat, word_of_int sid);
            slip = track_slip (prev_track (ml_state l) k) m;
            l = l\<lparr>ml_state := set_track (ml_state l) k (lock_time_s m, track_state m)\<rparr>;
            l = (if ml_idx l sat = None
                 then l\<lparr>ml_obs := ml_obs l @ [new_obs time sat],
                        ml_idx := (ml_idx l)(sat \<mapsto> length (ml_obs l))\<rparr>
                 else l);
            i = the (ml_idx l sat)
        in l\<lparr>ml_obs := (ml_obs l)[i := obs_push (ml_obs l ! i) m (sys, code, sid) slip]\<rparr>)"

definition meas_blocks :: "bytes \<Rightarrow> rawx list" where
  "meas_blocks msg = map (\<lambda>i. read_rawx msg (22 + 32 * i)) [0..<unat (byte_at msg 17)]"

definition meas_time :: "bytes \<Rightarrow> gtime" where
  "meas_time msg = gpst2time (ucast (le16 msg 14)) (f64_at msg 6)"

definition parse_meas_msg :: "ubx_state \<Rightarrow> bytes \<Rightarrow> nat \<Rightarrow> obs list \<times> ubx_state" where
  "parse_meas_msg st msg len =
     (if len \<le> 24 then ([], st)
      else if len < 24 + 32 * unat (byte_at msg 17) then ([], st)
      else if le16 msg 14 = 0 then ([], st)
      else
        let time = meas_time msg;
            l = foldl (meas_step time) \<lparr>ml_state = st, ml_obs = [], ml_idx = (\<lambda>_. None)\<rparr> (meas_blocks msg)
        in (ml_obs l, if ml_obs l \<noteq> [] then (ml_state l)\<lparr>curr_time := time\<rparr> else ml_state l))"

section \<open>Specification\<close>

text \<open>
  The accepted signals of a message in their order; each is marked with whether it slipped, that is,
  compared with the last earlier signal of its satellite and slot (in this message, else in the
  messages before).  The observations are the signals grouped by satellite.
\<close>

record signal =
  sg_raw :: rawx
  sg_sys :: u32
  sg_sat :: u32
  sg_code :: int
  sg_sid :: int

definition signal_of :: "rawx \<Rightarrow> signal option" where
  "signal_of m =
     map_option (\<lambda>(sys, sat, code, sid).
       \<lparr>sg_raw = m, sg_sys = sys, sg_sat = sat, sg_code = code, sg_sid = sid\<rparr>) (meas_signal m)"

definition accepted :: "rawx list \<Rightarrow> signal list" where
  "accepted ms = List.map_filter signal_of ms"

abbreviation sg_key :: "signal \<Rightarrow> u8 \<times> u8" where
  "sg_key s \<equiv> (ucast (sg_sat s), word_of_int (sg_sid s))"

definition last_track ::
  "(u8 \<times> u8 \<Rightarrow> (f64 \<times> u8) option) \<Rightarrow> signal list \<Rightarrow> u8 \<times> u8 \<Rightarrow> (f64 \<times> u8) option" where
  "last_track tr ss k =
     (case filter (\<lambda>s. sg_key s = k) (rev ss) of
        [] \<Rightarrow> tr k | s # _ \<Rightarrow> Some (lock_time_s (sg_raw s), track_state (sg_raw s)))"

definition slips :: "(u8 \<times> u8 \<Rightarrow> (f64 \<times> u8) option) \<Rightarrow> signal list \<Rightarrow> bool list" where
  "slips tr ss =
     map (\<lambda>i. track_slip (last_track tr (take i ss) (sg_key (ss ! i))) (sg_raw (ss ! i))) [0..<length ss]"

definition obs_of :: "gtime \<Rightarrow> (signal \<times> bool) list \<Rightarrow> u32 \<Rightarrow> obs" where
  "obs_of time es sat =
     (let es = filter (\<lambda>(s, _). sg_sat s = sat) es in
      \<lparr>obs_time = time, obs_sat = sat,
       obs_freqs = map (\<lambda>(s, _). sig_freq (sg_sys s) (sg_sid s) (uint (rx_freq_id (sg_raw s)) - 7)) es,
       obs_cn0 = map (\<lambda>(s, _). f64_int (uint (rx_cn0 (sg_raw s)))) es,
       obs_lli = map (\<lambda>(s, slip). meas_lli slip (sg_raw s)) es,
       obs_code = map (\<lambda>(s, _). word_of_int (sg_code s)) es,
       obs_psr = map (\<lambda>(s, _). meas_psr (sg_raw s)) es,
       obs_psr_std = map (\<lambda>(s, _). fmul (f64_dec 1 (- 2)) (f64_int (2 ^ unat (rx_psr_std (sg_raw s))))) es,
       obs_cp = map (\<lambda>(s, _). meas_cp (sg_raw s)) es,
       obs_cp_std = map (\<lambda>(s, _). fmul (f64_dec 4 (- 3)) (f64_int (uint (rx_cp_std (sg_raw s))))) es,
       obs_dopp = map (\<lambda>(s, _). rx_dopp (sg_raw s)) es,
       obs_dopp_std = map (\<lambda>(s, _). fmul (f64_dec 2 (- 3)) (f64_int (2 ^ unat (rx_dopp_std (sg_raw s))))) es,
       obs_status = map (\<lambda>(s, _). rx_tck_sta (sg_raw s) AND 0x0F) es\<rparr>)"

text \<open>Satellites in the order of their first signal.\<close>

definition firsts :: "'a list \<Rightarrow> 'a list" where
  "firsts xs = rev (remdups (rev xs))"

definition grouped :: "gtime \<Rightarrow> (signal \<times> bool) list \<Rightarrow> obs list" where
  "grouped time es = map (obs_of time es) (firsts (map (sg_sat \<circ> fst) es))"

section \<open>The loop meets the specification\<close>

lemma set_firsts [simp]: "set (firsts xs) = set xs"
  and distinct_firsts [simp]: "distinct (firsts xs)"
  and firsts_Nil [simp]: "firsts [] = []"
  by (simp_all add: firsts_def)

lemma firsts_snoc: "firsts (xs @ [x]) = (if x \<in> set xs then firsts xs else firsts xs @ [x])"
  by (simp add: firsts_def)

lemma slips_snoc:
  "slips tr (ss @ [s]) = slips tr ss @ [track_slip (last_track tr ss (sg_key s)) (sg_raw s)]"
  by (simp add: slips_def nth_append)

lemma length_slips [simp]: "length (slips tr ss) = length ss"
  by (simp add: slips_def)

lemma obs_of_other: "sg_sat s \<noteq> sat \<Longrightarrow> obs_of time (es @ [(s, b)]) sat = obs_of time es sat"
  by (simp add: obs_of_def)

lemma obs_of_push:
  "obs_of time (es @ [(s, b)]) (sg_sat s)
     = obs_push (obs_of time es (sg_sat s)) (sg_raw s) (sg_sys s, sg_code s, sg_sid s) b"
  by (simp add: obs_of_def obs_push_def Let_def)

lemma obs_of_fresh: "sat \<notin> set (map (sg_sat \<circ> fst) es) \<Longrightarrow> obs_of time es sat = new_obs time sat"
proof -
  assume "sat \<notin> set (map (sg_sat \<circ> fst) es)"
  then have "filter (\<lambda>(s, _). sg_sat s = sat) es = []" by (force simp add: filter_empty_conv)
  then show ?thesis by (simp add: obs_of_def new_obs_def)
qed

lemma prev_track_set:
  "prev_track (set_track st k v) k' = (if k' = k then Some v else prev_track st k')"
  by (cases k; cases k'; cases v) (auto simp add: prev_track_def set_track_def split: option.splits)

lemma last_track_snoc:
  "last_track tr (ss @ [s]) k
     = (if sg_key s = k then Some (lock_time_s (sg_raw s), track_state (sg_raw s)) else last_track tr ss k)"
  by (simp add: last_track_def)

text \<open>What the loop has computed after the accepted signals \<open>ss\<close>.\<close>

definition loop_inv :: "gtime \<Rightarrow> ubx_state \<Rightarrow> signal list \<Rightarrow> meas_loop \<Rightarrow> bool" where
  "loop_inv time st ss l \<longleftrightarrow>
     (let sats = firsts (map sg_sat ss) in
      prev_track (ml_state l) = last_track (prev_track st) ss
      \<and> ml_obs l = grouped time (zip ss (slips (prev_track st) ss))
      \<and> (\<forall>sat i. ml_idx l sat = Some i \<longleftrightarrow> i < length sats \<and> sats ! i = sat)
      \<and> (\<exists>a b. ml_state l = st\<lparr>signal_track_lock_times := a, signal_track_state := b\<rparr>))"

lemma loop_inv_Nil: "loop_inv time st [] \<lparr>ml_state = st, ml_obs = [], ml_idx = (\<lambda>_. None)\<rparr>"
  by (auto simp add: loop_inv_def grouped_def last_track_def fun_eq_iff 
      intro!: exI [of _ "signal_track_lock_times st"] exI [of _ "signal_track_state st"])

lemma map_sat_zip [simp]: "map (sg_sat \<circ> fst) (zip ss (slips tr ss)) = map sg_sat ss"
  by (simp flip: map_map)

lemma grouped_seen:
  assumes "i < length (firsts (map (sg_sat \<circ> fst) es))" and "firsts (map (sg_sat \<circ> fst) es) ! i = sg_sat s"
  shows "grouped time (es @ [(s, b)]) =
    (grouped time es)[i := obs_push (grouped time es ! i) (sg_raw s) (sg_sys s, sg_code s, sg_sid s) b]"
proof (rule nth_equalityI)
  let ?f = "firsts (map (sg_sat \<circ> fst) es)"
  have mem: "sg_sat s \<in> set (map (sg_sat \<circ> fst) es)"
    using assms nth_mem [OF assms(1)] by simp
  then have f: "firsts (map (sg_sat \<circ> fst) (es @ [(s, b)])) = ?f"
    by (simp only: map_append list.map firsts_snoc comp_apply fst_conv if_True)
  then show "length (grouped time (es @ [(s, b)])) =
      length ((grouped time es)[i := obs_push (grouped time es ! i) (sg_raw s) (sg_sys s, sg_code s, sg_sid s) b])"
    by (simp add: grouped_def)
  fix j assume "j < length (grouped time (es @ [(s, b)]))"
  with f have j: "j < length ?f" by (simp add: grouped_def)
  show "grouped time (es @ [(s, b)]) ! j =
      (grouped time es)[i := obs_push (grouped time es ! i) (sg_raw s) (sg_sys s, sg_code s, sg_sid s) b] ! j"
  proof (cases "j = i")
    case True
    then show ?thesis using j f assms by (simp add: grouped_def obs_of_push)
  next
    case False
    then have "?f ! j \<noteq> sg_sat s" using j assms distinct_firsts [of "map (sg_sat \<circ> fst) es"]
      by (metis nth_eq_iff_index_eq)
    then show ?thesis using j f False by (simp add: grouped_def obs_of_other)
  qed
qed

lemma grouped_new:
  assumes "sg_sat s \<notin> set (map (sg_sat \<circ> fst) es)"
  shows "grouped time (es @ [(s, b)]) =
    grouped time es @ [obs_push (new_obs time (sg_sat s)) (sg_raw s) (sg_sys s, sg_code s, sg_sid s) b]"
proof -
  have f: "firsts (map (sg_sat \<circ> fst) (es @ [(s, b)])) = firsts (map (sg_sat \<circ> fst) es) @ [sg_sat s]"
    using assms by (simp only: map_append list.map firsts_snoc comp_apply fst_conv if_False)
  have "obs_of time (es @ [(s, b)]) sat = obs_of time es sat" if "sat \<in> set (firsts (map (sg_sat \<circ> fst) es))" for sat
  proof -
    have "sg_sat s \<noteq> sat" using that assms by auto
    then show ?thesis by (rule obs_of_other)
  qed
  then show ?thesis
    using f by (simp add: grouped_def obs_of_push obs_of_fresh [OF assms])
qed

lemma signal_of_fields: "signal_of m = Some s \<Longrightarrow> sg_raw s = m \<and> meas_signal m = Some (sg_sys s, sg_sat s, sg_code s, sg_sid s)"
  by (auto simp add: signal_of_def)

lemma signal_of_None: "signal_of m = None \<longleftrightarrow> meas_signal m = None"
  by (simp add: signal_of_def)

lemma set_track_frame:
  "\<exists>a b. set_track (st\<lparr>signal_track_lock_times := a0, signal_track_state := b0\<rparr>) k v
     = st\<lparr>signal_track_lock_times := a, signal_track_state := b\<rparr>"
  by (auto simp add: set_track_def)

lemma meas_step_skip: "signal_of m = None \<Longrightarrow> meas_step time l m = l"
  by (simp add: meas_step_def signal_of_None)

lemma meas_step_accept:
  assumes "loop_inv time st ss l" and "signal_of m = Some s"
  shows "loop_inv time st (ss @ [s]) (meas_step time l m)"
proof -
  note inv = assms(1) [unfolded loop_inv_def Let_def]
  note sig = signal_of_fields [OF assms(2)]
  define slip where "slip = track_slip (prev_track (ml_state l) (sg_key s)) m"
  define es where "es = zip ss (slips (prev_track st) ss)"
  define st1 where "st1 = set_track (ml_state l) (sg_key s) (lock_time_s m, track_state m)"
  let ?sats = "firsts (map sg_sat ss)"
  have es: "zip (ss @ [s]) (slips (prev_track st) (ss @ [s])) = es @ [(s, slip)]"
    using inv sig by (simp add: slips_snoc slip_def es_def)
  have sats: "map (sg_sat \<circ> fst) es = map sg_sat ss" by (simp add: es_def)
  have idx: "ml_idx l sat = Some i \<longleftrightarrow> i < length ?sats \<and> ?sats ! i = sat" for sat i using inv by blast
  have obs: "ml_obs l = grouped time es" and len: "length (grouped time es) = length ?sats"
    using inv by (simp_all add: es_def grouped_def)
  have track: "prev_track st1 = last_track (prev_track st) (ss @ [s])"
    using inv sig by (auto simp add: st1_def prev_track_set last_track_snoc fun_eq_iff)
  have frame: "\<exists>a b. st1 = st\<lparr>signal_track_lock_times := a, signal_track_state := b\<rparr>"
  proof -
    obtain a0 b0 where "ml_state l = st\<lparr>signal_track_lock_times := a0, signal_track_state := b0\<rparr>" using inv by blast
    then show ?thesis unfolding st1_def by (simp only: set_track_frame)
  qed
  show ?thesis
  proof (cases "sg_sat s \<in> set (map sg_sat ss)")
    case True
    then obtain i where i: "i < length ?sats" "?sats ! i = sg_sat s"
      by (metis in_set_conv_nth set_firsts)
    with idx have "ml_idx l (sg_sat s) = Some i" by blast
    then have step: "meas_step time l m = l\<lparr>ml_state := st1,
        ml_obs := (ml_obs l)[i := obs_push (ml_obs l ! i) m (sg_sys s, sg_code s, sg_sid s) slip]\<rparr>"
      using sig by (simp add: meas_step_def Let_def slip_def st1_def)
    have "grouped time (es @ [(s, slip)])
        = (grouped time es)[i := obs_push (grouped time es ! i) m (sg_sys s, sg_code s, sg_sid s) slip]"
      using grouped_seen [of i es s time slip] i sig unfolding sats by simp
    then show ?thesis
      using True track frame idx by (simp add: loop_inv_def Let_def step es obs firsts_snoc)
  next
    case False
    then have new: "ml_idx l (sg_sat s) = None"
      using idx by (metis nth_mem option.exhaust set_firsts)
    then have step: "meas_step time l m = l\<lparr>ml_state := st1,
        ml_obs := ml_obs l @ [obs_push (new_obs time (sg_sat s)) m (sg_sys s, sg_code s, sg_sid s) slip],
        ml_idx := (ml_idx l)(sg_sat s \<mapsto> length (ml_obs l))\<rparr>"
      using sig by (simp add: meas_step_def Let_def slip_def st1_def nth_append)
    have "grouped time (es @ [(s, slip)])
        = grouped time es @ [obs_push (new_obs time (sg_sat s)) m (sg_sys s, sg_code s, sg_sid s) slip]"
      using grouped_new [of s es time slip] False sig unfolding sats by simp
    moreover have "(((ml_idx l)(sg_sat s \<mapsto> length (ml_obs l))) sat = Some i)
        = (i < length (?sats @ [sg_sat s]) \<and> (?sats @ [sg_sat s]) ! i = sat)" for sat i
      using idx [of sat i] idx [of "sg_sat s" i] new False len obs
      by (auto simp add: nth_append less_Suc_eq)
    ultimately show ?thesis
      using False track frame by (simp add: loop_inv_def Let_def step es obs firsts_snoc)
  qed
qed

lemma meas_loop_inv:
  "loop_inv time st (ss @ accepted ms) (foldl (meas_step time) l ms)" if "loop_inv time st ss l"
  using that
proof (induction ms arbitrary: ss l)
  case Nil
  then show ?case by (simp add: accepted_def map_filter_simps)
next
  case (Cons m ms)
  show ?case
  proof (cases "signal_of m")
    case None
    with Cons show ?thesis by (simp add: accepted_def map_filter_simps meas_step_skip)
  next
    case (Some s)
    with Cons.IH [OF meas_step_accept [OF Cons.prems Some]] show ?thesis
      by (simp add: accepted_def map_filter_simps)
  qed
qed

text \<open>The gate of \<open>parse_meas_msg\<close> before the loop.\<close>

definition meas_accepted :: "bytes \<Rightarrow> nat \<Rightarrow> bool" where
  "meas_accepted msg len \<longleftrightarrow> 24 < len \<and> 24 + 32 * unat (byte_at msg 17) \<le> len \<and> le16 msg 14 \<noteq> 0"

lemma parse_meas_msg_spec:
  assumes "parse_meas_msg st msg len = (meas, st')"
  defines "ss \<equiv> (if meas_accepted msg len then accepted (meas_blocks msg) else [])"
  shows "meas = grouped (meas_time msg) (zip ss (slips (prev_track st) ss))
    \<and> prev_track st' = last_track (prev_track st) ss
    \<and> curr_time st' = (if ss = [] then curr_time st else meas_time msg)
    \<and> subfrm st' = subfrm st \<and> bds_d1_subfrm_flags st' = bds_d1_subfrm_flags st"
proof (cases "meas_accepted msg len")
  case False
  with assms show ?thesis
    by (auto simp add: parse_meas_msg_def meas_accepted_def grouped_def last_track_def fun_eq_iff split: if_splits)
next
  case True
  define l where "l = foldl (meas_step (meas_time msg)) \<lparr>ml_state = st, ml_obs = [], ml_idx = (\<lambda>_. None)\<rparr> (meas_blocks msg)"
  have ss: "ss = accepted (meas_blocks msg)" using True by (simp add: ss_def)
  have inv: "loop_inv (meas_time msg) st ss l"
    using meas_loop_inv [OF loop_inv_Nil, of "meas_time msg" st "meas_blocks msg"] by (simp add: ss l_def)
  then have obs: "ml_obs l = grouped (meas_time msg) (zip ss (slips (prev_track st) ss))"
    and track: "prev_track (ml_state l) = last_track (prev_track st) ss"
    and frame: "\<exists>a b. ml_state l = st\<lparr>signal_track_lock_times := a, signal_track_state := b\<rparr>"
    by (simp_all add: loop_inv_def Let_def)
  have "set (firsts (map sg_sat ss)) = {} \<longleftrightarrow> ss = []" by simp
  then have "ml_obs l = [] \<longleftrightarrow> ss = []" using obs by (simp add: grouped_def del: set_firsts)
  moreover have "meas = ml_obs l" and "st' = (if ml_obs l \<noteq> [] then (ml_state l)\<lparr>curr_time := meas_time msg\<rparr> else ml_state l)"
    using assms(1) True by (auto simp add: parse_meas_msg_def meas_accepted_def Let_def l_def)
  moreover have "prev_track (ml_state l\<lparr>curr_time := t\<rparr>) = prev_track (ml_state l)" for t
    by (simp add: prev_track_def fun_eq_iff)
  ultimately show ?thesis using obs track frame by auto
qed


section \<open>Well-formed observations\<close>

text \<open>A satellite of the numbering, at least one signal, all columns of one length.\<close>

definition obs_wf :: "obs \<Rightarrow> bool" where
  "obs_wf ob \<longleftrightarrow> 1 \<le> obs_sat ob \<and> obs_sat ob \<le> MAX_SAT \<and> obs_freqs ob \<noteq> []
     \<and> (\<forall>n \<in> {length (obs_cn0 ob), length (obs_lli ob), length (obs_code ob), length (obs_psr ob),
          length (obs_psr_std ob), length (obs_cp ob), length (obs_cp_std ob), length (obs_dopp ob),
          length (obs_dopp_std ob), length (obs_status ob)}. n = length (obs_freqs ob))
     \<and> (\<forall>c \<in> set (obs_code ob). c \<noteq> 0)"

lemma meas_signal_fields:
  assumes "meas_signal m = Some (sys, sat, code, sid)"
  shows "sat = sat_no sys (ucast (rx_svid m)) \<and> sat \<noteq> 0
    \<and> code = ubx_sig sys (rx_sig_id m) \<and> sid = sig_idx sys code \<and> sid \<noteq> 0 \<and> sid \<le> N_FREQ"
  using assms unfolding meas_signal_def Let_def
  apply (simp only: split: if_split_asm)
  apply (simp_all only: option.inject prod.inject option.distinct not_less)
  apply (elim conjE)
  apply simp
  done

lemma meas_signal_range:
  assumes "meas_signal m = Some (sys, sat, code, sid)"
  shows "1 \<le> sat" "sat \<le> MAX_SAT" "(sys, code, sid) \<in> set accepted_signals"
proof -
  note f = meas_signal_fields [OF assms]
  have "sat \<noteq> 0" using f by blast
  then show "1 \<le> sat" by (simp add: word_le_nat_alt unat_gt_0 Suc_leI)
  show "sat \<le> MAX_SAT" using sat_no_le [of sys "ucast (rx_svid m)"] f by simp
  show "(sys, code, sid) \<in> set accepted_signals"
    using accepted_signal [OF sat_no_sys, of sys "ucast (rx_svid m)" "rx_sig_id m"] f by clarsimp
qed

lemma accepted_Cons: "accepted (m # ms) = (case signal_of m of None \<Rightarrow> accepted ms | Some s \<Rightarrow> s # accepted ms)"
  by (simp add: accepted_def map_filter_simps split: option.split)

lemma length_accepted: "length (accepted ms) \<le> length ms"
proof (induction ms)
  case Nil
  then show ?case by (simp add: accepted_def map_filter_simps)
next
  case (Cons m ms)
  then show ?case by (simp add: accepted_Cons split: option.split)
qed

lemma accepted_sound: "s \<in> set (accepted ms) \<Longrightarrow> signal_of (sg_raw s) = Some s"
proof (induction ms)
  case Nil
  then show ?case by (simp add: accepted_def map_filter_simps)
next
  case (Cons m ms)
  show ?case
  proof (cases "signal_of m = Some s")
    case True
    then show ?thesis using signal_of_fields by simp
  next
    case False
    then have "s \<in> set (accepted ms)"
      using Cons.prems by (simp add: accepted_Cons split: option.splits)
    then show ?thesis by (rule Cons.IH)
  qed
qed

lemma sum_groups:
  "distinct ks \<Longrightarrow> sum_list (map (\<lambda>k. length (filter (\<lambda>x. f x = k) xs)) ks) = length (filter (\<lambda>x. f x \<in> set ks) xs)"
proof (induction ks)
  case Nil
  then show ?case by simp
next
  case (Cons k ks)
  have "length (filter (\<lambda>x. f x \<in> set (k # ks)) xs)
      = length (filter (\<lambda>x. f x = k) xs) + length (filter (\<lambda>x. f x \<in> set ks) xs)"
    using Cons.prems by (induction xs) auto
  then show ?case using Cons by simp
qed

lemma slips_zip_sound: "(s, b) \<in> set (zip (accepted ms) bs) \<Longrightarrow> signal_of (sg_raw s) = Some s"
  by (rule accepted_sound) (erule set_zip_leftD)

lemma accepted_signals_code: "(sys, code, sid) \<in> set accepted_signals \<Longrightarrow> (word_of_int code :: u8) \<noteq> 0"
  by (auto simp add: accepted_signals_def code_defs)

lemma obs_of_wf:
  assumes "\<And>s b. (s, b) \<in> set es \<Longrightarrow> signal_of (sg_raw s) = Some s" and "sat \<in> set (map (sg_sat \<circ> fst) es)"
  shows "obs_wf (obs_of time es sat)"
proof -
  obtain s b where s: "(s, b) \<in> set es" "sg_sat s = sat" using assms(2) by auto
  note range = meas_signal_range [OF conjunct2 [OF signal_of_fields [OF assms(1)]]]
  have "filter (\<lambda>(s, _). sg_sat s = sat) es \<noteq> []"
    using s by (auto simp add: filter_empty_conv)
  moreover have "(word_of_int (sg_code t) :: u8) \<noteq> 0" if "(t, c) \<in> set es" for t c
    by (rule accepted_signals_code [OF range(3) [OF that]])
  ultimately show ?thesis
    using range(1,2) [OF s(1)] s(2) by (auto simp add: obs_wf_def obs_of_def Let_def)
qed

text \<open>The signals behind the observations of a message.\<close>

definition meas_entries :: "ubx_state \<Rightarrow> bytes \<Rightarrow> nat \<Rightarrow> (signal \<times> bool) list" where
  "meas_entries st msg len =
     (let ss = (if meas_accepted msg len then accepted (meas_blocks msg) else [])
      in zip ss (slips (prev_track st) ss))"

lemma parse_meas_msg_grouped: "fst (parse_meas_msg st msg len) = grouped (meas_time msg) (meas_entries st msg len)"
  using parse_meas_msg_spec [of st msg len, OF surjective_pairing] unfolding meas_entries_def Let_def by blast

lemma parse_meas_msg_frame:
  "subfrm (snd (parse_meas_msg st msg len)) = subfrm st
   \<and> bds_d1_subfrm_flags (snd (parse_meas_msg st msg len)) = bds_d1_subfrm_flags st"
  using parse_meas_msg_spec [of st msg len, OF surjective_pairing] by simp

lemma meas_entries_sound: "(s, b) \<in> set (meas_entries st msg len) \<Longrightarrow> signal_of (sg_raw s) = Some s"
  using slips_zip_sound by (auto simp add: meas_entries_def Let_def split: if_splits)

lemma length_meas_entries: "length (meas_entries st msg len) \<le> unat (byte_at msg 17)"
  using length_accepted [of "meas_blocks msg"] by (simp add: meas_entries_def meas_blocks_def Let_def)

lemma parse_meas_msg_obs:
  assumes ob: "ob \<in> set (fst (parse_meas_msg st msg len))"
  shows "obs_wf ob \<and> obs_time ob = meas_time msg"
proof -
  obtain sat where "ob = obs_of (meas_time msg) (meas_entries st msg len) sat"
    and "sat \<in> set (map (sg_sat \<circ> fst) (meas_entries st msg len))"
    using ob by (auto simp add: parse_meas_msg_grouped grouped_def)
  then show ?thesis using obs_of_wf [OF meas_entries_sound] by (simp add: obs_of_def Let_def)
qed

text \<open>
  Whatever octets a RAWX message holds, each published observation names a satellite of the
  numbering, has at least one signal, columns of equal length and known codes; satellites are not
  repeated, all observations carry the same time, and together they have at most as many signals as
  the message announces.
\<close>

lemma parse_meas_msg_wf:
  assumes "parse_meas_msg st msg len = (meas, st')"
  shows "(\<forall>ob \<in> set meas. obs_wf ob \<and> obs_time ob = meas_time msg) \<and> distinct (map obs_sat meas)
    \<and> sum_list (map (\<lambda>ob. length (obs_freqs ob)) meas) \<le> unat (byte_at msg 17)"
proof -
  define es where "es = meas_entries st msg len"
  have fst: "meas = fst (parse_meas_msg st msg len)" using assms by simp
  then have meas: "meas = grouped (meas_time msg) es" by (simp only: parse_meas_msg_grouped es_def)
  have sats: "map obs_sat meas = firsts (map (sg_sat \<circ> fst) es)"
    by (simp add: meas grouped_def obs_of_def Let_def comp_def)
  have "sum_list (map (\<lambda>ob. length (obs_freqs ob)) meas)
      = sum_list (map (\<lambda>k. length (filter (\<lambda>x. sg_sat (fst x) = k) es)) (firsts (map (sg_sat \<circ> fst) es)))"
    by (simp add: meas grouped_def obs_of_def Let_def comp_def split_def)
  also have "\<dots> \<le> length es"
    by (subst sum_groups) simp_all
  finally show ?thesis
    using sats length_meas_entries [of st msg len] parse_meas_msg_obs [of _ st msg len]
    by (auto simp add: fst es_def)
qed

section \<open>Example\<close>

text \<open>A message with two signals of GPS 5, a repeat of the first with lock time 0, and an unknown constellation.\<close>

definition meas_demo_block :: "u8 \<Rightarrow> u8 \<Rightarrow> bytes" where
  "meas_demo_block gnss sig = replicate 20 0 @ [gnss, 5, sig, 0, 0, 0, 40, 0, 0, 0, 7, 0]"

definition meas_demo :: bytes where
  "meas_demo = [0xB5, 0x62, 0x02, 0x15, 144, 0] @ replicate 8 0 @ [0x98, 0x08, 18, 4, 1, 0, 0, 0]
     @ meas_demo_block 0 0 @ meas_demo_block 0 3 @ meas_demo_block 0 0 @ meas_demo_block 4 0 @ [0, 0]"

lemma meas_demo_accepted: "meas_accepted meas_demo 152"
  by code_simp

lemma meas_demo_lli:
  "(\<lambda>ss. map obs_lli (grouped t (zip ss (slips (prev_track ubx_init) ss)))) (accepted (meas_blocks meas_demo))
     = [[0, 0, 1]]"
  by code_simp


lemma parse_meas_msg_wf_witness:
  "distinct (map obs_sat (fst (parse_meas_msg ubx_init meas_demo 152)))
    \<and> sum_list (map (\<lambda>ob. length (obs_freqs ob)) (fst (parse_meas_msg ubx_init meas_demo 152))) \<le> 4"
proof -
  have "unat (byte_at meas_demo 17) = 4" by code_simp
  then show ?thesis
    using parse_meas_msg_wf [of ubx_init meas_demo 152, OF surjective_pairing] by simp
qed

end
