(* ===== verification/Gnss_Msg.thy ===== *)
theory Gnss_Msg
  imports Nav_Common Ubx_Meas
begin

text \<open>
  The messages of \<open>gnss_comm/msg\<close> and their conversions in \<open>gnss_ros.cpp\<close>.  Points in time travel as GPS
  week and time of week, everything else field by field.
\<close>

section \<open>Time\<close>

record time_msg =
  tm_week :: u32
  tm_tow :: f64

definition time2msg :: "gtime \<Rightarrow> time_msg" where
  "time2msg t = (let (w, tow) = time2gpst t in \<lparr>tm_week = w, tm_tow = tow\<rparr>)"

definition msg2time :: "time_msg \<Rightarrow> gtime" where
  "msg2time m = gpst2time (tm_week m) (tm_tow m)"

section \<open>Ephemerides\<close>

record ephem_msg =
  em_sat :: u32
  em_ttr :: time_msg
  em_toe :: time_msg
  em_toc :: time_msg
  em_toe_tow :: f64
  em_week :: u32
  em_iode :: u32
  em_iodc :: u32
  em_health :: u32
  em_code :: u32
  em_ura :: f64
  em_a :: f64
  em_e :: f64
  em_i0 :: f64
  em_omg :: f64
  em_omg0 :: f64
  em_m0 :: f64
  em_delta_n :: f64
  em_omg_dot :: f64
  em_i_dot :: f64
  em_cuc :: f64
  em_cus :: f64
  em_crc :: f64
  em_crs :: f64
  em_cic :: f64
  em_cis :: f64
  em_af0 :: f64
  em_af1 :: f64
  em_af2 :: f64
  em_tgd0 :: f64
  em_tgd1 :: f64
  em_a_dot :: f64
  em_n_dot :: f64

definition ephem2msg :: "ephem \<Rightarrow> ephem_msg" where
  "ephem2msg e =
     \<lparr>em_sat = eph_sat e, em_ttr = time2msg (ttr e), em_toe = time2msg (toe e),
      em_toc = time2msg (toc e), em_toe_tow = toe_tow e, em_week = week e, em_iode = iode e,
      em_iodc = iodc e, em_health = health e, em_code = eph_code e, em_ura = ura e, em_a = eph_a e,
      em_e = eph_e e, em_i0 = i0 e, em_omg = omg e, em_omg0 = omg0 e, em_m0 = m0 e,
      em_delta_n = delta_n e, em_omg_dot = omg_dot e, em_i_dot = i_dot e, em_cuc = cuc e,
      em_cus = cus e, em_crc = eph_crc e, em_crs = crs e, em_cic = cic e, em_cis = cis e,
      em_af0 = af0 e, em_af1 = af1 e, em_af2 = af2 e, em_tgd0 = tgd0 e, em_tgd1 = tgd1 e,
      em_a_dot = a_dot e, em_n_dot = n_dot e\<rparr>"

definition msg2ephem :: "ephem_msg \<Rightarrow> ephem" where
  "msg2ephem m =
     \<lparr>eph_sat = em_sat m, ttr = msg2time (em_ttr m), toe = msg2time (em_toe m), health = em_health m,
      ura = em_ura m, iode = em_iode m, toc = msg2time (em_toc m), toe_tow = em_toe_tow m,
      week = em_week m, iodc = em_iodc m, eph_code = em_code m, eph_a = em_a m, eph_e = em_e m,
      i0 = em_i0 m, omg = em_omg m, omg0 = em_omg0 m, m0 = em_m0 m, delta_n = em_delta_n m,
      omg_dot = em_omg_dot m, i_dot = em_i_dot m, cuc = em_cuc m, cus = em_cus m, eph_crc = em_crc m,
      crs = em_crs m, cic = em_cic m, cis = em_cis m, af0 = em_af0 m, af1 = em_af1 m, af2 = em_af2 m,
      tgd0 = em_tgd0 m, tgd1 = em_tgd1 m, a_dot = em_a_dot m, n_dot = em_n_dot m\<rparr>"

record glo_ephem_msg =
  gm_sat :: u32
  gm_ttr :: time_msg
  gm_toe :: time_msg
  gm_freqo :: int
  gm_iode :: u32
  gm_health :: u32
  gm_age :: u32
  gm_ura :: f64
  gm_pos_x :: f64
  gm_pos_y :: f64
  gm_pos_z :: f64
  gm_vel_x :: f64
  gm_vel_y :: f64
  gm_vel_z :: f64
  gm_acc_x :: f64
  gm_acc_y :: f64
  gm_acc_z :: f64
  gm_tau_n :: f64
  gm_gamma :: f64
  gm_delta_tau_n :: f64

definition glo_ephem2msg :: "glo_ephem \<Rightarrow> glo_ephem_msg" where
  "glo_ephem2msg e =
     \<lparr>gm_sat = eph_sat e, gm_ttr = time2msg (ttr e), gm_toe = time2msg (toe e), gm_freqo = freqo e,
      gm_iode = iode e, gm_health = health e, gm_age = glo_age e, gm_ura = ura e,
      gm_pos_x = glo_pos e ! 0, gm_pos_y = glo_pos e ! 1, gm_pos_z = glo_pos e ! 2,
      gm_vel_x = glo_vel e ! 0, gm_vel_y = glo_vel e ! 1, gm_vel_z = glo_vel e ! 2,
      gm_acc_x = glo_acc e ! 0, gm_acc_y = glo_acc e ! 1, gm_acc_z = glo_acc e ! 2, gm_tau_n = tau_n e,
      gm_gamma = gamma e, gm_delta_tau_n = delta_tau_n e\<rparr>"

definition msg2glo_ephem :: "glo_ephem_msg \<Rightarrow> glo_ephem" where
  "msg2glo_ephem m =
     \<lparr>eph_sat = gm_sat m, ttr = msg2time (gm_ttr m), toe = msg2time (gm_toe m), health = gm_health m,
      ura = gm_ura m, iode = gm_iode m, freqo = gm_freqo m, glo_age = gm_age m,
      glo_pos = [gm_pos_x m, gm_pos_y m, gm_pos_z m], glo_vel = [gm_vel_x m, gm_vel_y m, gm_vel_z m],
      glo_acc = [gm_acc_x m, gm_acc_y m, gm_acc_z m], tau_n = gm_tau_n m, gamma = gm_gamma m,
      delta_tau_n = gm_delta_tau_n m\<rparr>"

section \<open>Observations\<close>

record obs_msg =
  om_time :: time_msg
  om_sat :: u32
  om_freqs :: "f64 list"
  om_cn0 :: "f64 list"
  om_lli :: "u8 list"
  om_code :: "u8 list"
  om_psr :: "f64 list"
  om_psr_std :: "f64 list"
  om_cp :: "f64 list"
  om_cp_std :: "f64 list"
  om_dopp :: "f64 list"
  om_dopp_std :: "f64 list"
  om_status :: "u8 list"

definition obs2msg :: "obs \<Rightarrow> obs_msg" where
  "obs2msg ob =
     \<lparr>om_time = time2msg (obs_time ob), om_sat = obs_sat ob, om_freqs = obs_freqs ob,
      om_cn0 = obs_cn0 ob, om_lli = obs_lli ob, om_code = obs_code ob, om_psr = obs_psr ob,
      om_psr_std = obs_psr_std ob, om_cp = obs_cp ob, om_cp_std = obs_cp_std ob, om_dopp = obs_dopp ob,
      om_dopp_std = obs_dopp_std ob, om_status = obs_status ob\<rparr>"

definition msg2obs :: "obs_msg \<Rightarrow> obs" where
  "msg2obs m =
     \<lparr>obs_time = msg2time (om_time m), obs_sat = om_sat m, obs_freqs = om_freqs m, obs_cn0 = om_cn0 m,
      obs_lli = om_lli m, obs_code = om_code m, obs_psr = om_psr m, obs_psr_std = om_psr_std m,
      obs_cp = om_cp m, obs_cp_std = om_cp_std m, obs_dopp = om_dopp m, obs_dopp_std = om_dopp_std m,
      obs_status = om_status m\<rparr>"

definition meas2msg :: "obs list \<Rightarrow> obs_msg list" where
  "meas2msg meas = map obs2msg meas"

definition msg2meas :: "obs_msg list \<Rightarrow> obs list" where
  "msg2meas ms = map msg2obs ms"

section \<open>Time pulses and solutions\<close>

record tp_info =
  tp_time :: gtime
  utc_based :: bool
  time_sys :: u32

record tp_msg =
  tpm_time :: time_msg
  tpm_utc_based :: bool
  tpm_time_sys :: u32

definition tp_info2msg :: "tp_info \<Rightarrow> tp_msg" where
  "tp_info2msg t = \<lparr>tpm_time = time2msg (tp_time t), tpm_utc_based = utc_based t, tpm_time_sys = time_sys t\<rparr>"

definition msg2tp_info :: "tp_msg \<Rightarrow> tp_info" where
  "msg2tp_info m = \<lparr>tp_time = msg2time (tpm_time m), utc_based = tpm_utc_based m, time_sys = tpm_time_sys m\<rparr>"

record pvt_solution =
  pvt_time :: gtime
  pvt_fix_type :: u8
  pvt_valid_fix :: bool
  pvt_diff_soln :: bool
  pvt_carr_soln :: u8
  pvt_num_sv :: u8
  pvt_lat :: f64
  pvt_lon :: f64
  pvt_hgt :: f64
  pvt_hgt_msl :: f64
  pvt_h_acc :: f64
  pvt_v_acc :: f64
  pvt_p_dop :: f64
  pvt_vel_n :: f64
  pvt_vel_e :: f64
  pvt_vel_d :: f64
  pvt_vel_acc :: f64

record pvt_msg =
  pm_time :: time_msg
  pm_fix_type :: u8
  pm_valid_fix :: bool
  pm_diff_soln :: bool
  pm_carr_soln :: u8
  pm_num_sv :: u8
  pm_latitude :: f64
  pm_longitude :: f64
  pm_altitude :: f64
  pm_height_msl :: f64
  pm_h_acc :: f64
  pm_v_acc :: f64
  pm_p_dop :: f64
  pm_vel_n :: f64
  pm_vel_e :: f64
  pm_vel_d :: f64
  pm_vel_acc :: f64

definition pvt2msg :: "pvt_solution \<Rightarrow> pvt_msg" where
  "pvt2msg s =
     \<lparr>pm_time = time2msg (pvt_time s), pm_fix_type = pvt_fix_type s, pm_valid_fix = pvt_valid_fix s,
      pm_diff_soln = pvt_diff_soln s, pm_carr_soln = pvt_carr_soln s, pm_num_sv = pvt_num_sv s,
      pm_latitude = pvt_lat s, pm_longitude = pvt_lon s, pm_altitude = pvt_hgt s,
      pm_height_msl = pvt_hgt_msl s, pm_h_acc = pvt_h_acc s, pm_v_acc = pvt_v_acc s,
      pm_p_dop = pvt_p_dop s, pm_vel_n = pvt_vel_n s, pm_vel_e = pvt_vel_e s, pm_vel_d = pvt_vel_d s,
      pm_vel_acc = pvt_vel_acc s\<rparr>"

definition msg2pvt :: "pvt_msg \<Rightarrow> pvt_solution" where
  "msg2pvt m =
     \<lparr>pvt_time = msg2time (pm_time m), pvt_fix_type = pm_fix_type m, pvt_valid_fix = pm_valid_fix m,
      pvt_diff_soln = pm_diff_soln m, pvt_carr_soln = pm_carr_soln m, pvt_num_sv = pm_num_sv m,
      pvt_lat = pm_latitude m, pvt_lon = pm_longitude m, pvt_hgt = pm_altitude m,
      pvt_hgt_msl = pm_height_msl m, pvt_h_acc = pm_h_acc m, pvt_v_acc = pm_v_acc m,
      pvt_p_dop = pm_p_dop m, pvt_vel_n = pm_vel_n m, pvt_vel_e = pm_vel_e m, pvt_vel_d = pm_vel_d m,
      pvt_vel_acc = pm_vel_acc m\<rparr>"

section \<open>Messages without a way back\<close>

record best_xyz =
  bx_time :: gtime
  bx_pos :: "f64 list"
  bx_pos_sigma :: "f64 list"
  bx_vel :: "f64 list"
  bx_vel_sigma :: "f64 list"
  bx_num_soln_svs :: u8

record best_xyz_msg =
  bxm_stamp :: int
  bxm_frame_id :: string
  bxm_pos :: "f64 list"
  bxm_pos_sigma :: "f64 list"
  bxm_vel :: "f64 list"
  bxm_vel_sigma :: "f64 list"
  bxm_num_svs :: u32

text \<open>
  \<open>rclcpp::Time\<close> has one constructor for a single number, which takes nanoseconds as an \<open>int64_t\<close>; the
  double of \<open>time2sec\<close> is converted to it.
\<close>

definition stamp_of_sec :: "f64 \<Rightarrow> int" where
  "stamp_of_sec sec = to_i64 sec"

definition best_xyz2msg :: "best_xyz \<Rightarrow> best_xyz_msg" where
  "best_xyz2msg b =
     \<lparr>bxm_stamp = stamp_of_sec (time2sec (bx_time b)), bxm_frame_id = ''ECEF'',
      bxm_pos = map ((!) (bx_pos b)) [0, 1, 2], bxm_pos_sigma = map ((!) (bx_pos_sigma b)) [0, 1, 2],
      bxm_vel = map ((!) (bx_vel b)) [0, 1, 2], bxm_vel_sigma = map ((!) (bx_vel_sigma b)) [0, 1, 2],
      bxm_num_svs = ucast (bx_num_soln_svs b)\<rparr>"

record sv_info =
  sv_time :: gtime
  sv_sat :: u32
  sv_freqo :: u32
  sv_health :: bool
  sv_elev_degree :: f64
  sv_az_degree :: f64
  sv_sig_mask :: u32

record svs_msg =
  svm_stamp :: int
  svm_sat :: "u32 list"
  svm_freqo :: "u32 list"
  svm_health :: "bool list"
  svm_elev_degree :: "f64 list"
  svm_az_degree :: "f64 list"
  svm_sig_mask :: "u32 list"

definition svs2msg :: "sv_info list \<Rightarrow> svs_msg" where
  "svs2msg svs =
     \<lparr>svm_stamp = (case svs of [] \<Rightarrow> 0 | s # _ \<Rightarrow> stamp_of_sec (time2sec (sv_time s))),
      svm_sat = map sv_sat svs, svm_freqo = map sv_freqo svs, svm_health = map sv_health svs,
      svm_elev_degree = map sv_elev_degree svs, svm_az_degree = map sv_az_degree svs,
      svm_sig_mask = map sv_sig_mask svs\<rparr>"

text \<open>So the stamp of a time in whole seconds is the number of its seconds, read as nanoseconds.\<close>

lemma best_xyz2msg_stamp:
  assumes "bx_time b = \<lparr>gt_time = n, gt_sec = f0\<rparr>" and "\<bar>n\<bar> < 2 ^ 53"
  shows "bxm_stamp (best_xyz2msg b) = n"
proof -
  have "time2sec (bx_time b) = f64_int n"
    using fadd_int [of n 0] assms by (simp add: time2sec_def f0_def)
  moreover have "f64_trunc (f64_int n) = Some n" using assms(2) by simp
  ultimately show ?thesis using assms(2) by (auto simp add: best_xyz2msg_def stamp_of_sec_def to_i64_def)
qed

section \<open>Round trips\<close>

text \<open>The times the driver makes: a week before the 32-bit product wraps and a time inside the week.\<close>

definition gps_stamp :: "gtime \<Rightarrow> bool" where
  "gps_stamp t \<longleftrightarrow> (\<exists>w tow n. t = gpst2time w tow \<and> unat w \<le> 7100 \<and> f64_wf tow \<and> f64_floor tow = Some n \<and> 0 \<le> n \<and> n < 604800)"

lemma gps_stampI:
  "unat w \<le> 7100 \<Longrightarrow> f64_wf tow \<Longrightarrow> f64_floor tow = Some n \<Longrightarrow> 0 \<le> n \<Longrightarrow> n < 604800 \<Longrightarrow> gps_stamp (gpst2time w tow)"
  by (auto simp add: gps_stamp_def)

lemma msg2time_time2msg: "gps_stamp t \<Longrightarrow> msg2time (time2msg t) = t"
proof -
  assume "gps_stamp t"
  then obtain w tow n where t: "t = gpst2time w tow" "unat w \<le> 7100"
    and tow: "f64_wf tow" "f64_floor tow = Some n" "0 \<le> n" "n < 604800"
    by (auto simp add: gps_stamp_def)
  have "uint w \<le> 7100" using t(2) by (simp only: uint_nat)
  then have "uint (fst (time2gpst t)) = uint w" "snd (time2gpst t) = tow"
    using gps.dec_enc [OF _ _ tow, of "uint w"] by (simp_all add: t)
  moreover from this(1) have "fst (time2gpst t) = w" by (metis word_of_int_uint)
  ultimately show ?thesis
    by (simp add: t(1) time2msg_def msg2time_def split_beta)
qed



end
