(* ===== verification/Stream_Cutter.thy ===== *)
theory Stream_Cutter
  imports Prelude
begin

text \<open>
  The driver cuts messages out of two octet streams: the RTCM stream of the caster
  (\<open>drainRtcmLogBuffer\<close>) and the UBX stream of the receiver (\<open>SerialHandler::read_loop\<close>).  Both
  look at a buffer and either give up for now, drop octets and look again, or cut a message off and
  look again.  This theory holds that loop and the contract under which the result does not depend
  on how the stream arrives in pieces.
\<close>

datatype 'm turn = Return bytes | Continue bytes | Publish 'm bytes

text \<open>
  The loop.  A turn that does not shrink the buffer ends it; the contract below rules that out.
\<close>

function cut_run :: "(bytes \<Rightarrow> 'm turn) \<Rightarrow> bytes \<Rightarrow> bytes \<times> 'm list" where
  "cut_run body buf =
     (case body buf of
        Return r \<Rightarrow> (r, [])
      | Continue r \<Rightarrow> if length r < length buf then cut_run body r else (r, [])
      | Publish m r \<Rightarrow>
          if length r < length buf
          then (case cut_run body r of (r', ms) \<Rightarrow> (r', m # ms)) else (r, [m]))"
  by pat_completeness auto
termination
  by (relation "measure (\<lambda>(body, buf). length buf)") auto

declare cut_run.simps [simp del]

text \<open>
  The contract of a loop body: turns shrink the buffer, decisions once taken stand when more octets
  arrive, and giving up forgets nothing that later octets could need.
\<close>

locale stream_cutter =
  fixes body :: "bytes \<Rightarrow> 'm turn"
  assumes Continue_less: "body b = Continue r \<Longrightarrow> length r < length b"
    and Publish_less: "body b = Publish m r \<Longrightarrow> length r < length b"
    and Continue_append: "body b = Continue r \<Longrightarrow> body (b @ x) = Continue (r @ x)"
    and Publish_append: "body b = Publish m r \<Longrightarrow> body (b @ x) = Publish m (r @ x)"
    and Return_append: "body b = Return r \<Longrightarrow> body (b @ x) = body (r @ x)"
begin

lemma run_Return: "body b = Return r \<Longrightarrow> cut_run body b = (r, [])"
  by (simp add: cut_run.simps [of body b])

lemma run_Continue: "body b = Continue r \<Longrightarrow> cut_run body b = cut_run body r"
  by (simp add: cut_run.simps [of body b] Continue_less)

lemma run_Publish:
  "body b = Publish m r \<Longrightarrow> cut_run body b = (fst (cut_run body r), m # snd (cut_run body r))"
  by (simp add: cut_run.simps [of body b] Publish_less split_beta)

lemmas run_simps = run_Return run_Continue run_Publish

lemma run_induct [case_names Return Continue Publish]:
  assumes "\<And>b r. body b = Return r \<Longrightarrow> P b"
    and "\<And>b r. body b = Continue r \<Longrightarrow> P r \<Longrightarrow> P b"
    and "\<And>b m r. body b = Publish m r \<Longrightarrow> P r \<Longrightarrow> P b"
  shows "P b"
proof (induction b rule: length_induct)
  case (1 b)
  then show ?case
    using assms by (cases "body b") (auto dest: Continue_less Publish_less)
qed

lemma run_cong: "body b = body c \<Longrightarrow> cut_run body b = cut_run body c"
  by (cases "body c") (simp_all add: run_simps)

lemma run_append:
  "cut_run body (b @ x) =
     (fst (cut_run body (fst (cut_run body b) @ x)),
      snd (cut_run body b) @ snd (cut_run body (fst (cut_run body b) @ x)))"
proof (induction b rule: run_induct)
  case (Return b r)
  then show ?case
    using run_cong [OF Return_append [OF Return, of x]] by (simp add: run_Return)
next
  case (Continue b r)
  then show ?case by (simp add: run_Continue Continue_append)
next
  case (Publish b m r)
  then show ?case by (simp add: run_Publish Publish_append)
qed

text \<open>What is left in the buffer has been looked at: more turns without more octets do nothing.\<close>

lemma run_again: "cut_run body (fst (cut_run body b)) = (fst (cut_run body b), [])"
  using run_append [of b "[]"] by (simp add: prod_eq_iff)

end

end
