(* ===== verification/Rtcm_Stream.thy ===== *)
theory Rtcm_Stream
  imports Crc24q Stream_Cutter
begin

text \<open>
  The RTCM side of \<open>GNSSDriverManager\<close> (\<open>ublox_driver.cpp\<close>): chunks of the TCP stream are appended
  to \<open>rtcm_log_buffer_\<close> and \<open>drainRtcmLogBuffer\<close> cuts complete, CRC-correct frames out of it and
  publishes them.  The lemmas show that the loop terminates, that the buffer stays bounded, that
  every published frame is well formed, that how the stream is cut into chunks does not matter, and
  that a stream of valid frames is recovered exactly.
\<close>

section \<open>Model\<close>

definition kRtcmPreamble :: u8 where "kRtcmPreamble = 0xD3"
definition kRtcmMaxPayloadLength :: u16 where "kRtcmMaxPayloadLength = 1023"

definition GetRtcmPayloadLength :: "bytes \<Rightarrow> u16" where
  "GetRtcmPayloadLength frame =
     push_bit 8 (ucast (byte_at frame 1 AND 0x03)) OR ucast (byte_at frame 2)"

definition GetRtcmMessageType :: "bytes \<Rightarrow> u16 \<Rightarrow> u16" where
  "GetRtcmMessageType frame payload_length =
     (if payload_length < 2 then 0
      else push_bit 4 (ucast (byte_at frame 3)) OR drop_bit 4 (ucast (byte_at frame 4)))"

text \<open>What \<open>publishRtcm\<close> is called with.\<close>

record rtcm_msg =
  rtcm_data :: bytes
  rtcm_frame_length :: nat
  rtcm_message_type :: u16
  rtcm_payload_length :: u16

record rtcm_state =
  rtcm_log_buffer :: bytes
  rtcm_input_chunk_count :: u64
  rtcm_input_total_bytes :: u64
  rtcm_frame_count :: u64

definition rtcm_init :: rtcm_state where
  "rtcm_init = \<lparr>rtcm_log_buffer = [], rtcm_input_chunk_count = 0,
     rtcm_input_total_bytes = 0, rtcm_frame_count = 0\<rparr>"

text \<open>
  One turn of the \<open>while (true)\<close> loop on the buffer: return and wait for more octets, drop
  octets and continue, or cut a frame off and continue.
\<close>

definition rtcm_expected_crc :: "bytes \<Rightarrow> nat \<Rightarrow> u32" where
  "rtcm_expected_crc buf frame_length =
     push_bit 16 (ucast (byte_at buf (frame_length - 3)))
     OR push_bit 8 (ucast (byte_at buf (frame_length - 2)))
     OR ucast (byte_at buf (frame_length - 1))"

definition rtcm_loop_body :: "bytes \<Rightarrow> rtcm_msg turn" where
  "rtcm_loop_body buf0 =
     (let buf = dropWhile (\<lambda>x. x \<noteq> kRtcmPreamble) buf0 in
      if buf = [] then Return []
      else if length buf < 3 then Return buf
      else if byte_at buf 1 AND 0xFC \<noteq> 0 then Continue (tl buf)
      else let payload_length = GetRtcmPayloadLength buf in
      if payload_length > kRtcmMaxPayloadLength then Continue (tl buf)
      else let frame_length = unat payload_length + 6 in
      if length buf < frame_length then Return buf
      else if ComputeRtcmCrc24q buf (frame_length - 3) \<noteq> rtcm_expected_crc buf frame_length
      then Continue (tl buf)
      else Publish
        \<lparr>rtcm_data = take frame_length buf, rtcm_frame_length = frame_length,
         rtcm_message_type = GetRtcmMessageType buf payload_length,
         rtcm_payload_length = payload_length\<rparr>
        (drop frame_length buf))"

lemma rtcm_body_Continue_less: "rtcm_loop_body buf = Continue r \<Longrightarrow> length r < length buf"
  using length_dropWhile_le [of "\<lambda>x. x \<noteq> kRtcmPreamble" buf]
  by (auto simp add: rtcm_loop_body_def Let_def neq_Nil_conv split: if_splits)

lemma rtcm_body_Publish_less: "rtcm_loop_body buf = Publish m r \<Longrightarrow> length r < length buf"
  using length_dropWhile_le [of "\<lambda>x. x \<noteq> kRtcmPreamble" buf]
  by (auto simp add: rtcm_loop_body_def Let_def neq_Nil_conv split: if_splits)

text \<open>The loop; the second component lists the calls of \<open>publishRtcm\<close> in order.\<close>

function drainRtcmLogBuffer :: "rtcm_state \<Rightarrow> rtcm_state \<times> rtcm_msg list" where
  "drainRtcmLogBuffer s =
     (case rtcm_loop_body (rtcm_log_buffer s) of
        Return r \<Rightarrow> (s\<lparr>rtcm_log_buffer := r\<rparr>, [])
      | Continue r \<Rightarrow> drainRtcmLogBuffer (s\<lparr>rtcm_log_buffer := r\<rparr>)
      | Publish m r \<Rightarrow>
          (let (s', ms) = drainRtcmLogBuffer
             (s\<lparr>rtcm_frame_count := rtcm_frame_count s + 1, rtcm_log_buffer := r\<rparr>)
           in (s', m # ms)))"
  by pat_completeness auto
termination
  by (relation "measure (\<lambda>s. length (rtcm_log_buffer s))")
    (auto dest: rtcm_body_Continue_less rtcm_body_Publish_less)

declare drainRtcmLogBuffer.simps [simp del]

definition logRtcmInputChunk :: "rtcm_state \<Rightarrow> nat \<Rightarrow> rtcm_state" where
  "logRtcmInputChunk s len =
     s\<lparr>rtcm_input_chunk_count := rtcm_input_chunk_count s + 1,
       rtcm_input_total_bytes := rtcm_input_total_bytes s + of_nat len\<rparr>"

text \<open>A call of \<open>logRtcmFrames(data, len)\<close>; the null or empty chunk returns at once.\<close>

definition logRtcmFrames :: "rtcm_state \<Rightarrow> bytes \<Rightarrow> rtcm_state \<times> rtcm_msg list" where
  "logRtcmFrames s data =
     (if data = [] then (s, [])
      else let s1 = logRtcmInputChunk s (length data) in
      drainRtcmLogBuffer (s1\<lparr>rtcm_log_buffer := rtcm_log_buffer s1 @ data\<rparr>))"

fun logRtcmChunks :: "rtcm_state \<Rightarrow> bytes list \<Rightarrow> rtcm_state \<times> rtcm_msg list" where
  "logRtcmChunks s [] = (s, [])"
| "logRtcmChunks s (c # cs) =
     (let (s1, m1) = logRtcmFrames s c; (s2, m2) = logRtcmChunks s1 cs in (s2, m1 @ m2))"

section \<open>Chunking\<close>

lemma dropWhile_append_cases:
  "dropWhile P (xs @ ys) = (if dropWhile P xs = [] then dropWhile P ys else dropWhile P xs @ ys)"
  by (induction xs) auto

lemma ComputeRtcmCrc24q_append:
  "n \<le> length xs \<Longrightarrow> ComputeRtcmCrc24q (xs @ ys) n = ComputeRtcmCrc24q xs n"
  by (simp add: ComputeRtcmCrc24q_def)

lemma rtcm_expected_crc_append:
  "6 \<le> n \<Longrightarrow> n \<le> length xs \<Longrightarrow> rtcm_expected_crc (xs @ ys) n = rtcm_expected_crc xs n"
  by (simp add: rtcm_expected_crc_def)

lemma GetRtcmPayloadLength_append:
  "3 \<le> length xs \<Longrightarrow> GetRtcmPayloadLength (xs @ ys) = GetRtcmPayloadLength xs"
  by (simp add: GetRtcmPayloadLength_def)

lemma GetRtcmMessageType_append:
  "5 \<le> length xs \<Longrightarrow> GetRtcmMessageType (xs @ ys) n = GetRtcmMessageType xs n"
  by (simp add: GetRtcmMessageType_def)

lemmas rtcm_append_simps =
  ComputeRtcmCrc24q_append rtcm_expected_crc_append GetRtcmPayloadLength_append
  GetRtcmMessageType_append

lemma rtcm_body_Continue_append:
  "rtcm_loop_body b = Continue r \<Longrightarrow> rtcm_loop_body (b @ x) = Continue (r @ x)"
  by (auto simp add: rtcm_loop_body_def Let_def dropWhile_append_cases rtcm_append_simps
      split: if_splits)

lemma rtcm_body_Publish_append:
  "rtcm_loop_body b = Publish m r \<Longrightarrow> rtcm_loop_body (b @ x) = Publish m (r @ x)"
  by (auto simp add: rtcm_loop_body_def Let_def dropWhile_append_cases rtcm_append_simps
      split: if_splits)

lemma dropWhile_dropWhile_append: "dropWhile P (dropWhile P b @ x) = dropWhile P (b @ x)"
  by (induction b) auto

lemma rtcm_body_Return:
  "rtcm_loop_body b = Return r \<Longrightarrow> r = dropWhile (\<lambda>x. x \<noteq> kRtcmPreamble) b"
  by (auto simp add: rtcm_loop_body_def Let_def simp del: dropWhile_eq_Nil_conv split: if_splits)

lemma rtcm_body_Return_append:
  "rtcm_loop_body b = Return r \<Longrightarrow> rtcm_loop_body (b @ x) = rtcm_loop_body (r @ x)"
  by (drule rtcm_body_Return)
    (simp only: rtcm_loop_body_def dropWhile_dropWhile_append)

interpretation rtcm: stream_cutter rtcm_loop_body
  by unfold_locales
    (fact rtcm_body_Continue_less rtcm_body_Publish_less rtcm_body_Continue_append
      rtcm_body_Publish_append rtcm_body_Return_append)+

text \<open>The loop with the counters left out; \<open>drainRtcmLogBuffer\<close> is this function.\<close>

abbreviation rtcm_run :: "bytes \<Rightarrow> bytes \<times> rtcm_msg list" where
  "rtcm_run \<equiv> cut_run rtcm_loop_body"

lemma drain_run:
  "drainRtcmLogBuffer s =
     (s\<lparr>rtcm_log_buffer := fst (rtcm_run (rtcm_log_buffer s)),
        rtcm_frame_count := rtcm_frame_count s + of_nat (length (snd (rtcm_run (rtcm_log_buffer s))))\<rparr>,
      snd (rtcm_run (rtcm_log_buffer s)))"
proof (induction s rule: drainRtcmLogBuffer.induct)
  case (1 s)
  then show ?case
    by (cases "rtcm_loop_body (rtcm_log_buffer s)")
      (simp_all add: drainRtcmLogBuffer.simps [of s] rtcm.run_simps)
qed

lemma logRtcmFrames_run:
  "data \<noteq> [] \<Longrightarrow> logRtcmFrames s data =
    (s\<lparr>rtcm_input_chunk_count := rtcm_input_chunk_count s + 1,
       rtcm_input_total_bytes := rtcm_input_total_bytes s + of_nat (length data),
       rtcm_log_buffer := fst (rtcm_run (rtcm_log_buffer s @ data)),
       rtcm_frame_count := rtcm_frame_count s
         + of_nat (length (snd (rtcm_run (rtcm_log_buffer s @ data))))\<rparr>,
     snd (rtcm_run (rtcm_log_buffer s @ data)))"
  by (simp add: logRtcmFrames_def logRtcmInputChunk_def drain_run Let_def)

text \<open>Everything the two runs share: what is published, the buffer left and the octet count.\<close>

definition rtcm_same :: "rtcm_state \<times> rtcm_msg list \<Rightarrow> rtcm_state \<times> rtcm_msg list \<Rightarrow> bool" where
  "rtcm_same a b \<longleftrightarrow> snd a = snd b
     \<and> rtcm_log_buffer (fst a) = rtcm_log_buffer (fst b)
     \<and> rtcm_frame_count (fst a) = rtcm_frame_count (fst b)
     \<and> rtcm_input_total_bytes (fst a) = rtcm_input_total_bytes (fst b)"

lemma logRtcmFrames_two:
  assumes "logRtcmFrames s c = (s1, m1)" and "logRtcmFrames s1 d = (s2, m2)"
  shows "rtcm_same (s2, m1 @ m2) (logRtcmFrames s (c @ d))"
proof (cases "c = [] \<or> d = []")
  case True
  with assms show ?thesis
    by (auto simp add: rtcm_same_def logRtcmFrames_def)
next
  case False
  with assms show ?thesis
    using rtcm.run_append [of "rtcm_log_buffer s @ c" d]
    by (auto simp add: rtcm_same_def logRtcmFrames_run algebra_simps)
qed

lemma rtcm_chunks_same:
  "rtcm_same (logRtcmChunks s cs) (logRtcmFrames s (concat cs))"
proof (induction cs arbitrary: s)
  case Nil
  then show ?case by (simp add: rtcm_same_def logRtcmFrames_def)
next
  case (Cons c cs)
  obtain s1 m1 where 1: "logRtcmFrames s c = (s1, m1)" by fastforce
  obtain s2 m2 where 2: "logRtcmFrames s1 (concat cs) = (s2, m2)" by fastforce
  obtain s3 m3 where 3: "logRtcmChunks s1 cs = (s3, m3)" by fastforce
  show ?case
    using logRtcmFrames_two [OF 1 2] Cons.IH [of s1] 1 2 3 by (simp add: rtcm_same_def)
qed

text \<open>
  Claim C2.  TCP may cut the RTCM stream anywhere: feeding the chunks one by one publishes the same
  frames, in the same order, and leaves the same buffer, frame count and octet count as feeding the
  whole stream in one call.
\<close>

theorem rtcm_chunking_irrelevant:
  "rtcm_same (logRtcmChunks s cs) (logRtcmFrames s (concat cs))"
  by (rule rtcm_chunks_same)

section \<open>Bounded buffer\<close>

lemma GetRtcmPayloadLength_le: "unat (GetRtcmPayloadLength b) \<le> 1023"
proof -
  let ?x = "GetRtcmPayloadLength b"
  have "bit ?x n \<Longrightarrow> n < 10" for n
    by (auto simp add: GetRtcmPayloadLength_def bit_or_iff bit_push_bit_iff bit_ucast_iff
        bit_and_iff bit_numeral_rec bit_1_iff dest: bit_imp_le_length split: nat.splits)
  then have "take_bit 10 ?x = ?x"
    by (intro bit_eqI) (auto simp add: bit_take_bit_iff)
  then have "unat ?x = take_bit 10 (unat ?x)"
    by (metis unsigned_take_bit_eq)
  also have "\<dots> < 2 ^ 10" by (rule take_bit_nat_less_exp)
  finally show ?thesis by simp
qed

lemma rtcm_body_Return_bound:
  "rtcm_loop_body b = Return r \<Longrightarrow> length r < 1029 \<and> (r = [] \<or> hd r = kRtcmPreamble)"
proof -
  assume ret: "rtcm_loop_body b = Return r"
  let ?d = "dropWhile (\<lambda>x. x \<noteq> kRtcmPreamble) b"
  have r: "r = ?d" using ret by (rule rtcm_body_Return)
  have "length ?d < 1029"
    using ret GetRtcmPayloadLength_le [of ?d]
    by (auto simp add: rtcm_loop_body_def Let_def simp del: dropWhile_eq_Nil_conv split: if_splits)
  moreover have "?d = [] \<or> hd ?d = kRtcmPreamble"
    using hd_dropWhile [of "\<lambda>x. x \<noteq> kRtcmPreamble" b] by blast
  ultimately show ?thesis by (simp only: r)
qed

lemma rtcm_run_bound:
  "length (fst (rtcm_run b)) < 1029 \<and> (fst (rtcm_run b) = [] \<or> hd (fst (rtcm_run b)) = kRtcmPreamble)"
proof (induction b rule: rtcm.run_induct)
  case (Return b r)
  then show ?case by (simp add: rtcm.run_Return rtcm_body_Return_bound)
next
  case (Continue b r)
  then show ?case by (simp add: rtcm.run_Continue)
next
  case (Publish b m r)
  then show ?case by (simp add: rtcm.run_Publish)
qed

text \<open>
  After any chunk the log buffer holds at most one incomplete frame: fewer than 1029
  octets (header, 1023 octets of payload, CRC), and it is empty or begins with the preamble.  The
  buffer cannot grow without bound, whatever the peer sends.
\<close>

lemma rtcm_buffer_bounded:
  assumes "logRtcmFrames s data = (s', ms)" and "data \<noteq> []"
  shows "length (rtcm_log_buffer s') < 1029
    \<and> (rtcm_log_buffer s' = [] \<or> hd (rtcm_log_buffer s') = kRtcmPreamble)"
  using assms rtcm_run_bound [of "rtcm_log_buffer s @ data"]
  by (auto simp add: logRtcmFrames_run)

section \<open>Every published frame is well formed and none is invented\<close>

definition rtcm_frame_ok :: "rtcm_msg \<Rightarrow> bool" where
  "rtcm_frame_ok m \<longleftrightarrow>
     rtcm_frame_length m = length (rtcm_data m)
     \<and> rtcm_frame_length m = unat (rtcm_payload_length m) + 6
     \<and> rtcm_payload_length m = GetRtcmPayloadLength (rtcm_data m)
     \<and> byte_at (rtcm_data m) 0 = kRtcmPreamble
     \<and> byte_at (rtcm_data m) 1 AND 0xFC = 0
     \<and> ComputeRtcmCrc24q (rtcm_data m) (rtcm_frame_length m - 3)
         = rtcm_expected_crc (rtcm_data m) (rtcm_frame_length m)"

lemma rtcm_body_Publish:
  assumes "rtcm_loop_body b = Publish m r"
  shows "rtcm_frame_ok m" and "b = takeWhile (\<lambda>x. x \<noteq> kRtcmPreamble) b @ rtcm_data m @ r"
proof -
  let ?d = "dropWhile (\<lambda>x. x \<noteq> kRtcmPreamble) b"
  let ?n = "unat (GetRtcmPayloadLength ?d) + 6"
  have d: "3 \<le> length ?d" "?n \<le> length ?d" "byte_at ?d 1 AND 0xFC = 0" "?d \<noteq> []"
    "ComputeRtcmCrc24q ?d (?n - 3) = rtcm_expected_crc ?d ?n"
    "rtcm_data m = take ?n ?d" "rtcm_frame_length m = ?n"
    "rtcm_payload_length m = GetRtcmPayloadLength ?d" "r = drop ?n ?d"
    using assms
    by (auto simp add: rtcm_loop_body_def Let_def simp del: dropWhile_eq_Nil_conv split: if_splits)
  have split: "?d = take ?n ?d @ drop ?n ?d" by simp
  have "byte_at ?d 0 = kRtcmPreamble"
    using d(4) hd_dropWhile [of "\<lambda>x. x \<noteq> kRtcmPreamble" b]
    by (simp add: byte_at_def hd_conv_nth del: dropWhile_eq_Nil_conv)
  moreover have "GetRtcmPayloadLength (take ?n ?d) = GetRtcmPayloadLength ?d"
    by (simp add: GetRtcmPayloadLength_def byte_at_take)
  moreover have "ComputeRtcmCrc24q (take ?n ?d) (?n - 3) = ComputeRtcmCrc24q ?d (?n - 3)"
    by (simp add: ComputeRtcmCrc24q_def min_def)
  moreover have "rtcm_expected_crc (take ?n ?d) ?n = rtcm_expected_crc ?d ?n"
    by (simp add: rtcm_expected_crc_def byte_at_take)
  ultimately show "rtcm_frame_ok m"
    using d by (simp add: rtcm_frame_ok_def byte_at_take)
  show "b = takeWhile (\<lambda>x. x \<noteq> kRtcmPreamble) b @ rtcm_data m @ r"
    by (simp only: d split [symmetric] takeWhile_dropWhile_id)
qed

text \<open>The octets between the published frames, and the frames, in the order of the stream.\<close>

fun rtcm_woven :: "bytes \<Rightarrow> rtcm_msg list \<Rightarrow> bytes \<Rightarrow> bool" where
  "rtcm_woven b [] r \<longleftrightarrow> (\<exists>junk. b = junk @ r)"
| "rtcm_woven b (m # ms) r \<longleftrightarrow> (\<exists>junk b'. b = junk @ rtcm_data m @ b' \<and> rtcm_woven b' ms r)"

lemma rtcm_woven_prefix: "rtcm_woven b ms r \<Longrightarrow> rtcm_woven (junk @ b) ms r"
proof (cases ms)
  case Nil
  then show "rtcm_woven b ms r \<Longrightarrow> ?thesis" by auto
next
  case (Cons m ms')
  then show "rtcm_woven b ms r \<Longrightarrow> ?thesis" by (metis append_assoc rtcm_woven.simps(2))
qed

lemma rtcm_body_Continue_suffix: "rtcm_loop_body b = Continue r \<Longrightarrow> \<exists>junk. b = junk @ r"
proof -
  let ?P = "\<lambda>x. x \<noteq> kRtcmPreamble"
  assume "rtcm_loop_body b = Continue r"
  then have "r = tl (dropWhile ?P b)"
    by (auto simp add: rtcm_loop_body_def Let_def simp del: dropWhile_eq_Nil_conv split: if_splits)
  then have "b = (takeWhile ?P b @ take 1 (dropWhile ?P b)) @ r"
    by (metis One_nat_def append.assoc append_take_drop_id drop_0 drop_Suc takeWhile_dropWhile_id)
  then show ?thesis by blast
qed

lemma rtcm_run_sound:
  "(\<forall>m \<in> set (snd (rtcm_run b)). rtcm_frame_ok m) \<and> rtcm_woven b (snd (rtcm_run b)) (fst (rtcm_run b))"
proof (induction b rule: rtcm.run_induct)
  case (Return b r)
  then have "\<exists>junk. b = junk @ r"
    by (metis rtcm_body_Return takeWhile_dropWhile_id)
  with Return show ?case by (simp add: rtcm.run_Return)
next
  case (Continue b r)
  then show ?case
    using rtcm_body_Continue_suffix [OF Continue(1)]
    by (auto simp add: rtcm.run_Continue rtcm_woven_prefix)
next
  case (Publish b m r)
  then show ?case
    using rtcm_body_Publish [OF Publish(1)] by (auto simp add: rtcm.run_Publish)
qed

text \<open>
  Claim C4.  Every frame handed to \<open>publishRtcm\<close> begins with the preamble, has the length its
  header states, zero reserved bits and a matching CRC; and the frames are disjoint pieces of the
  stream, in stream order: no octet is reordered, duplicated or made up.
\<close>

theorem rtcm_published_sound:
  assumes "logRtcmFrames s data = (s', ms)" and "data \<noteq> []"
  shows "(\<forall>m \<in> set ms. rtcm_frame_ok m)
    \<and> rtcm_woven (rtcm_log_buffer s @ data) ms (rtcm_log_buffer s')"
  using assms rtcm_run_sound [of "rtcm_log_buffer s @ data"]
  by (auto simp add: logRtcmFrames_run)

section \<open>Streams of valid frames are recovered\<close>

text \<open>The RTCM 3 transport frame of a payload, as a caster sends it.\<close>

definition rtcm_encode_header :: "bytes \<Rightarrow> bytes" where
  "rtcm_encode_header p =
     kRtcmPreamble # ucast (drop_bit 8 (of_nat (length p) :: u16)) # ucast (of_nat (length p) :: u16) # p"

definition rtcm_encode :: "bytes \<Rightarrow> bytes" where
  "rtcm_encode p =
     (let h = rtcm_encode_header p; c = ComputeRtcmCrc24q h (length h)
      in h @ [ucast (drop_bit 16 c), ucast (drop_bit 8 c), ucast c])"

lemma length_rtcm_encode [simp]: "length (rtcm_encode p) = length p + 6"
  by (simp add: rtcm_encode_def rtcm_encode_header_def Let_def)

lemma bit_of_nat_1023: "n \<le> 1023 \<Longrightarrow> bit (of_nat n :: u16) k \<Longrightarrow> k < 10"
proof -
  assume n: "n \<le> 1023" and bit: "bit (of_nat n :: u16) k"
  have "take_bit 10 n = n"
    using n by (simp add: take_bit_nat_eq_self)
  then show "k < 10"
    using bit by (metis bit_of_nat_iff bit_take_bit_iff)
qed

lemma rtcm_length_high:
  assumes "n \<le> 1023"
  shows "(ucast (drop_bit 8 (of_nat n :: u16)) :: u8) AND 0xFC = 0"
proof (rule bit_eqI)
  fix k
  have "bit (252 :: u8) k \<Longrightarrow> 2 \<le> k"
    by (auto simp add: bit_numeral_rec split: nat.splits)
  then show "bit ((ucast (drop_bit 8 (of_nat n :: u16)) :: u8) AND 0xFC) k = bit 0 k"
    using bit_of_nat_1023 [OF assms, of "8 + k"]
    by (auto simp add: bit_and_iff bit_ucast_iff bit_drop_bit_eq)
qed

lemma rtcm_length_roundtrip:
  assumes "n \<le> 1023"
  shows "push_bit 8 (ucast ((ucast (drop_bit 8 (of_nat n :: u16)) :: u8) AND 0x03))
     OR ucast (ucast (of_nat n :: u16) :: u8) = (of_nat n :: u16)"
proof -
  define w :: u16 where "w = of_nat n"
  have w: "bit w k \<Longrightarrow> k < 10" for k
    using bit_of_nat_1023 [OF assms] by (simp add: w_def)
  have "push_bit 8 (ucast ((ucast (drop_bit 8 w) :: u8) AND 0x03)) OR ucast (ucast w :: u8) = w"
  proof (rule bit_eqI)
    fix k
    consider "k < 8" | "k = (8 :: nat)" | "k = 9" | "10 \<le> k" by linarith
    then show "bit (push_bit 8 (ucast ((ucast (drop_bit 8 w) :: u8) AND 0x03))
        OR ucast (ucast w :: u8) :: u16) k = bit w k"
      using w [of k]
      by cases (auto simp add: bit_or_iff bit_push_bit_iff bit_and_iff bit_ucast_iff
          bit_drop_bit_eq bit_numeral_rec bit_1_iff split: nat.splits)
  qed
  then show ?thesis by (simp only: w_def)
qed

lemma crc_bytes_roundtrip:
  assumes "fits24 c"
  shows "push_bit 16 (ucast (ucast (drop_bit 16 c) :: u8))
     OR push_bit 8 (ucast (ucast (drop_bit 8 c) :: u8)) OR ucast (ucast c :: u8) = c"
proof (rule bit_eqI)
  fix k
  show "bit (push_bit 16 (ucast (ucast (drop_bit 16 c) :: u8))
     OR push_bit 8 (ucast (ucast (drop_bit 8 c) :: u8)) OR ucast (ucast c :: u8) :: u32) k = bit c k"
    using assms [unfolded fits24_iff, rule_format, of k]
    by (cases "k < 16"; cases "k < 24")
      (auto simp add: bit_or_iff bit_push_bit_iff bit_ucast_iff bit_drop_bit_eq
        dest: bit_imp_le_length)
qed

lemma rtcm_body_encode:
  assumes "length p \<le> 1023"
  shows "\<exists>m. rtcm_loop_body (rtcm_encode p) = Publish m [] \<and> rtcm_data m = rtcm_encode p
     \<and> rtcm_frame_length m = length p + 6
     \<and> rtcm_payload_length m = of_nat (length p)"
proof -
  let ?h = "rtcm_encode_header p" and ?n = "length p"
  let ?c = "ComputeRtcmCrc24q ?h (length ?h)"
  have enc: "rtcm_encode p = ?h @ [ucast (drop_bit 16 ?c), ucast (drop_bit 8 ?c), ucast ?c]"
    by (simp add: rtcm_encode_def Let_def)
  have lh: "length ?h = ?n + 3" by (simp add: rtcm_encode_header_def)
  have len: "GetRtcmPayloadLength (rtcm_encode p) = of_nat ?n"
    using rtcm_length_roundtrip [OF assms]
    by (simp add: GetRtcmPayloadLength_def enc rtcm_encode_header_def byte_at_def)
  have ulen: "unat (of_nat ?n :: u16) = ?n"
    using assms by (simp add: unat_of_nat)
  have small: "\<not> (of_nat ?n > kRtcmMaxPayloadLength)"
    using assms by (simp add: kRtcmMaxPayloadLength_def word_less_nat_alt ulen)
  have res: "byte_at (rtcm_encode p) 1 AND 0xFC = 0"
    using rtcm_length_high [OF assms] by (simp add: enc rtcm_encode_header_def byte_at_def)
  have "fits24 ?c"
    by (simp add: ComputeRtcmCrc24q_foldl fits24_foldl)
  then have "rtcm_expected_crc (rtcm_encode p) (?n + 6) = ?c"
    using crc_bytes_roundtrip by (simp add: rtcm_expected_crc_def enc byte_at_append lh)
  moreover have "ComputeRtcmCrc24q (rtcm_encode p) (3 + ?n) = ?c"
    by (simp add: enc ComputeRtcmCrc24q_append lh add.commute)
  moreover have "dropWhile (\<lambda>x. x \<noteq> kRtcmPreamble) (rtcm_encode p) = rtcm_encode p"
    by (simp add: enc rtcm_encode_header_def)
  moreover have "rtcm_encode p \<noteq> []" by (simp add: enc)
  ultimately show ?thesis
    using res small by (simp add: rtcm_loop_body_def Let_def len ulen)
qed

lemma rtcm_body_junk:
  "kRtcmPreamble \<notin> set j \<Longrightarrow> rtcm_loop_body (j @ b) = rtcm_loop_body b"
proof -
  assume "kRtcmPreamble \<notin> set j"
  then have "dropWhile (\<lambda>x. x \<noteq> kRtcmPreamble) (j @ b) = dropWhile (\<lambda>x. x \<noteq> kRtcmPreamble) b"
    by (intro dropWhile_append2) auto
  then show ?thesis by (simp only: rtcm_loop_body_def)
qed

lemma rtcm_run_Nil [simp]: "rtcm_run [] = ([], [])"
  by (simp add: rtcm.run_Return rtcm_loop_body_def)

lemma rtcm_run_encoded:
  assumes "\<forall>(j, p) \<in> set jps. kRtcmPreamble \<notin> set j \<and> length p \<le> 1023"
  shows "fst (rtcm_run (concat (map (\<lambda>(j, p). j @ rtcm_encode p) jps))) = []
    \<and> map rtcm_data (snd (rtcm_run (concat (map (\<lambda>(j, p). j @ rtcm_encode p) jps))))
        = map (rtcm_encode \<circ> snd) jps"
  using assms
proof (induction jps)
  case Nil
  then show ?case by simp
next
  case (Cons jp jps)
  obtain j p where jp: "jp = (j, p)" by fastforce
  let ?rest = "concat (map (\<lambda>(j, p). j @ rtcm_encode p) jps)"
  from Cons.prems jp obtain m where m: "rtcm_loop_body (rtcm_encode p) = Publish m []"
    "rtcm_data m = rtcm_encode p"
    using rtcm_body_encode [of p] by auto
  then have "rtcm_loop_body (j @ rtcm_encode p @ ?rest) = Publish m ?rest"
    using Cons.prems jp rtcm_body_Publish_append [OF m(1), of ?rest]
    by (simp add: rtcm_body_junk)
  then have "rtcm_run (j @ rtcm_encode p @ ?rest)
      = (fst (rtcm_run ?rest), m # snd (rtcm_run ?rest))"
    by (simp add: rtcm.run_Publish)
  then show ?case
    using Cons jp m(2) by simp
qed

text \<open>
  Claim C3.  A stream made of valid RTCM frames, with any octets other than the preamble between
  them, is recovered exactly: each frame is published once, in order, unchanged, and nothing is left
  in the buffer.
\<close>

theorem rtcm_stream_recovered:
  assumes "\<forall>(j, p) \<in> set jps. kRtcmPreamble \<notin> set j \<and> length p \<le> 1023"
    and "rtcm_log_buffer s = []"
    and "logRtcmFrames s (concat (map (\<lambda>(j, p). j @ rtcm_encode p) jps)) = (s', ms)"
  shows "map rtcm_data ms = map (rtcm_encode \<circ> snd) jps \<and> rtcm_log_buffer s' = []
    \<and> rtcm_frame_count s' = rtcm_frame_count s + of_nat (length jps)"
proof (cases "concat (map (\<lambda>(j, p). j @ rtcm_encode p) jps) = []")
  case True
  have "jps = []"
  proof (rule ccontr)
    assume "jps \<noteq> []"
    with True have "rtcm_encode (snd (hd jps)) = []" by (cases jps) auto
    then show False using length_rtcm_encode [of "snd (hd jps)"] by simp
  qed
  with assms show ?thesis by (auto simp add: logRtcmFrames_def)
next
  case False
  note run = rtcm_run_encoded [OF assms(1)]
  from run have "length (snd (rtcm_run (concat (map (\<lambda>(j, p). j @ rtcm_encode p) jps)))) = length jps"
    by (metis length_map)
  with run False assms(2,3) show ?thesis by (auto simp add: logRtcmFrames_run)
qed

section \<open>Witnesses\<close>

lemma rtcm_buffer_bounded_witness:
  "length (rtcm_log_buffer (fst (logRtcmFrames rtcm_init [7, 0xD3, 0, 5, 9]))) < 1029"
  using rtcm_buffer_bounded [of rtcm_init "[7, 0xD3, 0, 5, 9]", OF surjective_pairing] by simp

theorem rtcm_published_sound_witness:
  "rtcm_woven [7, 0xD3, 0, 5, 9] (snd (logRtcmFrames rtcm_init [7, 0xD3, 0, 5, 9]))
     (rtcm_log_buffer (fst (logRtcmFrames rtcm_init [7, 0xD3, 0, 5, 9])))"
  using rtcm_published_sound [of rtcm_init "[7, 0xD3, 0, 5, 9]", OF surjective_pairing]
  by (simp add: rtcm_init_def)

theorem rtcm_stream_recovered_witness:
  "map rtcm_data (snd (logRtcmFrames rtcm_init
      (rtcm_encode [0x4C, 0xE0, 0] @ [0x0A] @ rtcm_encode [])))
     = [rtcm_encode [0x4C, 0xE0, 0], rtcm_encode []]"
  using rtcm_stream_recovered [of "[([], [0x4C, 0xE0, 0]), ([0x0A], [])]" rtcm_init,
      OF _ _ surjective_pairing]
  by (simp add: rtcm_init_def kRtcmPreamble_def)

end
