(* ===== verification/Nav_BDS.thy ===== *)
theory Nav_BDS
  imports Nav_Common
begin

text \<open>
  BeiDou: \<open>decode_BDS_subframe\<close> collects subframes (D1, IGSO and MEO satellites) or pages of subframe
  1 (D2, geostationary satellites), 38 octets each, and hands complete sets to the two decoders.
\<close>

section \<open>Helpers\<close>

definition to_u32 :: "f64 \<Rightarrow> u32" where
  "to_u32 x = word_of_int (to_i64 x)"

abbreviation u32_f64 :: "u32 \<Rightarrow> f64" where
  "u32_f64 w \<equiv> f64_int (uint w)"

text \<open>\<open>getbits(...) * 0.1 * 1E-9\<close>.\<close>

definition bds_tgd :: "int \<Rightarrow> f64" where
  "bds_tgd n = fmul (scale n (f64_dec 1 (- 1))) (f64_dec 1 (- 9))"

abbreviation sc2rad :: "int \<Rightarrow> f64 \<Rightarrow> f64" where
  "sc2rad n p \<equiv> fmul (scale n p) SC2RAD"

text \<open>BeiDou time is 14 s behind GPS time.\<close>

definition bdt_plus14 :: "u32 \<Rightarrow> f64 \<Rightarrow> gtime" where
  "bdt_plus14 wk tow = time_add (bdt2time (sint wk) tow) (f64_int 14)"

section \<open>D1\<close>

record bds_d1 =
  d1_frn :: "u32 list"
  d1_sow :: "u32 list"
  d1_week :: u32
  d1_toc :: f64
  d1_toes :: u32
  d1_iono :: "f64 list"

text \<open>Subframe 1, with the eight ionosphere parameters.\<close>

definition bds_d1_iono :: "bytes \<Rightarrow> f64 list" where
  "bds_d1_iono b =
     [scale (getbits b 126 8) P2_30, scale (getbits b 134 8) P2_27,
      scale (getbits b 150 8) P2_24, scale (getbits b 158 8) P2_24,
      f64_int (getbits2 b 166 6 180 2 * 2 ^ 11), f64_int (getbits b 182 8 * 2 ^ 14),
      f64_int (getbits b 190 8 * 2 ^ 16), f64_int (getbits2 b 198 4 210 4 * 2 ^ 16)]"

definition bds_d1_subframe1 :: "bytes \<Rightarrow> ephem \<Rightarrow> ephem" where
  "bds_d1_subframe1 b e =
     (let urai = ucast (getbitu b 48 4) :: u8 in
      e\<lparr>health := getbitu b 42 1, iodc := getbitu b 43 5, ura := ura_of_index urai,
        tgd0 := bds_tgd (getbits b 98 10), tgd1 := bds_tgd (getbits2 b 108 4 120 6),
        af2 := scale (getbits b 214 11) P2_66, af0 := scale (getbits2 b 225 7 240 17) P2_33,
        af1 := scale (getbits2 b 257 5 270 17) P2_50, iode := getbitu b 287 5\<rparr>)"

definition bds_d1_subframe2 :: "bytes \<Rightarrow> nat \<Rightarrow> ephem \<Rightarrow> ephem" where
  "bds_d1_subframe2 b i e =
     (let sqrtA = scale (uint (getbitu2 b (i + 250) 12 (i + 270) 20)) P2_19 in
      e\<lparr>delta_n := sc2rad (getbits2 b (i + 42) 10 (i + 60) 6) P2_43,
        cuc := scale (getbits2 b (i + 66) 16 (i + 90) 2) P2_31,
        m0 := sc2rad (getbits2 b (i + 92) 20 (i + 120) 12) P2_31,
        eph_e := scale (uint (getbitu2 b (i + 132) 10 (i + 150) 22)) P2_33,
        cus := scale (getbits b (i + 180) 18) P2_31,
        eph_crc := scale (getbits2 b (i + 198) 4 (i + 210) 14) P2_6,
        crs := scale (getbits2 b (i + 224) 8 (i + 240) 10) P2_6,
        eph_a := fmul sqrtA sqrtA\<rparr>)"

definition bds_d1_subframe3 :: "bytes \<Rightarrow> nat \<Rightarrow> ephem \<Rightarrow> ephem" where
  "bds_d1_subframe3 b i e =
     e\<lparr>i0 := sc2rad (getbits2 b (i + 65) 17 (i + 90) 15) P2_31,
       cic := scale (getbits2 b (i + 105) 7 (i + 120) 11) P2_31,
       omg_dot := sc2rad (getbits2 b (i + 131) 11 (i + 150) 13) P2_43,
       cis := scale (getbits2 b (i + 163) 9 (i + 180) 9) P2_31,
       i_dot := sc2rad (getbits2 b (i + 189) 13 (i + 210) 1) P2_43,
       omg0 := sc2rad (getbits2 b (i + 211) 21 (i + 240) 11) P2_31,
       omg := sc2rad (getbits2 b (i + 251) 11 (i + 270) 21) P2_31\<rparr>"

text \<open>The local variables that the consistency checks and the times use.\<close>

definition bds_d1_locals :: "bytes \<Rightarrow> bds_d1" where
  "bds_d1_locals b =
     (let j = 8 * 38 * 1; k = 8 * 38 * 2;
          toe1 = getbitu b (j + 290) 2; toe2 = getbitu2 b (k + 42) 10 (k + 60) 5
      in \<lparr>d1_frn = [getbitu b 15 3, getbitu b (j + 15) 3, getbitu b (k + 15) 3],
          d1_sow = [getbitu2 b 18 8 30 12, getbitu2 b (j + 18) 8 (j + 30) 12, getbitu2 b (k + 18) 8 (k + 30) 12],
          d1_week = getbitu b 60 13,
          d1_toc = scale (uint (getbitu2 b 73 9 90 8)) (f64_int 8),
          d1_toes = to_u32 (scale (uint (merge_two_u toe1 toe2 15)) (f64_int 8)),
          d1_iono = bds_d1_iono b\<rparr>)"

definition bds_d1_checks :: "bds_d1 \<Rightarrow> bool" where
  "bds_d1_checks v \<longleftrightarrow> d1_frn v = [1, 2, 3]
     \<and> d1_sow v ! 1 = d1_sow v ! 0 + 6 \<and> d1_sow v ! 2 = d1_sow v ! 1 + 6
     \<and> feq (d1_toc v) (u32_f64 (d1_toes v))"

definition bds_d1_times :: "bds_d1 \<Rightarrow> ephem \<Rightarrow> ephem" where
  "bds_d1_times v e =
     (let sow1 = u32_f64 (d1_sow v ! 0); toes = u32_f64 (d1_toes v);
          e = e\<lparr>ttr := bdt_plus14 (d1_week v) sow1\<rparr>;
          wk = (if flt (fadd sow1 half_week) toes then d1_week v - 1
                else if flt toes (fsub sow1 half_week) then d1_week v + 1
                else d1_week v);
          t = bdt_plus14 wk toes;
          (w, tow) = time2gpst t
      in e\<lparr>toe := t, toe_tow := tow, week := w, toc := bdt_plus14 wk (d1_toc v), eph_code := 0\<rparr>)"

text \<open>Result: return code, ephemeris, ionosphere parameters and receiver time.\<close>

definition decode_BDS_D1_ephem ::
  "bytes \<Rightarrow> gtime \<Rightarrow> ephem \<Rightarrow> f64 list \<Rightarrow> int \<times> ephem \<times> f64 list \<times> gtime" where
  "decode_BDS_D1_ephem b now e iono =
     (let e = bds_d1_subframe3 b (8 * 38 * 2) (bds_d1_subframe2 b (8 * 38 * 1) (bds_d1_subframe1 b e));
          v = bds_d1_locals b
      in if \<not> bds_d1_checks v then (- 1, e, iono, now)
         else let e = bds_d1_times v e in (0, e, d1_iono v, ttr e))"

section \<open>D2\<close>

definition bds_page :: "nat \<Rightarrow> nat" where
  "bds_page n = 8 * 38 * (n - 1)"

definition d2_pgn :: "bytes \<Rightarrow> nat \<Rightarrow> u32" where
  "d2_pgn b n = getbitu b (bds_page n + 42) 4"

definition d2_sow :: "bytes \<Rightarrow> nat \<Rightarrow> u32" where
  "d2_sow b n = getbitu2 b (bds_page n + 18) 8 (bds_page n + 30) 12"

definition d2_toc :: "bytes \<Rightarrow> f64" where
  "d2_toc b = scale (uint (getbitu2 b 77 5 90 12)) (f64_int 8)"

definition d2_toes :: "bytes \<Rightarrow> u32" where
  "d2_toes b =
     to_u32 (scale (uint (getbitu2 b (bds_page 7 + 80) 2 (bds_page 7 + 90) 15)) (f64_int 8))"

definition bds_d2_pages :: "bytes \<Rightarrow> ephem \<Rightarrow> ephem" where
  "bds_d2_pages b e =
     (let urai = ucast (getbitu b 60 4) :: u8;
          p3 = bds_page 3; p4 = bds_page 4; p5 = bds_page 5; p6 = bds_page 6; p7 = bds_page 7;
          p8 = bds_page 8; p9 = bds_page 9; p10 = bds_page 10;
          sqrtA = scale (uint (getbitu3 b (p6 + 76) 6 (p6 + 90) 22 (p6 + 120) 4)) P2_19
      in e\<lparr>health := getbitu b 46 1, iodc := getbitu b 47 5, ura := ura_of_index urai,
           tgd0 := bds_tgd (getbits b 102 10), tgd1 := bds_tgd (getbits b 120 10),
           af0 := scale (getbits2 b (p3 + 100) 12 (p3 + 120) 12) P2_33,
           af2 := scale (getbits2 b (p4 + 72) 10 (p4 + 90) 1) P2_66,
           iode := getbitu b (p4 + 91) 5,
           delta_n := sc2rad (getbits b (p4 + 96) 16) P2_43,
           m0 := sc2rad (getbits3 b (p5 + 50) 2 (p5 + 60) 22 (p5 + 90) 8) P2_31,
           cus := scale (getbits2 b (p5 + 98) 14 (p5 + 120) 4) P2_31,
           eph_a := fmul sqrtA sqrtA,
           cis := scale (getbits b (p7 + 62) 18) P2_31,
           eph_crc := scale (getbits2 b (p8 + 65) 17 (p8 + 90) 1) P2_6,
           crs := scale (getbits b (p8 + 91) 18) P2_6,
           omg0 := sc2rad (getbits3 b (p9 + 51) 1 (p9 + 60) 22 (p9 + 90) 9) P2_31,
           i_dot := sc2rad (getbits2 b (p10 + 51) 1 (p10 + 60) 13) P2_43\<rparr>)"

text \<open>The fields that straddle two pages; the second part passes through \<open>uint8_t\<close>.\<close>

definition bds_d2_merged :: "bytes \<Rightarrow> ephem \<Rightarrow> ephem" where
  "bds_d2_merged b e =
     (let f1p3 = getbits b (bds_page 3 + 132) 4;
          f1p4 = getbitu2 b (bds_page 4 + 46) 6 (bds_page 4 + 60) 12;
          cucp4 = getbits b (bds_page 4 + 120) 14;
          cucp5 = getbitu b (bds_page 5 + 46) 4;
          ep5 = getbits b (bds_page 5 + 124) 10;
          ep6 = getbitu2 b (bds_page 6 + 46) 6 (bds_page 6 + 60) 16;
          cicp6 = getbits b (bds_page 6 + 124) 10;
          cicp7 = getbitu2 b (bds_page 7 + 46) 6 (bds_page 7 + 60) 2;
          i0p7 = getbits2 b (bds_page 7 + 105) 7 (bds_page 7 + 120) 14;
          i0p8 = getbitu2 b (bds_page 8 + 46) 6 (bds_page 8 + 60) 5;
          OMGdp8 = getbits2 b (bds_page 8 + 109) 3 (bds_page 8 + 120) 16;
          OMGdp9 = getbitu b (bds_page 9 + 46) 5;
          omgp9 = getbits2 b (bds_page 9 + 99) 13 (bds_page 9 + 120) 14;
          omgp10 = getbitu b (bds_page 10 + 46) 5
      in e\<lparr>af1 := scale (merge_two_s f1p3 (ucast f1p4) 18) P2_50,
           cuc := scale (merge_two_s cucp4 (ucast cucp5) 4) P2_31,
           eph_e := scale (merge_two_s ep5 (ucast ep6) 22) P2_33,
           cic := scale (merge_two_s cicp6 (ucast cicp7) 8) P2_31,
           i0 := sc2rad (merge_two_s i0p7 (ucast i0p8) 11) P2_31,
           omg_dot := sc2rad (merge_two_s OMGdp8 (ucast OMGdp9) 5) P2_43,
           omg := sc2rad (merge_two_s omgp9 (ucast omgp10) 5) P2_31\<rparr>)"

definition bds_d2_checks :: "bytes \<Rightarrow> bool" where
  "bds_d2_checks b \<longleftrightarrow>
     (\<forall>n \<in> set [1, 3, 4, 5, 6, 7, 8, 9, 10]. d2_pgn b n = word_of_nat n)
     \<and> d2_sow b 3 = d2_sow b 1 + 6
     \<and> (\<forall>n \<in> set [4, 5, 6, 7, 8, 9, 10]. d2_sow b n = d2_sow b (n - 1) + 3)
     \<and> feq (d2_toc b) (u32_f64 (d2_toes b))"

definition bds_d2_times :: "bytes \<Rightarrow> ephem \<Rightarrow> ephem" where
  "bds_d2_times b e =
     (let bdt_week = getbitu b 64 13;
          sow1 = u32_f64 (d2_sow b 1); toes = u32_f64 (d2_toes b);
          e = e\<lparr>ttr := bdt_plus14 bdt_week sow1\<rparr>;
          wk = (if flt (fadd sow1 half_week) toes then bdt_week + 1
                else if flt toes (fsub sow1 half_week) then bdt_week - 1
                else bdt_week);
          t = bdt_plus14 wk toes;
          (w, tow) = time2gpst t
      in e\<lparr>toe := t, toe_tow := tow, week := w, toc := bdt_plus14 wk (d2_toc b), eph_code := 0\<rparr>)"

definition decode_BDS_D2_ephem :: "bytes \<Rightarrow> gtime \<Rightarrow> ephem \<Rightarrow> int \<times> ephem \<times> gtime" where
  "decode_BDS_D2_ephem b now e =
     (let e = bds_d2_pages b e in
      if \<not> bds_d2_checks b then (- 1, e, now)
      else let e = bds_d2_times b (bds_d2_merged b e) in (0, e, ttr e))"

section \<open>Subframes\<close>

definition bds_words :: "bytes \<Rightarrow> u32 list" where
  "bds_words msg = map (\<lambda>i. le32 msg (14 + 4 * i) AND 0x3FFFFFFF) [0..<10]"

definition bds_id :: "bytes \<Rightarrow> u32" where
  "bds_id msg = drop_bit 12 (bds_words msg ! 0) AND 0x07"

definition bds_pgn :: "bytes \<Rightarrow> u32" where
  "bds_pgn msg = drop_bit 14 (bds_words msg ! 1) AND 0x0F"

definition bds_flag :: "ubx_state \<Rightarrow> u32 \<Rightarrow> u8" where
  "bds_flag st sat = bds_d1_subfrm_flags st ! (unat sat - 1)"

definition set_bds_flag :: "ubx_state \<Rightarrow> u32 \<Rightarrow> u8 \<Rightarrow> ubx_state" where
  "set_bds_flag st sat f =
     st\<lparr>bds_d1_subfrm_flags := (bds_d1_subfrm_flags st)[unat sat - 1 := f]\<rparr>"

text \<open>The D1 branch once the id is known to be 1 to 5.\<close>

definition bds_d1_branch ::
  "ubx_state \<Rightarrow> bytes \<Rightarrow> ephem \<Rightarrow> f64 list \<Rightarrow> int \<times> ubx_state \<times> ephem \<times> f64 list" where
  "bds_d1_branch st msg e iono =
     (let sat = eph_sat e; k = unat (bds_id msg) - 1;
          st = set_row st sat (store_words (sat_row st sat) (k * 38) 30 (bds_words msg));
          st = set_bds_flag st sat (bds_flag st sat OR push_bit k 1)
      in if bds_flag st sat \<noteq> 0x07 then (0, st, e, iono)
         else (case decode_BDS_D1_ephem (sat_row st sat) (curr_time st) e iono of
           (rc, e', iono', now) \<Rightarrow>
             let st = set_bds_flag (st\<lparr>curr_time := now\<rparr>) sat 0;
                 st = (if rc \<noteq> 0 then set_row st sat (store_at (sat_row st sat) 0 (replicate (38 * 3) 0))
                       else st)
             in (rc, st, e', iono')))"

definition bds_d2_branch :: "ubx_state \<Rightarrow> bytes \<Rightarrow> ephem \<Rightarrow> int \<times> ubx_state \<times> ephem" where
  "bds_d2_branch st msg e =
     (if bds_id msg \<noteq> 1 then (- 1, st, e)
      else if bds_pgn msg < 1 \<or> 10 < bds_pgn msg then (- 1, st, e)
      else
        let sat = eph_sat e; k = unat (bds_pgn msg) - 1;
            st = set_row st sat (store_words (sat_row st sat) (k * 38) 30 (bds_words msg))
        in if bds_pgn msg \<noteq> 10 then (- 1, st, e)
           else (case decode_BDS_D2_ephem (sat_row st sat) (curr_time st) e of
             (rc, e', now) \<Rightarrow> (rc, st\<lparr>curr_time := now\<rparr>, e')))"

definition decode_BDS_subframe ::
  "ubx_state \<Rightarrow> bytes \<Rightarrow> nat \<Rightarrow> ephem \<Rightarrow> f64 list \<Rightarrow> int \<times> ubx_state \<times> ephem \<times> f64 list" where
  "decode_BDS_subframe st msg len e iono =
     (if len < 56 then (- 1, st, e, iono)
      else if bds_id msg < 1 \<or> 5 < bds_id msg then (- 1, st, e, iono)
      else let prn = snd (satsys (eph_sat e)) in
        if prn > 5 \<and> prn < 59 then bds_d1_branch st msg e iono
        else (case bds_d2_branch st msg e of (rc, st', e') \<Rightarrow> (rc, st', e', iono)))"

section \<open>Consistency gates\<close>

lemma length_bds_d1_iono [simp]: "length (bds_d1_iono b) = 8"
  by (simp add: bds_d1_iono_def)

text \<open>
  The BeiDou D1 decoder accepts exactly the consistent sets: subframe ids 1, 2, 3, seconds
  of week six apart, and equal reference times of clock and ephemeris.  Only then do the eight
  ionosphere parameters come out and is the receiver time set; otherwise both keep their value.
\<close>

lemma decode_BDS_D1_gate:
  assumes "decode_BDS_D1_ephem b now e iono = (rc, e', iono', now')"
  shows "(rc = 0 \<longleftrightarrow> bds_d1_checks (bds_d1_locals b))
    \<and> (rc = 0 \<longrightarrow> iono' = bds_d1_iono b \<and> length iono' = 8 \<and> now' = ttr e')
    \<and> (rc \<noteq> 0 \<longrightarrow> rc = - 1 \<and> iono' = iono \<and> now' = now)"
proof -
  have iono: "d1_iono (bds_d1_locals b) = bds_d1_iono b" by (simp add: bds_d1_locals_def Let_def)
  from assms show ?thesis
    by (auto simp add: decode_BDS_D1_ephem_def Let_def iono split: if_splits)
qed

section \<open>The D1 flags\<close>

definition flag_stuck :: "u8 \<Rightarrow> bool" where
  "flag_stuck f \<longleftrightarrow> bit f 3 \<or> bit f 4"

lemma flag_stuck_or: "flag_stuck f \<Longrightarrow> flag_stuck (f OR g)"
  by (auto simp add: flag_stuck_def bit_or_iff)

lemma flag_stuck_not_7: "flag_stuck f \<Longrightarrow> f \<noteq> 0x07"
  by (auto simp add: flag_stuck_def bit_numeral_rec)

lemma bds_flag_set [simp]:
  "length (bds_d1_subfrm_flags st) = 160 \<Longrightarrow> sat \<noteq> 0 \<Longrightarrow> sat \<le> MAX_SAT \<Longrightarrow> bds_flag (set_bds_flag st sat f) sat = f"
proof -
  assume a: "length (bds_d1_subfrm_flags st) = 160" "sat \<noteq> 0" "sat \<le> MAX_SAT"
  have "unat sat - 1 < 160" using a(3) by (auto simp add: prn_defs word_le_nat_alt)
  with a(1) show ?thesis by (simp add: bds_flag_def set_bds_flag_def)
qed

lemma bds_flag_frame [simp]:
  "bds_flag (set_row st sat r) sat' = bds_flag st sat'"
  "bds_flag (st\<lparr>curr_time := t\<rparr>) sat' = bds_flag st sat'"
  "bds_d1_subfrm_flags (set_row st sat r) = bds_d1_subfrm_flags st"
  "length (bds_d1_subfrm_flags (set_bds_flag st sat f)) = length (bds_d1_subfrm_flags st)"
  "curr_time (set_bds_flag st sat f) = curr_time st"
  "curr_time (set_row st sat r) = curr_time st"
  "sat_row (set_bds_flag st sat f) sat' = sat_row st sat'"
  by (simp_all add: bds_flag_def set_row_def set_bds_flag_def sat_row_def)

lemma ubx_inv_set_bds_flag [simp]: "ubx_inv st \<Longrightarrow> ubx_inv (set_bds_flag st sat f)"
  by (simp add: ubx_inv_def set_bds_flag_def)

lemma ubx_inv_flags [simp]: "ubx_inv st \<Longrightarrow> length (bds_d1_subfrm_flags st) = 160"
  by (simp add: ubx_inv_def)

lemma bds_d1_branch_stuck:
  assumes "ubx_inv st" and "eph_sat e \<noteq> 0" and "eph_sat e \<le> MAX_SAT" and "flag_stuck (bds_flag st (eph_sat e))"
  shows "\<exists>st'. bds_d1_branch st msg e iono = (0, st', e, iono) \<and> ubx_inv st' \<and> curr_time st' = curr_time st
    \<and> flag_stuck (bds_flag st' (eph_sat e))"
proof -
  let ?k = "unat (bds_id msg) - 1"
  let ?f = "bds_flag st (eph_sat e) OR push_bit ?k 1"
  have f: "flag_stuck ?f" "?f \<noteq> 0x07"
    using flag_stuck_or [OF assms(4)] flag_stuck_not_7 by blast+
  have row: "length (sat_row st (eph_sat e)) = row_len"
    using assms(1-3) by (rule ubx_inv_row)
  show ?thesis
    using f assms(1-3) row by (simp add: bds_d1_branch_def Let_def del: push_bit_of_1)
qed

text \<open>A sequence of messages for one D1 satellite; \<open>parse_subframe\<close> makes a fresh ephemeris for each.\<close>

fun bds_d1_messages :: "ubx_state \<Rightarrow> u32 \<Rightarrow> (bytes \<times> nat) list \<Rightarrow> ubx_state \<times> ephem list" where
  "bds_d1_messages st sat [] = (st, [])"
| "bds_d1_messages st sat ((msg, len) # ms) =
     (case decode_BDS_subframe st msg len (new_ephem sat) [] of
        (rc, st', e', iono) \<Rightarrow>
          (let (st'', es) = bds_d1_messages st' sat ms in (st'', e' # es)))"

definition bds_d1_sat :: "u32 \<Rightarrow> bool" where
  "bds_d1_sat sat \<longleftrightarrow> fst (satsys sat) = SYS_BDS \<and> 5 < snd (satsys sat) \<and> snd (satsys sat) < 59"

lemma bds_d1_sat_range: "bds_d1_sat sat \<Longrightarrow> sat \<noteq> 0 \<and> sat \<le> MAX_SAT"
  by (auto simp add: bds_d1_sat_def satsys_def sys_defs not_less split: if_splits)

lemma new_ephem_sat [simp]: "eph_sat (new_ephem sat) = sat" "gt_time (ttr (new_ephem sat)) = 0"
  by (simp_all add: new_ephem_def gtime0_def)

lemma bds_d1_messages_stuck:
  assumes "ubx_inv st" and "bds_d1_sat sat" and "flag_stuck (bds_flag st sat)"
  shows "(\<forall>e \<in> set (snd (bds_d1_messages st sat ms)). e = new_ephem sat)
    \<and> curr_time (fst (bds_d1_messages st sat ms)) = curr_time st"
  using assms(1,3)
proof (induction ms arbitrary: st)
  case (Cons m ms)
  obtain msg len where m: "m = (msg, len)" by (cases m) auto
  have range: "sat \<noteq> 0" "sat \<le> MAX_SAT" using bds_d1_sat_range [OF assms(2)] by auto
  obtain st' where st': "bds_d1_branch st msg (new_ephem sat) [] = (0, st', new_ephem sat, [])"
    "ubx_inv st'" "curr_time st' = curr_time st" "flag_stuck (bds_flag st' sat)"
    using bds_d1_branch_stuck [of st "new_ephem sat" msg "[]"] Cons.prems range by auto
  have prn: "5 < snd (satsys sat)" "snd (satsys sat) < 59" using assms(2) by (auto simp add: bds_d1_sat_def)
  have "\<exists>rc st1. decode_BDS_subframe st msg len (new_ephem sat) [] = (rc, st1, new_ephem sat, []) \<and> ubx_inv st1
      \<and> curr_time st1 = curr_time st \<and> flag_stuck (bds_flag st1 sat)"
    using st' prn Cons.prems by (auto simp add: decode_BDS_subframe_def Let_def)
  then obtain rc st1 where "decode_BDS_subframe st msg len (new_ephem sat) [] = (rc, st1, new_ephem sat, [])"
    "ubx_inv st1" "curr_time st1 = curr_time st" "flag_stuck (bds_flag st1 sat)"
    by blast
  with Cons.IH [of st1] show ?case
    by (auto simp add: m split_beta)
qed simp

lemma bds_d1_branch_sets:
  assumes "ubx_inv st" and "eph_sat e \<noteq> 0" and "eph_sat e \<le> MAX_SAT" and "bds_id msg = 4 \<or> bds_id msg = 5"
  shows "\<exists>st'. bds_d1_branch st msg e iono = (0, st', e, iono) \<and> ubx_inv st' \<and> curr_time st' = curr_time st
    \<and> flag_stuck (bds_flag st' (eph_sat e))"
proof -
  let ?k = "unat (bds_id msg) - 1"
  let ?f = "bds_flag st (eph_sat e) OR push_bit ?k 1"
  have k: "?k = 3 \<or> ?k = 4" using assms(4) by auto
  then have f: "flag_stuck ?f"
    by (auto simp add: flag_stuck_def bit_or_iff bit_push_bit_iff simp del: push_bit_of_1)
  have row: "length (sat_row st (eph_sat e)) = row_len"
    using assms(1-3) by (rule ubx_inv_row)
  show ?thesis
    using f flag_stuck_not_7 [OF f] assms(1-3) row by (simp add: bds_d1_branch_def Let_def del: push_bit_of_1)
qed

text \<open>
  Claim C11.  Once a subframe 4 or 5 of a D1 satellite has arrived, no sequence of further messages
  ever decodes an ephemeris of that satellite again: every one comes back untouched (transmission
  time 0, which is never published) and the receiver time stays.  The flags collect one bit per
  subframe id, are compared with the value for 1, 2, 3 alone and are cleared only after a match,
  which bits 3 and 4 make impossible.
\<close>

theorem bds_d1_never_again:
  assumes "ubx_inv st" and "bds_d1_sat sat" and "56 \<le> len" and "bds_id msg = 4 \<or> bds_id msg = 5"
  shows "(\<forall>e \<in> set (snd (bds_d1_messages st sat ((msg, len) # ms))). e = new_ephem sat \<and> gt_time (ttr e) = 0)
    \<and> curr_time (fst (bds_d1_messages st sat ((msg, len) # ms))) = curr_time st"
proof -
  have range: "sat \<noteq> 0" "sat \<le> MAX_SAT" using bds_d1_sat_range [OF assms(2)] by auto
  obtain st' where st': "bds_d1_branch st msg (new_ephem sat) [] = (0, st', new_ephem sat, [])"
    "ubx_inv st'" "curr_time st' = curr_time st" "flag_stuck (bds_flag st' sat)"
    using bds_d1_branch_sets [of st "new_ephem sat" msg "[]"] assms range by auto
  have "decode_BDS_subframe st msg len (new_ephem sat) [] = (0, st', new_ephem sat, [])"
    using st'(1) assms(2-4) by (auto simp add: decode_BDS_subframe_def Let_def bds_d1_sat_def)
  with bds_d1_messages_stuck [OF st'(2) assms(2) st'(4), of ms] st'(3) show ?thesis
    by (auto simp add: split_beta)
qed

section \<open>Week handover\<close>

definition bds_time :: "int \<Rightarrow> int \<Rightarrow> gtime" where
  "bds_time w t = \<lparr>gt_time = 1136073600 + 604800 * w + t + 14, gt_sec = f0\<rparr>"

lemma bdt_plus14_int:
  assumes "- 1 \<le> sint wk" and "sint wk \<le> 3500" and "0 \<le> t" and "t < 604800"
  shows "bdt_plus14 wk (f64_int t) = bds_time (sint wk) t"
proof -
  have 1: "bdt2time (sint wk) (f64_int t) = \<lparr>gt_time = 1136073600 + 604800 * sint wk + t, gt_sec = f0\<rparr>"
    using assms by (simp add: bdt2time_def Let_def bdt_base tow_guard_int fsub_int f0_def)
  have "fadd f0 (f64_int 14) = f64_int 14"
    using fadd_int [of 0 14] by (simp add: f0_def)
  then show ?thesis
    using fsub_int [of 14 14] by (simp add: bdt_plus14_def 1 time_add_def Let_def bds_time_def f0_def)
qed

text \<open>Both decoders compute the reference times from the adjusted week.\<close>

definition d1_adjusted_week :: "int \<Rightarrow> int \<Rightarrow> int \<Rightarrow> int" where
  "d1_adjusted_week w sow toes =
     (if sow + 302400 < toes then w - 1 else if toes < sow - 302400 then w + 1 else w)"

definition d2_adjusted_week :: "int \<Rightarrow> int \<Rightarrow> int \<Rightarrow> int" where
  "d2_adjusted_week w sow toes =
     (if sow + 302400 < toes then w + 1 else if toes < sow - 302400 then w - 1 else w)"

lemma sint_word_small: "0 \<le> w \<Longrightarrow> w < 2 ^ 31 \<Longrightarrow> uint (wk :: u32) = w \<Longrightarrow> sint wk = w"
  by (metis sint_word_of_int_id word_of_int_uint order_trans neg_le_0_iff_le zero_le_power zero_le_numeral)

lemma week_words:
  fixes w :: int
  assumes "0 \<le> w" and "w \<le> 3400"
  shows "sint (word_of_int w :: u32) = w" "sint (word_of_int w + 1 :: u32) = w + 1"
    "sint (word_of_int w - 1 :: u32) = w - 1"
proof -
  have "sint (word_of_int (w + 1) :: u32) = w + 1" "sint (word_of_int (w - 1) :: u32) = w - 1"
    "sint (word_of_int w :: u32) = w"
    by (rule sint_word_of_int_id; use assms in simp)+
  then show "sint (word_of_int w :: u32) = w" "sint (word_of_int w + 1 :: u32) = w + 1"
    "sint (word_of_int w - 1 :: u32) = w - 1"
    by simp_all
qed

lemma half_week_tests:
  assumes "0 \<le> s" and "s < 604800" and "0 \<le> t" and "t < 604800"
  shows "flt (fadd (f64_int s) half_week) (f64_int t) \<longleftrightarrow> s + 302400 < t"
    and "flt (f64_int t) (fsub (f64_int s) half_week) \<longleftrightarrow> t < s - 302400"
  using assms by (simp_all add: fadd_int fsub_int)

lemma bds_d1_times_weeks:
  assumes "d1_week v = word_of_int w" and "0 \<le> w" and "w \<le> 3400"
    and "uint (d1_sow v ! 0) = s" and "s < 604800" and "uint (d1_toes v) = t" and "t < 604800"
  shows "ttr (bds_d1_times v e) = bds_time w s"
    and "toe (bds_d1_times v e) = bds_time (d1_adjusted_week w s t) t"
proof -
  have st: "0 \<le> s" "0 \<le> t" using assms(4,6) by auto
  note tests = half_week_tests [OF st(1) assms(5) st(2) assms(7)]
  note ww = week_words [OF assms(2,3)]
  show "ttr (bds_d1_times v e) = bds_time w s"
    using assms st ww by (simp add: bds_d1_times_def Let_def bdt_plus14_int split_beta)
  consider "s + 302400 < t" | "t < s - 302400" | "t \<le> s + 302400" "s - 302400 \<le> t" by linarith
  then show "toe (bds_d1_times v e) = bds_time (d1_adjusted_week w s t) t"
    using assms st ww bdt_plus14_int [of "word_of_int w - 1" t]
      bdt_plus14_int [of "word_of_int w + 1" t] bdt_plus14_int [of "word_of_int w" t]
    by cases (simp_all add: bds_d1_times_def Let_def tests split_beta d1_adjusted_week_def)
qed

text \<open>
  The week handover of the D1 decoder: transmission time and reference time of the
  ephemeris, both moved from BeiDou to GPS time by 14 s, lie within half a week of each other.
\<close>

lemma bds_d1_half_week:
  assumes "d1_week v = word_of_int w" and "0 \<le> w" and "w \<le> 3400"
    and "uint (d1_sow v ! 0) = s" and "s < 604800" and "uint (d1_toes v) = t" and "t < 604800"
  shows "ttr (bds_d1_times v e) = bds_time w s
    \<and> toe (bds_d1_times v e) = bds_time (d1_adjusted_week w s t) t
    \<and> \<bar>gt_time (toe (bds_d1_times v e)) - gt_time (ttr (bds_d1_times v e))\<bar> \<le> 302400"
proof -
  have "0 \<le> s" "0 \<le> t" using assms(4,6) by auto
  then show ?thesis
    using bds_d1_times_weeks [OF assms, of e] assms(5,7)
    by (auto simp add: bds_time_def d1_adjusted_week_def)
qed

lemma bds_d2_times_weeks:
  assumes "getbitu b 64 13 = word_of_int w" and "0 \<le> w" and "w \<le> 3400"
    and "uint (d2_sow b 1) = s" and "s < 604800" and "uint (d2_toes b) = t" and "t < 604800"
  shows "ttr (bds_d2_times b e) = bds_time w s"
    and "toe (bds_d2_times b e) = bds_time (d2_adjusted_week w s t) t"
proof -
  have st: "0 \<le> s" "0 \<le> t" using assms(4,6) by auto
  note tests = half_week_tests [OF st(1) assms(5) st(2) assms(7)]
  note ww = week_words [OF assms(2,3)]
  show "ttr (bds_d2_times b e) = bds_time w s"
    using assms st ww by (simp add: bds_d2_times_def Let_def bdt_plus14_int split_beta)
  consider "s + 302400 < t" | "t < s - 302400" | "t \<le> s + 302400" "s - 302400 \<le> t" by linarith
  then show "toe (bds_d2_times b e) = bds_time (d2_adjusted_week w s t) t"
    using assms st ww bdt_plus14_int [of "word_of_int w - 1" t]
      bdt_plus14_int [of "word_of_int w + 1" t] bdt_plus14_int [of "word_of_int w" t]
    by cases (simp_all add: bds_d2_times_def Let_def tests split_beta d2_adjusted_week_def)
qed

text \<open>
  The D2 decoder adjusts the week the wrong way round: whenever the seconds of week of
  transmission and reference time are more than half a week apart, so that the reference time
  belongs to a neighbouring week, it ends up more than one and a half weeks away.
\<close>

lemma bds_d2_wrong_week:
  assumes "getbitu b 64 13 = word_of_int w" and "0 \<le> w" and "w \<le> 3400"
    and "uint (d2_sow b 1) = s" and "s < 604800" and "uint (d2_toes b) = t" and "t < 604800"
    and "\<bar>t - s\<bar> > 302400"
  shows "\<bar>gt_time (toe (bds_d2_times b e)) - gt_time (ttr (bds_d2_times b e))\<bar> > 604800 + 302400"
proof -
  have "0 \<le> s" "0 \<le> t" using assms(4,6) by auto
  then show ?thesis
    using bds_d2_times_weeks [OF assms(1-7), of e] assms(5,7,8)
    by (auto simp add: bds_time_def d2_adjusted_week_def)
qed

section \<open>Examples\<close>

definition bds_demo_msg :: bytes where
  "bds_demo_msg = replicate 15 0 @ [0x40] @ replicate 40 0"

definition bds_d1_demo_row :: bytes where
  "bds_d1_demo_row = foldl (\<lambda>b (p, l, d). setbitu b p l d) (replicate 380 0)
     [(15, 3, 1), (304 + 15, 3, 2), (608 + 15, 3, 3), (304 + 30, 12, 6), (608 + 30, 12, 12)]"

definition bds_d2_demo_row :: bytes where
  "bds_d2_demo_row = foldl (\<lambda>b (p, l, d). setbitu b p l d) (replicate 380 0)
     [(64, 13, 900), (8 * 38 * 6 + 80, 2, 2), (8 * 38 * 6 + 90, 15, 0x274F)]"

theorem bds_d1_never_again_witness:
  "set (snd (bds_d1_messages ubx_init 117 [(bds_demo_msg, 56), (bds_demo_msg, 56)])) \<subseteq> {new_ephem 117}
    \<and> curr_time (fst (bds_d1_messages ubx_init 117 [(bds_demo_msg, 56), (bds_demo_msg, 56)])) = gtime0"
proof -
  have "bds_d1_sat 117" and "bds_id bds_demo_msg = 4" by code_simp+
  then show ?thesis
    using bds_d1_never_again [OF ubx_inv_init, of 117 56 bds_demo_msg "[(bds_demo_msg, 56)]"]
    by (auto simp add: ubx_init_def)
qed

lemma decode_BDS_D1_gate_witness:
  "fst (decode_BDS_D1_ephem bds_d1_demo_row gtime0 (new_ephem 117) []) = 0
    \<and> length (fst (snd (snd (decode_BDS_D1_ephem bds_d1_demo_row gtime0 (new_ephem 117) [])))) = 8"
proof -
  have "bds_d1_checks (bds_d1_locals bds_d1_demo_row)" by code_simp
  then show ?thesis
    using decode_BDS_D1_gate [OF quad_eq, of bds_d1_demo_row gtime0 "new_ephem 117" "[]"] by simp
qed

lemma bds_d1_half_week_witness:
  "toe (bds_d1_times \<lparr>d1_frn = [], d1_sow = [604000], d1_week = 900, d1_toc = f0, d1_toes = 7200, d1_iono = []\<rparr>
      (new_ephem 117)) = bds_time 901 7200"
  using bds_d1_half_week [of "\<lparr>d1_frn = [], d1_sow = [604000], d1_week = 900, d1_toc = f0, d1_toes = 7200, d1_iono = []\<rparr>"
      900 604000 7200 "new_ephem 117"]
  by (simp add: d1_adjusted_week_def)

lemma getbitu_zeros: "getbitu (replicate n 0) p l = 0"
  by (rule bit_eqI) (auto simp add: bit_getbitu buf_bit_def byte_at_def)

lemmas demo_row_simps = getbitu_setbitu getbitu_setbitu_other getbitu_zeros getbitu2_def bds_page_def

lemma bds_d2_wrong_week_witness:
  "\<bar>gt_time (toe (bds_d2_times bds_d2_demo_row (new_ephem 98)))
    - gt_time (ttr (bds_d2_times bds_d2_demo_row (new_ephem 98)))\<bar> > 907200"
proof -
  have 1: "getbitu bds_d2_demo_row 64 13 = word_of_int 900" and 2: "uint (d2_sow bds_d2_demo_row 1) = 0"
    and "getbitu2 bds_d2_demo_row (bds_page 7 + 80) 2 (bds_page 7 + 90) 15 = 75599"
    by (simp_all add: bds_d2_demo_row_def d2_sow_def demo_row_simps push_bit_eq_mult)
  moreover have "uint (to_u32 (scale 75599 (f64_int 8))) = 604792" by code_simp
  ultimately have 3: "uint (d2_toes bds_d2_demo_row) = 604792" by (simp add: d2_toes_def)
  show ?thesis
    using bds_d2_wrong_week [OF 1 _ _ 2 _ 3, of "new_ephem 98"] by simp
qed

end
