(* ===== verification/Nav_GAL.thy ===== *)
theory Nav_GAL
  imports Nav_BDS
begin

text \<open>
  Galileo I/NAV: \<open>decode_GAL_subframe\<close> checks an even/odd page pair (alert bits, parts, CRC-24Q),
  stores words 0 to 6 and decodes the ephemeris when all seven are there.
\<close>

section \<open>Pages\<close>

text \<open>Words of the message with their octets in transmission order.\<close>

definition swapped_words :: "bytes \<Rightarrow> nat \<Rightarrow> bytes" where
  "swapped_words msg n =
     concat (map (\<lambda>i. map (\<lambda>j. byte_at msg (14 + 4 * i + (3 - j))) [0..<4]) [0..<n])"

definition gal_crc_buff :: "bytes \<Rightarrow> bytes" where
  "gal_crc_buff buff =
     (let b = foldl (\<lambda>b i. setbitu b (4 + 8 * i) 8 (getbitu buff (i * 8) 8)) (replicate 26 0) [0..<15]
      in foldl (\<lambda>b i. setbitu b (118 + 8 * i) 8 (getbitu (drop 16 buff) (i * 8) 8)) b [0..<11])"

definition gal_crc_ok :: "bytes \<Rightarrow> bool" where
  "gal_crc_ok buff \<longleftrightarrow> crc24q (gal_crc_buff buff) 25 = getbitu (drop 16 buff) 82 24"

definition gal_word :: "bytes \<Rightarrow> bytes" where
  "gal_word buff =
     map (\<lambda>i. ucast (getbitu buff (2 + 8 * i) 8)) [0..<14]
     @ map (\<lambda>i. ucast (getbitu (drop 16 buff) (2 + 8 * i) 8)) [0..<2]"

section \<open>Ephemeris\<close>

definition gal_ura :: "u32 \<Rightarrow> f64" where
  "gal_ura sisa =
     (if sisa < 50 then fmul (f64_dec 1 (- 2)) (u32_f64 sisa)
      else if sisa < 75 then fadd (f64_dec 5 (- 1)) (fmul (f64_dec 2 (- 2)) (u32_f64 (sisa - 50)))
      else if sisa < 100 then fadd (f64_int 1) (fmul (f64_dec 4 (- 2)) (u32_f64 (sisa - 75)))
      else if sisa < 125 then fadd (f64_int 2) (fmul (f64_dec 16 (- 2)) (u32_f64 (sisa - 100)))
      else f64_int (- 1))"

definition gal_fields :: "bytes \<Rightarrow> ephem \<Rightarrow> ephem" where
  "gal_fields b e =
     e\<lparr>m0 := sc2rad (getbits b (128 + 30) 32) P2_31,
       eph_e := scale (uint (getbitu b (128 + 62) 32)) P2_33,
       omg0 := sc2rad (getbits b (128 * 2 + 16) 32) P2_31,
       i0 := sc2rad (getbits b (128 * 2 + 48) 32) P2_31,
       omg := sc2rad (getbits b (128 * 2 + 80) 32) P2_31,
       i_dot := sc2rad (getbits b (128 * 2 + 112) 14) P2_43,
       omg_dot := sc2rad (getbits b (128 * 3 + 16) 24) P2_43,
       delta_n := sc2rad (getbits b (128 * 3 + 40) 16) P2_43,
       cuc := scale (getbits b (128 * 3 + 56) 16) P2_29,
       cus := scale (getbits b (128 * 3 + 72) 16) P2_29,
       eph_crc := scale (getbits b (128 * 3 + 88) 16) P2_5,
       crs := scale (getbits b (128 * 3 + 104) 16) P2_5,
       ura := gal_ura (getbitu b (128 * 3 + 120) 8),
       cic := scale (getbits b (128 * 4 + 22) 16) P2_29,
       cis := scale (getbits b (128 * 4 + 38) 16) P2_29,
       af0 := scale (getbits b (128 * 4 + 68) 31) P2_34,
       af1 := scale (getbits b (128 * 4 + 99) 21) P2_46,
       af2 := scale (getbits b (128 * 4 + 120) 6) P2_59,
       tgd0 := scale (getbits b (128 * 5 + 47) 10) P2_32,
       tgd1 := scale (getbits b (128 * 5 + 57) 10) P2_32\<rparr>"

definition gal_iod :: "bytes \<Rightarrow> nat \<Rightarrow> u32" where
  "gal_iod b n = getbitu b (128 * n + 6) 10"

definition gal_svid :: "bytes \<Rightarrow> u32" where
  "gal_svid b = getbitu b (128 * 4 + 16) 6"

definition gal_types_ok :: "bytes \<Rightarrow> bool" where
  "gal_types_ok b \<longleftrightarrow> (\<forall>n \<in> set [0, 1, 2, 3, 4, 5]. getbitu b (128 * n) 6 = word_of_nat n) \<and> getbitu b 6 2 = 2"

definition gal_iods_ok :: "bytes \<Rightarrow> bool" where
  "gal_iods_ok b \<longleftrightarrow> gal_iod b 1 = gal_iod b 2 \<and> gal_iod b 1 = gal_iod b 3 \<and> gal_iod b 1 = gal_iod b 4"

definition gal_health :: "bytes \<Rightarrow> u32" where
  "gal_health b =
     push_bit 7 (getbitu b (128 * 5 + 67) 2) OR push_bit 6 (getbitu b (128 * 5 + 71) 1)
     OR push_bit 1 (getbitu b (128 * 5 + 69) 2) OR getbitu b (128 * 5 + 72) 1"

definition gal_times :: "int \<Rightarrow> f64 \<Rightarrow> f64 \<Rightarrow> f64 \<Rightarrow> ephem \<Rightarrow> ephem" where
  "gal_times wk tow toes toc' e =
     (let e = e\<lparr>ttr := gst2time wk tow\<rparr>;
          tt = time_diff (gst2time wk toes) (ttr e);
          wk = (if flt half_week tt then wk - 1 else if flt tt (f64_int (- 302400)) then wk + 1 else wk);
          t = gst2time wk toes;
          (w, s) = time2gpst t
      in e\<lparr>toe := t, toc := gst2time wk toc', toe_tow := s, week := w, eph_code := 513\<rparr>)"

text \<open>Result: return code, ephemeris, receiver time and row (cleared on success).\<close>

definition decode_GAL_ephem :: "bytes \<Rightarrow> gtime \<Rightarrow> ephem \<Rightarrow> int \<times> ephem \<times> gtime \<times> bytes" where
  "decode_GAL_ephem b now e =
     (let e = gal_fields b e;
          sqrtA = scale (uint (getbitu b (128 + 94) 32)) P2_19
      in if \<not> gal_types_ok b then (- 1, e, now, b)
         else if \<not> gal_iods_ok b then (0, e, now, b)
         else if eph_sat e \<noteq> sat_no SYS_GAL (gal_svid b) then (0, e, now, b)
         else
           let e = e\<lparr>eph_a := fmul sqrtA sqrtA, iode := gal_iod b 1, iodc := gal_iod b 1, health := gal_health b\<rparr>;
               e = gal_times (uint (getbitu b 96 12)) (u32_f64 (getbitu b 108 20))
                     (scale (uint (getbitu b (128 + 16) 14)) (f64_int 60))
                     (scale (uint (getbitu b (128 * 4 + 54) 14)) (f64_int 60)) e
           in (0, e, ttr e, replicate row_len 0))"

section \<open>Subframes\<close>

definition gal_flags :: "bytes \<Rightarrow> u8" where
  "gal_flags r = byte_at r 112"

definition gal_store :: "bytes \<Rightarrow> nat \<Rightarrow> bytes \<Rightarrow> bytes" where
  "gal_store r type buff =
     (let r = (if type = 2 then r[112 := 0] else r);
          r = store_at r (type * 16) (gal_word buff)
      in r[112 := byte_at r 112 OR push_bit type 1])"

definition decode_GAL_subframe :: "ubx_state \<Rightarrow> bytes \<Rightarrow> nat \<Rightarrow> ephem \<Rightarrow> int \<times> ubx_state \<times> ephem" where
  "decode_GAL_subframe st msg len e =
     (if len < 48 then (- 1, st, e)
      else
        let buff = swapped_words msg 8;
            part1 = getbitu buff 0 1; page1 = getbitu buff 1 1;
            part2 = getbitu (drop 16 buff) 0 1; page2 = getbitu (drop 16 buff) 1 1
        in if page1 = 1 \<or> page2 = 1 then (0, st, e)
           else if part1 \<noteq> 0 \<or> part2 \<noteq> 1 then (- 1, st, e)
           else if \<not> gal_crc_ok buff then (- 1, st, e)
           else let type = unat (getbitu buff 2 6) in
             if type > 6 then (0, st, e)
             else
               let sat = eph_sat e;
                   r = gal_store (sat_row st sat) type buff
               in if gal_flags r \<noteq> 0x7F then (0, set_row st sat r, e)
                  else (case decode_GAL_ephem r (curr_time st) e of
                    (rc, e', now, r') \<Rightarrow> (0, (set_row st sat r')\<lparr>curr_time := now\<rparr>, e')))"

section \<open>Acceptance\<close>

definition gal_accepted :: "bytes \<Rightarrow> nat \<Rightarrow> bool" where
  "gal_accepted msg len \<longleftrightarrow> 48 \<le> len \<and>
     (let buff = swapped_words msg 8 in
      getbitu buff 1 1 \<noteq> 1 \<and> getbitu (drop 16 buff) 1 1 \<noteq> 1
      \<and> getbitu buff 0 1 = 0 \<and> getbitu (drop 16 buff) 0 1 = 1
      \<and> gal_crc_ok buff \<and> unat (getbitu buff 2 6) \<le> 6)"

definition gal_type :: "bytes \<Rightarrow> nat" where
  "gal_type msg = unat (getbitu (swapped_words msg 8) 2 6)"

lemma length_gal_word [simp]: "length (gal_word buff) = 16"
  by (simp add: gal_word_def)

lemma length_gal_store [simp]: "t \<le> 6 \<Longrightarrow> length r = row_len \<Longrightarrow> length (gal_store r t buff) = row_len"
  by (simp add: gal_store_def Let_def row_len_def)

lemma decode_GAL_subframe_rejected:
  "\<not> gal_accepted msg len \<Longrightarrow> \<exists>rc. decode_GAL_subframe st msg len e = (rc, st, e)"
  by (auto simp add: decode_GAL_subframe_def gal_accepted_def Let_def not_le)

lemma decode_GAL_subframe_accepted:
  assumes "gal_accepted msg len"
  shows "decode_GAL_subframe st msg len e =
     (let r = gal_store (sat_row st (eph_sat e)) (gal_type msg) (swapped_words msg 8)
      in if gal_flags r \<noteq> 0x7F then (0, set_row st (eph_sat e) r, e)
         else (case decode_GAL_ephem r (curr_time st) e of
           (rc, e', now, r') \<Rightarrow> (0, (set_row st (eph_sat e) r')\<lparr>curr_time := now\<rparr>, e')))"
  using assms by (auto simp add: decode_GAL_subframe_def gal_accepted_def gal_type_def Let_def not_less)

lemma length_decode_GAL_row:
  "length b = row_len \<Longrightarrow> decode_GAL_ephem b now e = (rc, e', now', r') \<Longrightarrow> length r' = row_len"
  by (auto simp add: decode_GAL_ephem_def Let_def split: if_splits)

lemma gal_store_word:
  "t \<le> 6 \<Longrightarrow> length r = row_len \<Longrightarrow> i < 16 \<Longrightarrow> gal_store r t buff ! (16 * t + i) = gal_word buff ! i"
  by (simp add: gal_store_def Let_def row_len_def store_at_def nth_append mult.commute)


section \<open>Week handover\<close>

definition gal_time :: "int \<Rightarrow> int \<Rightarrow> gtime" where
  "gal_time w t = \<lparr>gt_time = 935280000 + 604800 * w + t, gt_sec = f0\<rparr>"

lemma gst2time_int:
  assumes "- 1 \<le> w" and "w \<le> 3500" and "0 \<le> t" and "t < 1048576"
  shows "gst2time w (f64_int t) = gal_time w t"
  using assms by (simp add: gst2time_def Let_def gst_base tow_guard_int fsub_int f0_def gal_time_def)

definition gal_adjusted_week :: "int \<Rightarrow> int \<Rightarrow> int \<Rightarrow> int" where
  "gal_adjusted_week w s t = (if s + 302400 < t then w - 1 else if t < s - 302400 then w + 1 else w)"

lemma time_diff_gal: "\<bar>t - s\<bar> < 2 ^ 31 \<Longrightarrow> time_diff (gal_time w t) (gal_time w s) = f64_int (t - s)"
proof -
  assume "\<bar>t - s\<bar> < 2 ^ 31"
  then have "fadd (f64_int (t - s)) f0 = f64_int (t - s)" "fsub (f64_int (t - s)) f0 = f64_int (t - s)"
    using fadd_int [of "t - s" 0] fsub_int [of "t - s" 0] by (simp_all add: f0_def)
  then show ?thesis by (simp add: time_diff_def gal_time_def)
qed

text \<open>
  The week handover of the Galileo decoder: with transmission and reference time in
  seconds of a week, the reference time of the ephemeris lies within half a week of the transmission
  time.
\<close>

lemma gal_half_week:
  assumes "0 \<le> w" and "w \<le> 3400" and "0 \<le> s" and "s < 604800" and "0 \<le> t" and "t < 604800"
  shows "ttr (gal_times w (f64_int s) (f64_int t) c e) = gal_time w s
    \<and> toe (gal_times w (f64_int s) (f64_int t) c e) = gal_time (gal_adjusted_week w s t) t
    \<and> \<bar>gt_time (toe (gal_times w (f64_int s) (f64_int t) c e)) - gt_time (gal_time w s)\<bar> \<le> 302400"
proof -
  have g: "gst2time w (f64_int s) = gal_time w s" "gst2time w (f64_int t) = gal_time w t"
    "gst2time (w - 1) (f64_int t) = gal_time (w - 1) t" "gst2time (w + 1) (f64_int t) = gal_time (w + 1) t"
    using assms by (simp_all add: gst2time_int)
  have d: "time_diff (gal_time w t) (gal_time w s) = f64_int (t - s)"
    using assms by (simp add: time_diff_gal)
  have c: "flt half_week (f64_int (t - s)) \<longleftrightarrow> 302400 < t - s" "flt (f64_int (t - s)) (f64_int (- 302400)) \<longleftrightarrow> t - s < - 302400"
    using assms by simp_all
  show ?thesis
    using assms
    by (auto simp add: gal_times_def Let_def g d c gal_adjusted_week_def split_beta)
      (simp_all add: gal_time_def)
qed

lemma gal_half_week_witness:
  "toe (gal_times 1276 (f64_int 604000) (f64_int 7200) f0 (new_ephem 60)) = gal_time 1277 7200"
  using gal_half_week [of 1276 604000 7200 f0 "new_ephem 60"] by (simp add: gal_adjusted_week_def)

text \<open>A message whose second part is not marked odd.\<close>

definition gal_demo_msg :: bytes where
  "gal_demo_msg = replicate 48 0"


end
