(* ===== verification/Nav_GLO.thy ===== *)
theory Nav_GLO
  imports Nav_GAL
begin

text \<open>
  GLONASS: \<open>test_glostr\<close>, \<open>decode_GLO_subframe\<close> and \<open>decode_GLO_ephem\<close>.  The ephemeris comes in as a
  pointer that may be null; dereferencing a null pointer is the result \<open>Inl Null_deref\<close>.
\<close>

datatype crash = Null_deref

section \<open>Hamming check\<close>

definition xor_8bit :: "u8 list" where
  "xor_8bit =
     [0, 1, 1, 0, 1, 0, 0, 1, 1, 0, 0, 1, 0, 1, 1, 0, 1, 0, 0, 1, 0, 1, 1, 0, 0, 1, 1, 0, 1, 0, 0, 1,
      1, 0, 0, 1, 0, 1, 1, 0, 0, 1, 1, 0, 1, 0, 0, 1, 0, 1, 1, 0, 1, 0, 0, 1, 1, 0, 0, 1, 0, 1, 1, 0,
      1, 0, 0, 1, 0, 1, 1, 0, 0, 1, 1, 0, 1, 0, 0, 1, 0, 1, 1, 0, 1, 0, 0, 1, 1, 0, 0, 1, 0, 1, 1, 0,
      0, 1, 1, 0, 1, 0, 0, 1, 1, 0, 0, 1, 0, 1, 1, 0, 1, 0, 0, 1, 0, 1, 1, 0, 0, 1, 1, 0, 1, 0, 0, 1,
      1, 0, 0, 1, 0, 1, 1, 0, 0, 1, 1, 0, 1, 0, 0, 1, 0, 1, 1, 0, 1, 0, 0, 1, 1, 0, 0, 1, 0, 1, 1, 0,
      0, 1, 1, 0, 1, 0, 0, 1, 1, 0, 0, 1, 0, 1, 1, 0, 1, 0, 0, 1, 0, 1, 1, 0, 0, 1, 1, 0, 1, 0, 0, 1,
      0, 1, 1, 0, 1, 0, 0, 1, 1, 0, 0, 1, 0, 1, 1, 0, 1, 0, 0, 1, 0, 1, 1, 0, 0, 1, 1, 0, 1, 0, 0, 1,
      1, 0, 0, 1, 0, 1, 1, 0, 0, 1, 1, 0, 1, 0, 0, 1, 0, 1, 1, 0, 1, 0, 0, 1, 1, 0, 0, 1, 0, 1, 1, 0]"

definition mask_hamming :: "u8 list list" where
  "mask_hamming =
     [[0x55, 0x55, 0x5A, 0xAA, 0xAA, 0xAA, 0xB5, 0x55, 0x6A, 0xD8, 0x08],
      [0x66, 0x66, 0x6C, 0xCC, 0xCC, 0xCC, 0xD9, 0x99, 0xB3, 0x68, 0x10],
      [0x87, 0x87, 0x8F, 0x0F, 0x0F, 0x0F, 0x1E, 0x1E, 0x3C, 0x70, 0x20],
      [0x07, 0xF8, 0x0F, 0xF0, 0x0F, 0xF0, 0x1F, 0xE0, 0x3F, 0x80, 0x40],
      [0xF8, 0x00, 0x0F, 0xFF, 0xF0, 0x00, 0x1F, 0xFF, 0xC0, 0x00, 0x80],
      [0x00, 0x00, 0x0F, 0xFF, 0xFF, 0xFF, 0xE0, 0x00, 0x00, 0x01, 0x00],
      [0xFF, 0xFF, 0xF0, 0x00, 0x00, 0x00, 0x00, 0x00, 0x00, 0x02, 0x00],
      [0xFF, 0xFF, 0xFF, 0xFF, 0xFF, 0xFF, 0xFF, 0xFF, 0xFF, 0xFF, 0xF8]]"

text \<open>
  \<open>test_glostr\<close> as it is written: the inner loop declares a \<open>cs\<close> of its own (here \<open>inner\<close>), so the
  outer one, which the test after it and the result read, is never assigned.
\<close>

definition glostr_row :: "bytes \<Rightarrow> nat \<Rightarrow> u8" where
  "glostr_row data i =
     foldl (\<lambda>cs j. cs XOR xor_8bit ! unat (byte_at data j AND mask_hamming ! i ! j)) 0 [0..<11]"

definition test_glostr :: "bytes \<Rightarrow> int" where
  "test_glostr data =
     (let (cs, n) = foldl (\<lambda>(cs, n) i. let inner = glostr_row data i in (cs, if cs \<noteq> 0 then n + 1 else n))
                      (0 :: u8, 0 :: int) [0..<8]
      in if n = 0 \<or> (n = 2 \<and> cs \<noteq> 0) then 1 else 0)"

section \<open>Ephemeris\<close>

abbreviation km :: "f64 \<Rightarrow> f64 \<Rightarrow> f64" where
  "km g p \<equiv> fmul (fmul g p) (f64_int 1000)"

definition glo_ura :: "u32 \<Rightarrow> f64" where
  "glo_ura ft =
     (if ft = 2 then f64_dec 25 (- 1)
      else if ft < 5 then fadd (u32_f64 ft) (f64_int 1)
      else if ft = 5 then f64_int 7
      else if ft < 10 then fadd (f64_int 10) (fmul (u32_f64 (ft - 6)) (f64_int 2))
      else if ft < 15 then f64_int (2 ^ unat (ft - 5))
      else f64_int (- 1))"

text \<open>Strings 1 to 4 lie side by side, 80 bits each.\<close>

definition glo_fields :: "bytes \<Rightarrow> glo_ephem \<Rightarrow> glo_ephem" where
  "glo_fields b e =
     e\<lparr>glo_vel := [km (getbitg b 21 24) P2_20, km (getbitg b 101 24) P2_20, km (getbitg b 181 24) P2_20],
       glo_acc := [km (getbitg b 45 5) P2_30, km (getbitg b 125 5) P2_30, km (getbitg b 205 5) P2_30],
       glo_pos := [km (getbitg b 50 27) P2_11, km (getbitg b 130 27) P2_11, km (getbitg b 210 27) P2_11],
       health := getbitu b 85 3,
       gamma := fmul (getbitg b 166 11) P2_40,
       tau_n := fmul (getbitg b 245 22) P2_30,
       delta_tau_n := fmul (getbitg b 267 5) P2_30,
       glo_age := getbitu b 272 5,
       ura := glo_ura (getbitu b 292 4)\<rparr>"

definition glo_tb :: "bytes \<Rightarrow> u32" where "glo_tb b = getbitu b 89 7"

definition glo_frames_ok :: "bytes \<Rightarrow> bool" where
  "glo_frames_ok b \<longleftrightarrow> getbitu b 1 4 = 1 \<and> getbitu b 81 4 = 2 \<and> getbitu b 161 4 = 3 \<and> getbitu b 241 4 = 4"

definition glo_slot :: "bytes \<Rightarrow> u32" where "glo_slot b = getbitu b 310 5"

text \<open>Seconds of day moved to within half a day of \<open>tod\<close>.\<close>

definition near_tod :: "f64 \<Rightarrow> f64 \<Rightarrow> f64" where
  "near_tod tod t =
     (if flt t (fsub tod (f64_int 43200)) then fadd t (f64_int 86400)
      else if flt (fadd tod (f64_int 43200)) t then fsub t (f64_int 86400) else t)"

definition glo_times :: "bytes \<Rightarrow> gtime \<Rightarrow> glo_ephem \<Rightarrow> glo_ephem" where
  "glo_times b now e =
     (let (wk, tow) = time2gpst (gpst2utc now);
          tod = ffmod tow (f64_int 86400);
          tow = fsub tow tod;
          tk_h = u32_f64 (getbitu b 9 5); tk_m = u32_f64 (getbitu b 14 6);
          tk_s = f64_int (uint (getbitu b 20 1) * 30);
          tof = fsub (fadd (fadd (fmul tk_h (f64_int 3600)) (fmul tk_m (f64_int 60))) tk_s) (f64_int 10800);
          t = fsub (fmul (u32_f64 (glo_tb b)) (f64_int 900)) (f64_int 10800)
      in e\<lparr>ttr := utc2gpst (gpst2time wk (fadd tow (near_tod tod tof))),
           toe := utc2gpst (gpst2time wk (fadd tow (near_tod tod t)))\<rparr>)"

definition decode_GLO_ephem :: "bytes \<Rightarrow> gtime \<Rightarrow> glo_ephem \<Rightarrow> int \<times> glo_ephem" where
  "decode_GLO_ephem b now e =
     (let e = glo_fields b e in
      if \<not> glo_frames_ok b then (- 1, e)
      else if eph_sat e \<noteq> sat_no SYS_GLO (glo_slot b) then (- 1, e)
      else (0, glo_times b now (e\<lparr>iode := glo_tb b\<rparr>)))"

section \<open>Strings\<close>

definition glo_store :: "bytes \<Rightarrow> nat \<Rightarrow> bytes \<Rightarrow> bytes" where
  "glo_store r m buff =
     (let r = (if byte_at r 150 \<noteq> byte_at buff 12 \<or> byte_at r 151 \<noteq> byte_at buff 13
               then store_at (store_at r 0 (replicate 40 0)) 150 (take 2 (drop 12 buff))
               else r)
      in store_at r ((m - 1) * 10) (take 10 buff))"

definition decode_GLO_subframe ::
  "ubx_state \<Rightarrow> bytes \<Rightarrow> nat \<Rightarrow> glo_ephem option \<Rightarrow> crash + int \<times> ubx_state \<times> glo_ephem option" where
  "decode_GLO_subframe st msg len ep =
     (if len < 32 then Inr (- 1, st, ep)
      else case ep of None \<Rightarrow> Inl Null_deref | Some e \<Rightarrow>
        (let e = e\<lparr>freqo := uint (byte_at msg 9) - 7\<rparr>;
             buff = swapped_words msg 4
         in if test_glostr buff = 0 then Inr (- 1, st, Some e)
            else let m = unat (getbitu buff 1 4) in
              if m < 1 \<or> 15 < m then Inr (- 1, st, Some e)
              else
                let sat = eph_sat e;
                    r = glo_store (sat_row st sat) m buff;
                    st = set_row st sat r
                in if m \<noteq> 4 then Inr (0, st, Some e)
                   else Inr (0, st, Some (snd (decode_GLO_ephem r (curr_time st) e)))))"

section \<open>What the Hamming check is worth\<close>

text \<open>The check with one variable instead of two, as the return expression means it.\<close>

definition glostr_intended :: "bytes \<Rightarrow> int" where
  "glostr_intended data =
     (let (cs, n) = foldl (\<lambda>(cs, n) i. let cs = glostr_row data i in (cs, if cs \<noteq> 0 then n + 1 else n))
                      (0 :: u8, 0 :: int) [0..<8]
      in if n = 0 \<or> (n = 2 \<and> cs \<noteq> 0) then 1 else 0)"

text \<open>
  \<open>test_glostr\<close> accepts every string: the variable it tests is shadowed in the loop that
  should compute it.  With the inner declaration removed it would reject a string with two data bits
  flipped, which the code accepts.
\<close>

lemma test_glostr_accepts_all:
  "test_glostr data = 1 \<and> glostr_intended [0, 0x18, 0, 0, 0, 0, 0, 0, 0, 0, 0] = 0"
proof
  have "foldl (\<lambda>(cs, n) i. let inner = glostr_row data i in (cs, if cs \<noteq> 0 then n + 1 else n))
      (0 :: u8, n :: int) is = (0, n)" for n "is"
    by (induction "is") simp_all
  then show "test_glostr data = 1" by (simp add: test_glostr_def)
  show "glostr_intended [0, 0x18, 0, 0, 0, 0, 0, 0, 0, 0, 0] = 0" by code_simp
qed

end
