(* ===== verification/Ros_Handler.thy ===== *)
theory Ros_Handler
  imports Gnss_Msg Rtcm_Stream Nav_GLO
begin

text \<open>
  \<open>UbloxRosHandler\<close>: what is published on which topic.  A handler appends to a list of publications,
  which stands for the calls into the ROS client library.  An ephemeris comes as a pointer to the
  base class; casting it to the wrong derived class gives null, and converting null crashes.
\<close>

section \<open>Publications\<close>

datatype ephem_ptr = Eph ephem | Glo glo_ephem

record lla_msg =
  lla_stamp :: int
  lla_latitude :: f64
  lla_longitude :: f64
  lla_altitude :: f64
  lla_status :: int
  lla_service :: u16

datatype publication =
    Range_meas "obs_msg list"
  | Ephem_topic ephem_msg
  | Glo_ephem_topic glo_ephem_msg
  | Iono_topic "int option" "f64 list"
  | Time_pulse_topic tp_msg
  | Pvt_callback nat pvt_solution
  | Pvt_topic pvt_msg
  | Lla_topic lla_msg
  | Rtcm_topic int rtcm_msg

record ros_handler =
  raw_observation_system_mask :: u32
  ephemeris_system_mask :: u32
  pvt_callbacks :: nat

section \<open>Time stamps\<close>

text \<open>\<open>std::llround\<close>: halves away from zero; out of range as the conversion instruction does.\<close>

fun llround :: "f64 \<Rightarrow> int" where
  "llround (Fin m e) =
     (let k = nat (- e);
          n = (if 0 \<le> e then m * 2 ^ nat e else sgn m * ((2 * \<bar>m\<bar> + 2 ^ k) div 2 ^ Suc k))
      in if - (2 ^ 63) \<le> n \<and> n < 2 ^ 63 then n else - (2 ^ 63))"
| "llround _ = - (2 ^ 63)"

text \<open>Nanoseconds.\<close>

definition cvtTimestamp :: "gtime \<Rightarrow> int" where
  "cvtTimestamp t = llround (fmul (time2sec t) (f64_int 1000000000))"

section \<open>The publishers\<close>

definition publishObservations :: "ros_handler \<Rightarrow> obs list \<Rightarrow> publication list" where
  "publishObservations h meas =
     (if meas = [] then []
      else let filtered = filter (\<lambda>ob. fst (satsys (obs_sat ob)) AND raw_observation_system_mask h \<noteq> 0) meas
        in if filtered = [] then [] else [Range_meas (meas2msg filtered)])"

definition ptr_base :: "ephem_ptr \<Rightarrow> u32 \<times> gtime" where
  "ptr_base p = (case p of Eph e \<Rightarrow> (eph_sat e, ttr e) | Glo g \<Rightarrow> (eph_sat g, ttr g))"

definition as_glo :: "ephem_ptr \<Rightarrow> glo_ephem option" where
  "as_glo p = (case p of Eph e \<Rightarrow> None | Glo g \<Rightarrow> Some g)"

definition as_ephem :: "ephem_ptr \<Rightarrow> ephem option" where
  "as_ephem p = (case p of Eph e \<Rightarrow> Some e | Glo g \<Rightarrow> None)"

definition publishEphemeris :: "ros_handler \<Rightarrow> ephem_ptr option \<Rightarrow> crash + publication list" where
  "publishEphemeris h ep =
     (case ep of None \<Rightarrow> Inr [] | Some p \<Rightarrow>
        if gt_time (snd (ptr_base p)) = 0 then Inr []
        else let sys = fst (satsys (fst (ptr_base p))) in
          if sys AND ephemeris_system_mask h = 0 then Inr []
          else if sys = SYS_GLO then
            (case as_glo p of None \<Rightarrow> Inl Null_deref | Some g \<Rightarrow> Inr [Glo_ephem_topic (glo_ephem2msg g)])
          else (case as_ephem p of None \<Rightarrow> Inl Null_deref | Some e \<Rightarrow> Inr [Ephem_topic (ephem2msg e)]))"

definition publishIonoParams :: "f64 list \<Rightarrow> gtime \<Rightarrow> publication list" where
  "publishIonoParams iono stamp =
     (if length iono \<noteq> 8 then []
      else [Iono_topic (if gt_time stamp \<noteq> 0 then Some (cvtTimestamp stamp) else None) iono])"

definition publishTimePulse :: "tp_info option \<Rightarrow> publication list" where
  "publishTimePulse tp =
     (case tp of None \<Rightarrow> [] | Some t \<Rightarrow>
        if gt_time (tp_time t) = 0 then [] else [Time_pulse_topic (tp_info2msg t)])"

definition lla_of :: "pvt_solution \<Rightarrow> lla_msg" where
  "lla_of s =
     \<lparr>lla_stamp = cvtTimestamp (pvt_time s), lla_latitude = pvt_lat s, lla_longitude = pvt_lon s,
      lla_altitude = pvt_hgt s, lla_status = sint (pvt_fix_type s), lla_service = ucast (pvt_carr_soln s)\<rparr>"

definition publishPvt :: "ros_handler \<Rightarrow> pvt_solution option \<Rightarrow> publication list" where
  "publishPvt h ps =
     (case ps of None \<Rightarrow> [] | Some s \<Rightarrow>
        if gt_time (pvt_time s) = 0 then []
        else map (\<lambda>i. Pvt_callback i s) [0..<pvt_callbacks h] @ [Pvt_topic (pvt2msg s), Lla_topic (lla_of s)])"

text \<open>\<open>node_->now()\<close> is the parameter \<open>now\<close>.  The frame is copied up to its length.\<close>

definition publishRtcm :: "int \<Rightarrow> bytes \<Rightarrow> nat \<Rightarrow> u16 \<Rightarrow> u16 \<Rightarrow> publication list" where
  "publishRtcm now data len message_type payload_length =
     (if len = 0 then []
      else [Rtcm_topic now
        \<lparr>rtcm_data = take len data, rtcm_frame_length = len, rtcm_message_type = message_type,
         rtcm_payload_length = payload_length\<rparr>])"

definition registerPvtCallback :: "ros_handler \<Rightarrow> ros_handler" where
  "registerPvtCallback h = h\<lparr>pvt_callbacks := Suc (pvt_callbacks h)\<rparr>"

end
