(* ===== verification/Ubx_Processor.thy ===== *)
theory Ubx_Processor
  imports Ubx_Frame Nav_GPS Ros_Handler
begin

text \<open>
  \<open>process_data\<close> and the handlers it dispatches to: \<open>parse_subframe\<close>, \<open>parse_time_pulse\<close>, \<open>parse_pvt\<close>
  (\<open>parse_meas_msg\<close> is in \<open>Ubx_Meas\<close>).  A step either crashes or gives the new state and what was published.
\<close>

section \<open>Navigation subframes\<close>

definition parse_subframe :: "ubx_state \<Rightarrow> bytes \<Rightarrow> nat \<Rightarrow> crash + ubx_state \<times> ephem_ptr option \<times> f64 list" where
  "parse_subframe st msg len =
     (let sys = ubx_sys (byte_at msg 6) in
      if sys = 0 then Inr (st, None, [])
      else
        let sat = sat_no sys (ucast (byte_at msg 7)) in
        if sat = 0 then Inr (st, None, [])
        else if sys = SYS_GPS then
          (case decode_GPS_subframe st msg len (new_ephem sat) of
             (rc, st', e) \<Rightarrow> Inr (st', Some (Eph e), []))
        else if sys = SYS_BDS then
          (case decode_BDS_subframe st msg len (new_ephem sat) [] of
             (rc, st', e, iono) \<Rightarrow> Inr (st', Some (Eph e), iono))
        else if sys = SYS_GAL then
          (case decode_GAL_subframe st msg len (new_ephem sat) of
             (rc, st', e) \<Rightarrow> Inr (st', Some (Eph e), []))
        else if sys = SYS_GLO then
          (case decode_GLO_subframe st msg len (as_glo (Eph (new_ephem sat))) of
             Inl c \<Rightarrow> Inl c
           | Inr (rc, st', g) \<Rightarrow> Inr (st', Some (Eph (new_ephem sat)), []))
        else Inr (st, None, []))"

section \<open>Time pulses\<close>

definition ref_time_sys :: "u8 \<Rightarrow> u32" where
  "ref_time_sys ref_info =
     (let r = (ucast (ref_info AND 0x0F) :: u32) in
      if r = SYS_GPS then SYS_GPS
      else if r = SYS_BDS then SYS_BDS
      else if r = SYS_GLO then SYS_GLO
      else if r = SYS_GAL then SYS_GAL
      else SYS_NONE)"

definition tp_tow :: "bytes \<Rightarrow> f64" where
  "tp_tow msg =
     fadd (fmul (f64_int (uint (le32 msg 6))) (f64_dec 1 (- 3)))
       (fmul (fmul (f64_int (uint (le32 msg 10))) (f64_dec 1 (- 3))) (f64_of 1 (- 32)))"

definition parse_time_pulse :: "bytes \<Rightarrow> nat \<Rightarrow> tp_info option" where
  "parse_time_pulse msg len =
     (if len \<noteq> 24 then None
      else Some
        \<lparr>tp_time = gpst2time (ucast (le16 msg 18)) (tp_tow msg),
         utc_based = (byte_at msg 20 AND 0x01 \<noteq> 0),
         time_sys = ref_time_sys (byte_at msg 21)\<rparr>)"

section \<open>Position, velocity and time\<close>

definition UBX_PVT_PAYLOAD_LEN :: nat where "UBX_PVT_PAYLOAD_LEN = 92"

abbreviation i4 :: "bytes \<Rightarrow> nat \<Rightarrow> f64" where
  "i4 msg i \<equiv> f64_int (sint (le32 msg (6 + i)))"

abbreviation u4 :: "bytes \<Rightarrow> nat \<Rightarrow> f64" where
  "u4 msg i \<equiv> f64_int (uint (le32 msg (6 + i)))"

text \<open>The GPS week of the receiver time, moved to the one in which \<open>itow\<close> lies nearest.\<close>

definition pvt_stamp :: "gtime \<Rightarrow> u32 \<Rightarrow> gtime" where
  "pvt_stamp now itow =
     (let (week, tow) = time2gpst now;
          t = fmul (f64_int (uint itow)) (f64_dec 1 (- 3));
          week = (if flt (fadd tow half_week) t then week - 1
                  else if flt t (fsub tow half_week) then week + 1 else week)
      in gpst2time week t)"

definition parse_pvt :: "ubx_state \<Rightarrow> bytes \<Rightarrow> nat \<Rightarrow> pvt_solution option" where
  "parse_pvt st msg len =
     (if len \<noteq> kUbxMsgHeaderLen + UBX_PVT_PAYLOAD_LEN + 2 then None
      else if gt_time (curr_time st) = 0 then None
      else
        let flags = byte_at msg (6 + 21); mm = f64_dec 1 (- 3) in
        Some
          \<lparr>pvt_time = pvt_stamp (curr_time st) (le32 msg 6),
           pvt_fix_type = byte_at msg (6 + 20),
           pvt_valid_fix = (flags AND 0x01 \<noteq> 0),
           pvt_diff_soln = (drop_bit 1 (flags AND 0x02) \<noteq> 0),
           pvt_carr_soln = drop_bit 6 (flags AND 0xC0),
           pvt_num_sv = byte_at msg (6 + 23),
           pvt_lat = fmul (i4 msg 28) (f64_dec 1 (- 7)),
           pvt_lon = fmul (i4 msg 24) (f64_dec 1 (- 7)),
           pvt_hgt = fmul (i4 msg 32) mm,
           pvt_hgt_msl = fmul (i4 msg 36) mm,
           pvt_h_acc = fmul (u4 msg 40) mm,
           pvt_v_acc = fmul (u4 msg 44) mm,
           pvt_p_dop = fmul (f64_int (uint (le16 msg (6 + 76)))) (f64_dec 1 (- 2)),
           pvt_vel_n = fmul (i4 msg 48) mm,
           pvt_vel_e = fmul (i4 msg 52) mm,
           pvt_vel_d = fmul (i4 msg 56) mm,
           pvt_vel_acc = fmul (u4 msg 68) mm\<rparr>)"

section \<open>Dispatch\<close>

definition when_handler :: "ros_handler option \<Rightarrow> (ros_handler \<Rightarrow> publication list) \<Rightarrow> publication list" where
  "when_handler h f = (case h of None \<Rightarrow> [] | Some r \<Rightarrow> f r)"

definition process_data ::
  "ubx_state \<Rightarrow> ros_handler option \<Rightarrow> bytes \<Rightarrow> nat \<Rightarrow> crash + ubx_state \<times> publication list" where
  "process_data st h data len =
     (if \<not> verifyMsg data len then Inr (st, [])
      else if msg_type data = UBX_RXMRAWX_ID then
        (let (meas, st') = parse_meas_msg st data len
         in Inr (st', when_handler h (\<lambda>r. publishObservations r meas)))
      else if msg_type data = UBX_RXMSFRBX_ID then
        (case parse_subframe st data len of
           Inl c \<Rightarrow> Inl c
         | Inr (st', ep, iono) \<Rightarrow>
             (case (case h of None \<Rightarrow> Inr [] | Some r \<Rightarrow> publishEphemeris r ep) of
                Inl c \<Rightarrow> Inl c
              | Inr pubs \<Rightarrow>
                  Inr (st', pubs @ when_handler h (\<lambda>r. case ep of None \<Rightarrow> []
                    | Some p \<Rightarrow> publishIonoParams iono (snd (ptr_base p))))))
      else if msg_type data = UBX_TIM_TP_ID then
        Inr (st, when_handler h (\<lambda>r. publishTimePulse (parse_time_pulse data len)))
      else if msg_type data = UBX_NAVPOS_ID then
        Inr (st, when_handler h (\<lambda>r. publishPvt r (parse_pvt st data len)))
      else Inr (st, []))"

end
