(* ===== verification/Ubx_Reads.thy ===== *)
theory Ubx_Reads
  imports Ubx_Processor
begin

text \<open>
  The octets the message processor reads: whatever lies behind the given length never matters, so
  every read of every handler, checked as the handlers check it, stays inside the message.
\<close>

named_theorems local_simps \<open>reads below the length\<close>

declare byte_at_take [local_simps]

lemma byte_at_local [local_simps]:
  "i < len \<Longrightarrow> len \<le> length data \<Longrightarrow> byte_at (take len data @ rest) i = byte_at data i"
  by (simp add: byte_at_take)

lemma le16_local [local_simps]:
  "i + 1 < len \<Longrightarrow> len \<le> length data \<Longrightarrow> le16 (take len data @ rest) i = le16 data i"
  by (simp add: le16_def local_simps)

lemma le32_local [local_simps]:
  "i + 3 < len \<Longrightarrow> len \<le> length data \<Longrightarrow> le32 (take len data @ rest) i = le32 data i"
  by (simp add: le32_def local_simps)

lemma f64_at_local [local_simps]:
  "i + 7 < len \<Longrightarrow> len \<le> length data \<Longrightarrow> f64_at (take len data @ rest) i = f64_at data i"
  by (simp add: f64_at_def le64_def local_simps)

lemma f32_at_local [local_simps]:
  "i + 3 < len \<Longrightarrow> len \<le> length data \<Longrightarrow> f32_at (take len data @ rest) i = f32_at data i"
  by (simp add: f32_at_def local_simps)

lemma read_rawx_local:
  "i + 32 \<le> len \<Longrightarrow> len \<le> length data \<Longrightarrow> read_rawx (take len data @ rest) i = read_rawx data i"
  by (simp add: read_rawx_def local_simps)

section \<open>Handlers\<close>

lemma parse_meas_msg_local:
  assumes "len \<le> length data"
  shows "parse_meas_msg st (take len data @ rest) len = parse_meas_msg st data len"
proof (cases "len \<le> 24")
  case True
  then show ?thesis by (simp add: parse_meas_msg_def)
next
  case False
  have blocks: "meas_blocks (take len data @ rest) = meas_blocks data" if "24 + 32 * unat (byte_at data 17) \<le> len"
    using that False assms by (auto simp add: meas_blocks_def local_simps read_rawx_local)
  have time: "meas_time (take len data @ rest) = meas_time data"
    using False assms by (simp add: meas_time_def local_simps)
  show ?thesis
    using False assms by (simp add: parse_meas_msg_def Let_def local_simps blocks time)
qed

lemma gps_local:
  "len \<le> length data \<Longrightarrow> decode_GPS_subframe st (take len data @ rest) len e = decode_GPS_subframe st data len e"
proof (cases "len < 56")
  case True
  then show ?thesis by (simp add: decode_GPS_subframe_def)
next
  case False
  assume len: "len \<le> length data"
  then have "gps_words (take len data @ rest) = gps_words data"
    using False by (auto simp add: gps_words_def local_simps)
  moreover have "le32 (take len data @ rest) 14 = le32 data 14" using False len by (simp add: local_simps)
  ultimately show ?thesis by (simp only: decode_GPS_subframe_def gps_subframe_id_def)
qed

lemma bds_local:
  "len \<le> length data \<Longrightarrow>
     decode_BDS_subframe st (take len data @ rest) len e iono = decode_BDS_subframe st data len e iono"
proof (cases "len < 56")
  case True
  then show ?thesis by (simp add: decode_BDS_subframe_def)
next
  case False
  assume len: "len \<le> length data"
  then have "bds_words (take len data @ rest) = bds_words data"
    using False by (auto simp add: bds_words_def local_simps)
  then show ?thesis
    by (simp only: decode_BDS_subframe_def bds_d1_branch_def bds_d2_branch_def bds_id_def bds_pgn_def)
qed

lemma swapped_words_local:
  assumes "14 + 4 * n \<le> len" and "len \<le> length data"
  shows "swapped_words (take len data @ rest) n = swapped_words data n"
proof -
  have "byte_at (take len data @ rest) (14 + 4 * i + (3 - j)) = byte_at data (14 + 4 * i + (3 - j))" if "i < n" for i j
    using that assms by (intro byte_at_local) simp_all
  then show ?thesis
    unfolding swapped_words_def by (intro arg_cong [where f = concat] map_cong refl) (simp only: set_upt atLeastLessThan_iff)
qed

lemma gal_local:
  "len \<le> length data \<Longrightarrow> decode_GAL_subframe st (take len data @ rest) len e = decode_GAL_subframe st data len e"
  by (cases "len < 48") (simp_all add: decode_GAL_subframe_def swapped_words_local not_less)

lemma glo_local:
  "len \<le> length data \<Longrightarrow> decode_GLO_subframe st (take len data @ rest) len ep = decode_GLO_subframe st data len ep"
  by (cases "len < 32"; cases ep)
    (simp_all add: decode_GLO_subframe_def swapped_words_local local_simps not_less Let_def)

lemma parse_subframe_local:
  "8 \<le> len \<Longrightarrow> len \<le> length data \<Longrightarrow> parse_subframe st (take len data @ rest) len = parse_subframe st data len"
  unfolding parse_subframe_def by (simp add: gps_local bds_local gal_local glo_local local_simps Let_def)

lemma parse_time_pulse_local:
  "len \<le> length data \<Longrightarrow> parse_time_pulse (take len data @ rest) len = parse_time_pulse data len"
  by (cases "len = 24") (simp_all add: parse_time_pulse_def tp_tow_def local_simps)

lemma parse_pvt_local:
  "len \<le> length data \<Longrightarrow> parse_pvt st (take len data @ rest) len = parse_pvt st data len"
  by (cases "len = 100") (simp_all add: parse_pvt_def kUbxMsgHeaderLen_def UBX_PVT_PAYLOAD_LEN_def local_simps)

text \<open>
  Claim C16.  \<open>process_data\<close> reads nothing behind the length it is given: with any other octets there, in
  the same state, it publishes the same and leaves the same state, for every kind of message and
  every content, the announced counts included.
\<close>

theorem process_data_reads_within:
  assumes "len \<le> length data"
  shows "process_data st h (take len data @ rest) len = process_data st h data len"
proof (cases "verifyMsg data len")
  case False
  then show ?thesis using assms by (simp add: process_data_def verifyMsg_take)
next
  case True
  then have "8 \<le> len" by (rule verifyMsg_len)
  then show ?thesis
    using assms True
    by (simp add: process_data_def verifyMsg_take msg_type_take parse_meas_msg_local parse_subframe_local
        parse_time_pulse_local parse_pvt_local)
qed

definition ack_demo :: bytes where
  "ack_demo = ack_frame @ [0xB5, 0x62, 0x0D]"

theorem process_data_reads_within_witness:
  "process_data ubx_init None (take 10 ack_demo @ [0, 0]) 10 = process_data ubx_init None ack_demo 10"
  by (rule process_data_reads_within) (simp add: ack_demo_def ack_frame_def)

end
