(* ===== verification/Ubx_Pvt.thy ===== *)
theory Ubx_Pvt
  imports Ubx_Processor
begin

text \<open>
  The time stamp of a solution: milliseconds of the week become seconds without error when they are
  whole seconds, and the week is the one nearest to the receiver time.
\<close>

section \<open>Milliseconds\<close>

text \<open>The literal 1e-3 is a little above a thousandth; the error disappears in the rounding of the product.\<close>

lemma milli: "f64_dec 1 (- 3) = f64_of 4611686018427388 (- 62)"
  by code_simp

lemma f64_of_whole:
  assumes "0 < s" and "s < 2 ^ 20"
  shows "f64_of (s * (2 ^ 62 + 96)) (- 62) = f64_int s"
proof -
  define b where "b = blen s"
  define m where "m = s * (2 ^ 62 + 96)"
  have b: "b \<le> 20" "0 < b" "2 ^ (b - 1) \<le> s" "s < 2 ^ b"
    using assms blen_le_iff [of s 20] blen_le_iff [of s "blen s"] blen_ge [of s] blen_le_iff [of s 0]
    by (auto simp add: b_def)
  have m: "m = s * 2 ^ 62 + s * 96" by (simp add: m_def algebra_simps)
  have rest: "s * 96 < 2 ^ 62" using assms by simp
  have blen: "blen m = b + 62"
  proof -
    have "(2 :: int) ^ (b - 1) * 2 ^ 62 \<le> s * 2 ^ 62" using b by simp
    then have "(2 :: int) ^ (b - 1 + 62) \<le> m" using assms(1) by (simp add: power_add m)
    moreover have "(s + 1) * 2 ^ 62 \<le> 2 ^ b * 2 ^ 62" by (rule mult_right_mono) (use b in simp_all)
    then have "s * 2 ^ 62 + 2 ^ 62 \<le> 2 ^ (b + 62)" by (simp add: power_add algebra_simps)
    then have "m < 2 ^ (b + 62)" using rest by (simp add: m)
    moreover have "Suc (b - 1 + 62) = b + 62" using b by simp
    ultimately show ?thesis using blen_eq [of "b - 1 + 62" m] by (simp add: add.commute)
  qed
  have shift: "s * 2 ^ 62 = s * 2 ^ (53 - b) * 2 ^ (b + 9)"
  proof -
    have "(53 - b) + (b + 9) = 62" using b by simp
    then show ?thesis by (metis mult.assoc power_add)
  qed
  have small: "s * 96 * 2 < 2 ^ (b + 9)" 
  proof -
    have "s * 192 < 2 ^ b * 192" using b(4) by simp
    also have "\<dots> \<le> 2 ^ b * 2 ^ 9" by simp
    finally show ?thesis by (simp add: power_add)
  qed
  have "rne m (b + 9) = s * 2 ^ (53 - b)"
  proof -
    have eq: "m = 2 ^ (b + 9) * (s * 2 ^ (53 - b)) + s * 96"
      using m shift by (simp only: mult.commute)
    have "0 \<le> s * 96" "s * 96 < 2 ^ (b + 9)" using small assms(1) by simp_all
    then have "m div 2 ^ (b + 9) = s * 2 ^ (53 - b)" "m mod 2 ^ (b + 9) = s * 96"
      using int_div_pos_eq [OF eq] int_mod_pos_eq [OF eq] by simp_all
    then show ?thesis using small by (simp add: rne_def Let_def mult.commute)
  qed
  then have "f64_of m (- 62) = f64_pack False (s * 2 ^ (53 - b)) (int b - 53)"
    using assms(1) b(1) blen
    by (simp add: f64_of_def Let_def m_def zero_less_mult_iff max_def nat_add_distrib not_less add.commute [of b 9])
  moreover have "f64_int s = f64_pack False (s * 2 ^ (53 - b)) (int b - 53)"
    using assms(1) b(1) by (simp add: f64_int_def f64_of_def Let_def b_def max_def nat_diff_distrib)
  ultimately show ?thesis by (simp add: m_def)
qed

lemma whole_seconds:
  assumes "0 \<le> s" and "s < 2 ^ 20"
  shows "fmul (f64_int (1000 * s)) (f64_dec 1 (- 3)) = f64_int s"
proof (cases "s = 0")
  case True
  moreover have "fmul (f64_int 0) (f64_dec 1 (- 3)) = f64_int 0" by code_simp
  ultimately show ?thesis by simp
next
  case False
  have e: "exact53 (1000 * s) 0" "exact53 4611686018427388 (- 62)"
    using assms by (simp_all add: exact53_def)
  have "fmul (f64_int (1000 * s)) (f64_dec 1 (- 3)) = f64_of (1000 * s * 4611686018427388) (0 + - 62)"
    unfolding milli f64_int_def by (rule fmul_exact [OF e])
  also have "\<dots> = f64_of (s * (2 ^ 62 + 96)) (- 62)" by (simp add: mult.commute)
  also have "\<dots> = f64_int s" using f64_of_whole [of s] False assms by simp
  finally show ?thesis .
qed

section \<open>The week\<close>

definition pvt_week :: "int \<Rightarrow> int \<Rightarrow> int \<Rightarrow> int" where
  "pvt_week w t s = (if t + 302400 < s then w - 1 else if s < t - 302400 then w + 1 else w)"



end
