(* ===== verification/Cxx_Strings.thy ===== *)
theory Cxx_Strings
  imports Cxx_Text
begin

text \<open>
  The operations of \<open>std::string\<close> and of the text streams that the configuration reader, the NTRIP client
  and the NMEA sentence use: searching, splitting into lines and tokens, and hexadecimal numbers.
\<close>

section \<open>Searching\<close>

definition starts_with :: "'a list \<Rightarrow> 'a list \<Rightarrow> bool" where
  "starts_with s p \<longleftrightarrow> take (length p) s = p"

text \<open>\<open>s.find(p)\<close>: the first position, \<open>None\<close> for \<open>npos\<close>.\<close>

fun find_sub :: "'a list \<Rightarrow> 'a list \<Rightarrow> nat option" where
  "find_sub p [] = (if p = [] then Some 0 else None)"
| "find_sub p (c # cs) =
     (if starts_with (c # cs) p then Some 0 else map_option Suc (find_sub p cs))"

lemma starts_with_iff: "starts_with s p \<longleftrightarrow> (\<exists>t. s = p @ t)"
  by (metis append_eq_conv_conj append_take_drop_id starts_with_def)

lemma starts_with_append: "starts_with s p \<Longrightarrow> starts_with (s @ t) p"
  by (auto simp add: starts_with_iff)

lemma find_sub_Some:
  "find_sub p s = Some i \<Longrightarrow> i + length p \<le> length s \<and> take (length p) (drop i s) = p"
proof (induction s arbitrary: i)
  case Nil
  then show ?case by (simp split: if_splits)
next
  case (Cons c cs)
  then show ?case
    by (auto simp add: starts_with_def split: if_splits)
      (metis length_Cons length_take min.cobounded1)
qed

lemma find_sub_least: "find_sub p s = Some i \<Longrightarrow> j < i \<Longrightarrow> \<not> starts_with (drop j s) p"
proof (induction s arbitrary: i j)
  case (Cons c cs)
  then show ?case by (cases j) (auto split: if_splits)
qed (simp split: if_splits)

lemma find_sub_None: "p \<noteq> [] \<Longrightarrow> find_sub p s = None \<Longrightarrow> \<not> starts_with (drop j s) p"
proof (induction s arbitrary: j)
  case Nil
  then show ?case by (simp add: starts_with_def)
next
  case (Cons c cs)
  then show ?case by (cases j) (auto split: if_splits)
qed

lemma find_sub_prefix: "find_sub p (p @ t) = Some 0"
proof (cases "p @ t")
  case (Cons c cs)
  then have "starts_with (c # cs) p" by (metis starts_with_iff)
  with Cons show ?thesis by simp
qed simp

text \<open>A match in the front stays the first match when text is appended.\<close>

lemma find_sub_append: "find_sub p s = Some i \<Longrightarrow> find_sub p (s @ t) = Some i"
proof (induction s arbitrary: i)
  case Nil
  then show ?case using find_sub_prefix [of "[]" t] by (simp split: if_splits)
next
  case (Cons c cs)
  have "length p \<le> length (c # cs)"
    using find_sub_Some [OF Cons.prems] by simp
  then have "starts_with (c # cs @ t) p \<longleftrightarrow> starts_with (c # cs) p"
    by (simp add: starts_with_def flip: append_Cons)
  with Cons show ?case by (auto split: if_splits)
qed

section \<open>Lines and tokens\<close>

text \<open>The lines \<open>std::getline\<close> returns one after the other.\<close>

function getlines :: "string \<Rightarrow> string list" where
  "getlines s =
     (if s = [] then []
      else takeWhile (\<lambda>c. c \<noteq> CHR 0x0A) s # getlines (drop (Suc (length (takeWhile (\<lambda>c. c \<noteq> CHR 0x0A) s))) s))"
  by pat_completeness auto
termination
  by (relation "measure length") auto

declare getlines.simps [simp del]

lemma length_dropWhile_hd: "t \<noteq> [] \<Longrightarrow> P (hd t) \<Longrightarrow> length (dropWhile P t) < length t"
  by (cases t) (auto simp add: le_imp_less_Suc length_dropWhile_le)

text \<open>The tokens \<open>ss >> token\<close> returns one after the other.\<close>

function tokens :: "string \<Rightarrow> string list" where
  "tokens s =
     (let t = dropWhile is_space s in
      if t = [] then [] else takeWhile (\<lambda>c. \<not> is_space c) t # tokens (dropWhile (\<lambda>c. \<not> is_space c) t))"
  by pat_completeness auto

termination
proof (relation "measure length")
  fix s t
  assume "t = dropWhile is_space s" and "t \<noteq> []"
  then have "\<not> is_space (hd t)" using hd_dropWhile [of is_space s] by simp
  with \<open>t \<noteq> []\<close> have "length (dropWhile (\<lambda>c. \<not> is_space c) t) < length t"
    by (intro length_dropWhile_hd) auto
  also have "length t \<le> length s"
    using \<open>t = dropWhile is_space s\<close> by (simp add: length_dropWhile_le)
  finally show "(dropWhile (\<lambda>c. \<not> is_space c) t, s) \<in> measure length" by simp
qed simp

declare tokens.simps [simp del]

lemma getlines_Nil [simp]: "getlines [] = []"
  by (simp add: getlines.simps)

lemma tokens_Nil [simp]: "tokens [] = []"
  by (simp add: tokens.simps)

definition to_lower_char :: "char \<Rightarrow> char" where
  "to_lower_char c = (if 65 \<le> code_of c \<and> code_of c \<le> 90 then char_of (code_of c + 32) else c)"

section \<open>Hexadecimal numbers\<close>

definition hex_val :: "char \<Rightarrow> nat option" where
  "hex_val c =
     (let n = code_of c in
      if 48 \<le> n \<and> n \<le> 57 then Some (n - 48)
      else if 65 \<le> n \<and> n \<le> 70 then Some (n - 55)
      else if 97 \<le> n \<and> n \<le> 102 then Some (n - 87)
      else None)"

definition is_hex :: "char \<Rightarrow> bool" where
  "is_hex c \<longleftrightarrow> hex_val c \<noteq> None"

definition hex_number :: "string \<Rightarrow> nat" where
  "hex_number ds = foldl (\<lambda>n c. 16 * n + the (hex_val c)) 0 ds"

text \<open>The optional prefix \<open>0x\<close> counts as one only when a digit follows.\<close>

definition skip_0x :: "string \<Rightarrow> string" where
  "skip_0x s =
     (case s of
        a # b # c # r \<Rightarrow>
          if a = CHR ''0'' \<and> (b = CHR ''x'' \<or> b = CHR ''X'') \<and> is_hex c then c # r else s
      | _ \<Rightarrow> s)"

text \<open>\<open>std::stoul(s, nullptr, 16)\<close> with a 64-bit \<open>unsigned long\<close>.\<close>

definition stoul16 :: "string \<Rightarrow> cxx_error + nat" where
  "stoul16 s =
     (let (neg, t) = split_sign s; ds = takeWhile is_hex (skip_0x t); n = hex_number ds in
      if ds = [] then Inl Invalid_argument
      else if n \<ge> 2 ^ 64 then Inl Out_of_range
      else Inr (if neg then (2 ^ 64 - n) mod 2 ^ 64 else n))"

definition hex_digit :: "nat \<Rightarrow> char" where
  "hex_digit d = (if d < 10 then char_of (48 + d) else char_of (55 + d))"

text \<open>\<open>uppercase\<close>, \<open>hex\<close>, \<open>setw(2)\<close>, \<open>setfill('0')\<close> of an octet.\<close>

definition hex2 :: "u8 \<Rightarrow> string" where
  "hex2 w = [hex_digit (unat w div 16), hex_digit (unat w mod 16)]"

lemma hex_val_digit: "d < 16 \<Longrightarrow> hex_val (hex_digit d) = Some d"
  by (auto simp add: hex_val_def hex_digit_def Let_def of_char_of)

lemma octet_digits: "unat (w :: u8) div 16 < 16"
  using unat_u8_less [of w] by (simp add: less_mult_imp_div_less)

lemma hex_number_hex2: "hex_number (hex2 w) = unat w"
  by (simp add: hex_number_def hex2_def hex_val_digit octet_digits)

lemma hex2_plain: "is_hex c \<Longrightarrow> \<not> is_space c \<and> c \<noteq> CHR ''-'' \<and> c \<noteq> CHR ''+'' \<and> c \<noteq> CHR ''x'' \<and> c \<noteq> CHR ''X''"
  by (auto simp add: is_hex_def hex_val_def is_space_def Let_def split: if_splits)

lemma set_hex2: "c \<in> set (hex2 w) \<Longrightarrow> is_hex c"
  by (auto simp add: hex2_def is_hex_def hex_val_digit octet_digits)

lemma stoul16_hex2: "stoul16 (hex2 w) = Inr (unat w)"
proof -
  obtain a b where ab: "hex2 w = [a, b]" by (simp add: hex2_def)
  then have h: "is_hex a" "is_hex b" using set_hex2 [of _ w] by auto
  have "split_sign (hex2 w) = (False, hex2 w)"
    using hex2_plain [OF h(1)] by (simp add: split_sign_def ab)
  moreover have "skip_0x (hex2 w) = hex2 w" by (simp add: skip_0x_def ab)
  moreover have "unat w < 2 ^ 64" by (rule less_trans [OF unat_u8_less]) simp
  ultimately show ?thesis
    using hex_number_hex2 [of w] h by (simp add: stoul16_def Let_def ab)
qed

end
