(* ===== verification/Rcv_Config.thy ===== *)
theory Rcv_Config
  imports Ubx_Frame Cxx_Strings
begin

text \<open>
  The receiver configuration: the records of \<open>params.hpp\<close>, \<open>build_config_msg\<close>, which writes them into one
  UBX-CFG-VALSET message, and the octet level of \<open>ParseUCenterConfig\<close>, which reads them out of one.
\<close>

section \<open>Records and tables\<close>

record RcvConfigRecord =
  key_name :: string
  value_text :: string
  key_id :: u32
  value_bytes :: bytes
  use_raw_key_value :: bool

definition named_record :: "string \<Rightarrow> string \<Rightarrow> RcvConfigRecord" where
  "named_record name val =
     \<lparr>key_name = name, value_text = val, key_id = 0, value_bytes = [], use_raw_key_value = False\<rparr>"

definition raw_record :: "u32 \<Rightarrow> bytes \<Rightarrow> RcvConfigRecord" where
  "raw_record key val =
     \<lparr>key_name = [], value_text = [], key_id = key, value_bytes = val, use_raw_key_value = True\<rparr>"

definition rcv_config_item2code :: "(string \<times> u32 \<times> string) list" where
  "rcv_config_item2code =
    [(''CFG-MSGOUT-UBX_NAV_HPPOSECEF'', 0x2091002f, ''U1''),
     (''CFG-MSGOUT-UBX_NAV_HPPOSLLH'', 0x20910034, ''U1''),
     (''CFG-MSGOUT-UBX_NAV_POSECEF'', 0x20910025, ''U1''),
     (''CFG-MSGOUT-UBX_NAV_POSLLH'', 0x2091002A, ''U1''),
     (''CFG-MSGOUT-UBX_NAV_PVT'', 0x20910007, ''U1''),
     (''CFG-MSGOUT-UBX_NAV_SAT'', 0x20910016, ''U1''),
     (''CFG-MSGOUT-UBX_NAV_STATUS'', 0x2091001B, ''U1''),
     (''CFG-MSGOUT-UBX_NAV_VELECEF'', 0x2091003E, ''U1''),
     (''CFG-MSGOUT-UBX_NAV_VELNED'', 0x20910043, ''U1''),
     (''CFG-MSGOUT-UBX_RXM_RAWX'', 0x209102A5, ''U1''),
     (''CFG-MSGOUT-UBX_RXM_SFRBX'', 0x20910232, ''U1''),
     (''CFG-NAVSPG-DYNMODEL'', 0x20110021, ''E1''),
     (''CFG-RATE-MEAS'', 0x30210001, ''U2''),
     (''CFG-RATE-NAV'', 0x30210002, ''U2''),
     (''CFG-RATE-TIMEREF'', 0x20210003, ''E1''),
     (''CFG-SIGNAL-GPS_ENA'', 0x1031001F, ''L''),
     (''CFG-SIGNAL-GPS_L1CA_ENA'', 0x10310001, ''L''),
     (''CFG-SIGNAL-GPS_L2CA_ENA'', 0x10310003, ''L''),
     (''CFG-SIGNAL-GAL_ENA'', 0x10310021, ''L''),
     (''CFG-SIGNAL-GAL_E1_ENA'', 0x10310007, ''L''),
     (''CFG-SIGNAL-GAL_E5B_ENA'', 0x1031000A, ''L''),
     (''CFG-SIGNAL-BDS_ENA'', 0x10310022, ''L''),
     (''CFG-SIGNAL-BDS_B1_ENA'', 0x1031000D, ''L''),
     (''CFG-SIGNAL-BDS_B2_ENA'', 0x1031000E, ''L''),
     (''CFG-SIGNAL-QZSS_ENA'', 0x10310024, ''L''),
     (''CFG-SIGNAL-QZSS_L1CA_ENA'', 0x10310012, ''L''),
     (''CFG-SIGNAL-QZSS_L2C_ENA'', 0x10310015, ''L''),
     (''CFG-SIGNAL-GLO_ENA'', 0x10310025, ''L''),
     (''CFG-SIGNAL-GLO_L1_ENA'', 0x10310018, ''L''),
     (''CFG-SIGNAL-GLO_L2_ENA'', 0x1031001A, ''L''),
     (''CFG-UART1-BAUDRATE'', 0x40520001, ''U4''),
     (''CFG-UART1-STOPBITS'', 0x20520002, ''E1''),
     (''CFG-UART1-DATABITS'', 0x20520003, ''E1''),
     (''CFG-UART1-PARITY'', 0x20520004, ''E1''),
     (''CFG-UART1-ENABLED'', 0x10520005, ''L''),
     (''CFG-UART1INPROT-UBX'', 0x10730001, ''L''),
     (''CFG-UART1INPROT-NMEA'', 0x10730002, ''L''),
     (''CFG-UART1INPROT-RTCM3X'', 0x10730004, ''L''),
     (''CFG-UART1OUTPROT-UBX'', 0x10740001, ''L''),
     (''CFG-UART1OUTPROT-NMEA'', 0x10740002, ''L''),
     (''CFG-UART1OUTPROT-RTCM3X'', 0x10740004, ''L''),
     (''CFG-UART2-BAUDRATE'', 0x40530001, ''U4''),
     (''CFG-UART2-STOPBITS'', 0x20530002, ''E1''),
     (''CFG-UART2-DATABITS'', 0x20530003, ''E1''),
     (''CFG-UART2-PARITY'', 0x20530004, ''E1''),
     (''CFG-UART2-ENABLED'', 0x10530005, ''L''),
     (''CFG-UART2INPROT-UBX'', 0x10750001, ''L''),
     (''CFG-UART2INPROT-NMEA'', 0x10750002, ''L''),
     (''CFG-UART2INPROT-RTCM3X'', 0x10750004, ''L''),
     (''CFG-UART2OUTPROT-UBX'', 0x10760001, ''L''),
     (''CFG-UART2OUTPROT-NMEA'', 0x10760002, ''L''),
     (''CFG-UART2OUTPROT-RTCM3X'', 0x10760004, ''L''),
     (''CFG-USB-ENABLED'', 0x10650001, ''L''),
     (''CFG-USBINPROT-UBX'', 0x10770001, ''L''),
     (''CFG-USBINPROT-NMEA'', 0x10770002, ''L''),
     (''CFG-USBINPROT-RTCM3X'', 0x10770004, ''L''),
     (''CFG-USBOUTPROT-UBX'', 0x10780001, ''L''),
     (''CFG-USBOUTPROT-NMEA'', 0x10780002, ''L''),
     (''CFG-USBOUTPROT-RTCM3X'', 0x10780004, ''L''),
     (''CFG-TP-PULSE_DEF'', 0x20050023, ''E1'')]"

definition rcv_config_type2code :: "(string \<times> nat) list" where
  "rcv_config_type2code =
    [(''U1'', 1), (''U2'', 2), (''U4'', 3), (''U8'', 4), (''E1'', 5), (''E2'', 6), (''E4'', 7), (''X1'', 8),
     (''X2'', 9), (''X4'', 10), (''X8'', 11), (''L'', 12), (''I1'', 13), (''I2'', 14), (''I4'', 15), (''I8'', 16),
     (''R4'', 17), (''R8'', 18)]"

section \<open>One record\<close>

text \<open>
  How the call can end early: with -1, with an exception of \<open>stoull\<close>, or by writing behind the buffer.
  \<open>Unused_type\<close> stands for the two branches of the floating types, which no item of the table has.
\<close>

datatype config_error = Refused | Uncaught cxx_error | Overrun | Unused_type

definition le16_bytes :: "u16 \<Rightarrow> bytes" where
  "le16_bytes w = [ucast w, ucast (drop_bit 8 w)]"

definition le32_bytes :: "u32 \<Rightarrow> bytes" where
  "le32_bytes w = [ucast w, ucast (drop_bit 8 w), ucast (drop_bit 16 w), ucast (drop_bit 24 w)]"

definition le64_bytes :: "u64 \<Rightarrow> bytes" where
  "le64_bytes w = le32_bytes (ucast w) @ le32_bytes (ucast (drop_bit 32 w))"

text \<open>The parts before and after the last underscore.\<close>

definition before_last :: "string \<Rightarrow> string" where
  "before_last s = rev (tl (dropWhile (\<lambda>c. c \<noteq> CHR ''_'') (rev s)))"

definition after_last :: "string \<Rightarrow> string" where
  "after_last s = rev (takeWhile (\<lambda>c. c \<noteq> CHR ''_'') (rev s))"

definition config_code :: "string \<Rightarrow> (u32 \<times> string) option" where
  "config_code key =
     (case map_of rcv_config_item2code key of
        Some c \<Rightarrow> Some c
      | None \<Rightarrow>
          if starts_with key ''CFG-MSGOUT-UBX_NAV_'' then
            (case map_of rcv_config_item2code (before_last key) of
               None \<Rightarrow> None
             | Some (c, t) \<Rightarrow> Some
                 (if after_last key = ''UART1'' then c
                  else if after_last key = ''UART2'' then c + 1
                  else if after_last key = ''USB'' then c + 2
                  else 0, t))
          else None)"

definition GetValueByteCount :: "u32 \<Rightarrow> nat" where
  "GetValueByteCount key =
     (let value_size = unat (drop_bit 28 key AND 0x07) in if value_size > 2 then 2 ^ (value_size - 2) else 1)"

definition config_value :: "string \<Rightarrow> string \<Rightarrow> config_error + bytes" where
  "config_value data_type val =
     (case map_of rcv_config_type2code data_type of
        None \<Rightarrow> Inl (Uncaught Out_of_range)
      | Some c \<Rightarrow>
          if c \<le> 12 then
            (case stoull val of Inl e \<Rightarrow> Inl (Uncaught e) | Inr n \<Rightarrow> Inr (le64_bytes (of_nat n)))
          else if c \<le> 16 then
            (case stoll val of Inl e \<Rightarrow> Inl (Uncaught e) | Inr i \<Rightarrow> Inr (le64_bytes (of_int i)))
          else Inl Unused_type)"

text \<open>
  Key, octets and number of octets of a record; the number is a \<open>uint8_t\<close>.
\<close>

definition config_item :: "RcvConfigRecord \<Rightarrow> config_error + u32 \<times> bytes" where
  "config_item r =
     (if use_raw_key_value r then
        (if value_bytes r = [] then Inl Refused
         else Inr (key_id r, take (length (value_bytes r) mod 256) (value_bytes r)))
      else if key_name r = [] then Inl Refused
      else case config_code (key_name r) of
        None \<Rightarrow> Inl Refused
      | Some (code, data_type) \<Rightarrow>
          (case config_value data_type (value_text r) of
             Inl e \<Rightarrow> Inl e
           | Inr val \<Rightarrow> Inr (code, take (GetValueByteCount code) val)))"

section \<open>The message\<close>

text \<open>The buffer, the write position \<open>p\<close> in it and the 16-bit payload length.\<close>

type_synonym config_state = "bytes \<times> nat \<times> u16"

definition append_record :: "config_state \<Rightarrow> u32 \<Rightarrow> bytes \<Rightarrow> config_error + config_state" where
  "append_record st code val =
     (case st of (buff, p, payload_len) \<Rightarrow>
        if length buff < p + 4 + length val then Inl Overrun
        else Inr (store_at (store_at buff p (le32_bytes code)) (p + 4) val,
                  p + 4 + length val, payload_len + 4 + of_nat (length val)))"

fun append_records :: "RcvConfigRecord list \<Rightarrow> config_state \<Rightarrow> config_error + config_state" where
  "append_records [] st = Inr st"
| "append_records (r # rs) st =
     (case config_item r of
        Inl e \<Rightarrow> Inl e
      | Inr (code, val) \<Rightarrow>
          (case append_record st code val of Inl e \<Rightarrow> Inl e | Inr st' \<Rightarrow> append_records rs st'))"

definition build_config_msg :: "RcvConfigRecord list \<Rightarrow> bytes \<Rightarrow> config_error + bytes \<times> nat" where
  "build_config_msg rcv_configs buff =
     (if length buff < 10 then Inl Overrun
      else let buff1 = store_at (store_at buff 0 [UBX_SYNC_1, UBX_SYNC_2, 0x06, 0x8A]) 6 [0, 1, 0, 0] in
      case append_records rcv_configs (buff1, 10, 4) of
        Inl e \<Rightarrow> Inl e
      | Inr (buff2, p, payload_len) \<Rightarrow>
          (let buff3 = store_at buff2 4 (le16_bytes payload_len); msg_len = 6 + unat payload_len + 2 in
           if length buff3 < msg_len then Inl Overrun
           else Inr (set_checksum buff3 msg_len, msg_len)))"

section \<open>Reading a message back\<close>

datatype cfg_line_error = Bad_format | Length_mismatch | Truncated | Trailing

function parse_key_values :: "bytes \<Rightarrow> cfg_line_error + RcvConfigRecord list" where
  "parse_key_values rest =
     (if length rest < 4 then (if rest = [] then Inr [] else Inl Trailing)
      else let key = le32 rest 0; n = GetValueByteCount key; rest4 = drop 4 rest in
      if length rest4 < n then Inl Truncated
      else case parse_key_values (drop n rest4) of
        Inl e \<Rightarrow> Inl e
      | Inr rs \<Rightarrow> Inr (raw_record key (take n rest4) # rs))"
  by pat_completeness auto
termination
  by (relation "measure length") auto

declare parse_key_values.simps [simp del]

text \<open>The octets of one line: class and id of VALSET or VALGET, length, four octets, then the records.\<close>

definition parse_cfg_bytes :: "bytes \<Rightarrow> cfg_line_error + RcvConfigRecord list" where
  "parse_cfg_bytes bs =
     (if length bs < 8 \<or> byte_at bs 0 \<noteq> 0x06 \<or> byte_at bs 1 \<noteq> 0x8A \<and> byte_at bs 1 \<noteq> 0x8B then Inl Bad_format
      else let payload_len = unat (le16 bs 2) in
      if length bs \<noteq> payload_len + 4 then Inl Length_mismatch
      else if payload_len < 4 then Inr []
      else parse_key_values (drop 8 bs))"

section \<open>Octets of words\<close>

lemma le16_le16_bytes: "le16 (le16_bytes w @ x) 0 = w"
proof (rule bit_eqI)
  fix n assume "possible_bit TYPE(16 word) n"
  then show "bit (le16 (le16_bytes w @ x) 0) n = bit w n"
    by (auto simp add: le16_def le16_bytes_def bit_or_iff bit_push_bit_iff bit_ucast_iff bit_drop_bit_eq)
qed

lemma le32_le32_bytes: "le32 (le32_bytes w @ x) 0 = w"
proof (rule bit_eqI)
  fix n assume "possible_bit TYPE(32 word) n"
  then have "n < 32" by simp
  then consider "n < 8" | "8 \<le> n" "n < 16" | "16 \<le> n" "n < 24" | "24 \<le> n" "n < 32" by linarith
  then show "bit (le32 (le32_bytes w @ x) 0) n = bit w n"
    by cases (auto simp add: le32_def le32_bytes_def bit_or_iff bit_push_bit_iff bit_ucast_iff bit_drop_bit_eq)
qed

lemma length_le_bytes [simp]:
  "length (le16_bytes w) = 2" "length (le32_bytes v) = 4" "length (le64_bytes u) = 8"
  by (simp_all add: le16_bytes_def le32_bytes_def le64_bytes_def)

section \<open>What is appended\<close>

fun config_items :: "RcvConfigRecord list \<Rightarrow> config_error + (u32 \<times> bytes) list" where
  "config_items [] = Inr []"
| "config_items (r # rs) =
     (case config_item r of
        Inl e \<Rightarrow> Inl e
      | Inr kv \<Rightarrow> (case config_items rs of Inl e \<Rightarrow> Inl e | Inr kvs \<Rightarrow> Inr (kv # kvs)))"

definition encode_items :: "(u32 \<times> bytes) list \<Rightarrow> bytes" where
  "encode_items kvs = concat (map (\<lambda>(k, v). le32_bytes k @ v) kvs)"

lemma encode_items_simps [simp]:
  "encode_items [] = []" "encode_items ((k, v) # kvs) = le32_bytes k @ v @ encode_items kvs"
  by (simp_all add: encode_items_def)

lemma store_at_append:
  "off + length xs + length ys \<le> length b
    \<Longrightarrow> store_at (store_at b off xs) (off + length xs) ys = store_at b off (xs @ ys)"
  by (simp add: store_at_def ac_simps)

lemma append_records_spec:
  assumes "config_items rs = Inr kvs" and "p \<le> length b"
  shows "append_records rs (b, p, l) =
    (if length b < p + length (encode_items kvs) then Inl Overrun
     else Inr (store_at b p (encode_items kvs), p + length (encode_items kvs),
               l + of_nat (length (encode_items kvs))))"
  using assms
proof (induction rs arbitrary: kvs b p l)
  case Nil
  then show ?case by (simp add: store_at_def)
next
  case (Cons r rs)
  then obtain k v kvs' where r: "config_item r = Inr (k, v)" "config_items rs = Inr kvs'" "kvs = (k, v) # kvs'"
    by (auto split: sum.splits)
  let ?b = "store_at (store_at b p (le32_bytes k)) (p + 4) v"
  show ?case
  proof (cases "length b < p + 4 + length v")
    case True
    with r show ?thesis by (simp add: append_record_def)
  next
    case False
    then have b: "length ?b = length b" "?b = store_at b p (le32_bytes k @ v)"
      using store_at_append [of p "le32_bytes k" v b] by simp_all
    have "append_records (r # rs) (b, p, l) = append_records rs (?b, p + 4 + length v, l + 4 + of_nat (length v))"
      using r False by (simp add: append_record_def)
    also have "\<dots> = (if length b < p + length (encode_items kvs) then Inl Overrun
       else Inr (store_at ?b (p + 4 + length v) (encode_items kvs'), p + length (encode_items kvs),
                 l + of_nat (length (encode_items kvs))))"
      using Cons.IH [OF r(2), of "p + 4 + length v" ?b] False b(1) r(3) by (simp add: ac_simps)
    also have "\<dots> = (if length b < p + length (encode_items kvs) then Inl Overrun
       else Inr (store_at b p (encode_items kvs), p + length (encode_items kvs),
                 l + of_nat (length (encode_items kvs))))"
      using store_at_append [of p "le32_bytes k @ v" "encode_items kvs'" b] b(2) r(3) by (simp add: ac_simps)
    finally show ?thesis .
  qed
qed

section \<open>Sizes of values\<close>

lemma config_table_sizes:
  "list_all (\<lambda>(n, c, t). GetValueByteCount c \<le> 8 \<and> GetValueByteCount (c + 1) \<le> 8 \<and> GetValueByteCount (c + 2) \<le> 8)
     rcv_config_item2code"
  by code_simp

lemma config_table_types:
  "list_all (\<lambda>(n, c, t). case map_of rcv_config_type2code t of None \<Rightarrow> False | Some i \<Rightarrow> i \<le> 12) rcv_config_item2code"
  by code_simp

lemma config_code_size: "config_code key = Some (c, t) \<Longrightarrow> GetValueByteCount c \<le> 8"
proof -
  assume c: "config_code key = Some (c, t)"
  have "GetValueByteCount 0 \<le> 8" by code_simp
  with c config_table_sizes show ?thesis
    by (auto simp add: config_code_def list_all_iff split: option.splits if_splits dest!: map_of_SomeD)
qed

definition raw_sized :: "RcvConfigRecord \<Rightarrow> bool" where
  "raw_sized r \<longleftrightarrow> (use_raw_key_value r \<longrightarrow> length (value_bytes r) = GetValueByteCount (key_id r))"

lemma GetValueByteCount_less: "GetValueByteCount k < 256"
proof -
  have "unat (drop_bit 28 k AND 7) \<le> 7"
    using word_and_le1 [of "drop_bit 28 k" 7] by (simp add: word_le_nat_alt and.commute)
  then have "(2::nat) ^ (unat (drop_bit 28 k AND 7) - 2) \<le> 2 ^ 5" by (intro power_increasing) auto
  then show ?thesis by (auto simp add: GetValueByteCount_def Let_def)
qed

lemma config_item_size:
  assumes "config_item r = Inr (k, v)" and "raw_sized r"
  shows "length v = GetValueByteCount k"
proof (cases "use_raw_key_value r")
  case True
  with assms GetValueByteCount_less [of "key_id r"] show ?thesis
    by (auto simp add: config_item_def raw_sized_def split: if_splits)
next
  case False
  with assms(1) obtain t val where "config_code (key_name r) = Some (k, t)" "config_value t (value_text r) = Inr val"
    "v = take (GetValueByteCount k) val"
    by (auto simp add: config_item_def split: if_splits option.splits sum.splits)
  moreover from this have "length val = 8"
    by (auto simp add: config_value_def split: if_splits option.splits sum.splits)
  ultimately show ?thesis using config_code_size by simp
qed

lemma config_items_sizes:
  "config_items rs = Inr kvs \<Longrightarrow> list_all raw_sized rs \<Longrightarrow> list_all (\<lambda>(k, v). length v = GetValueByteCount k) kvs"
  by (induction rs arbitrary: kvs) (auto dest: config_item_size split: sum.splits)

text \<open>Every named item is an unsigned integer: the branches for signed and floating types are never taken.\<close>

lemma config_item_unused: "config_item r \<noteq> Inl Unused_type"
proof
  assume "config_item r = Inl Unused_type"
  then obtain c t where c: "config_code (key_name r) = Some (c, t)" "config_value t (value_text r) = Inl Unused_type"
    by (auto simp add: config_item_def split: if_splits option.splits sum.splits)
  then have "\<exists>n c. (n, c, t) \<in> set rcv_config_item2code"
    by (auto simp add: config_code_def split: option.splits if_splits dest!: map_of_SomeD)
  with c(2) config_table_types show False
    by (fastforce simp add: list_all_iff config_value_def split: option.splits sum.splits if_splits)
qed

section \<open>Parsing what was built\<close>

lemma parse_encoded:
  "list_all (\<lambda>(k, v). length v = GetValueByteCount k) kvs
    \<Longrightarrow> parse_key_values (encode_items kvs) = Inr (map (\<lambda>(k, v). raw_record k v) kvs)"
proof (induction kvs)
  case Nil
  then show ?case by (simp add: parse_key_values.simps [of "[]"])
next
  case (Cons kv kvs)
  obtain k v where kv: "kv = (k, v)" by fastforce
  with Cons.prems have v: "GetValueByteCount k = length v" by simp
  have "parse_key_values (le32_bytes k @ v @ encode_items kvs) = Inr (raw_record k v # map (\<lambda>(k, v). raw_record k v) kvs)"
    using Cons v by (subst parse_key_values.simps) (simp add: le32_le32_bytes Let_def)
  then show ?case by (simp add: kv)
qed

section \<open>The whole message\<close>

definition valset_image :: "(u32 \<times> bytes) list \<Rightarrow> bytes" where
  "valset_image kvs =
     [UBX_SYNC_1, UBX_SYNC_2, 0x06, 0x8A] @ le16_bytes (4 + of_nat (length (encode_items kvs)))
       @ [0, 1, 0, 0] @ encode_items kvs"

lemma take_set_checksum: "k \<le> n - 2 \<Longrightarrow> take k (set_checksum b n) = take k b"
  by (simp add: set_checksum_def split_beta take_update_cancel)

lemma split10: "10 \<le> length b \<Longrightarrow> \<exists>b0 b1 b2 b3 b4 b5 b6 b7 b8 b9 r. b = [b0, b1, b2, b3, b4, b5, b6, b7, b8, b9] @ r"
  by (auto simp add: eval_nat_numeral Suc_le_length_iff)

lemma build_config_msg_image:
  assumes "config_items rs = Inr kvs" and "length buff \<le> 65536" and "12 + length (encode_items kvs) \<le> length buff"
  shows "\<exists>b. build_config_msg rs buff = Inr (b, 12 + length (encode_items kvs)) \<and> length b = length buff
    \<and> take (10 + length (encode_items kvs)) b = valset_image kvs \<and> check_checksum b (12 + length (encode_items kvs))"
proof -
  let ?e = "encode_items kvs"
  obtain b0 b1 b2 b3 b4 b5 b6 b7 b8 b9 r where buff: "buff = [b0, b1, b2, b3, b4, b5, b6, b7, b8, b9] @ r"
    using split10 [of buff] assms(3) by auto
  let ?b1 = "[UBX_SYNC_1, UBX_SYNC_2, 0x06, 0x8A, b4, b5, 0, 1, 0, 0] @ r"
  have b1: "store_at (store_at buff 0 [UBX_SYNC_1, UBX_SYNC_2, 0x06, 0x8A]) 6 [0, 1, 0, 0] = ?b1"
    by (simp add: store_at_def buff)
  let ?len = "4 + of_nat (length ?e) :: u16"
  have len: "unat ?len = 4 + length ?e"
    using assms(2,3) by (simp add: unat_word_ariths unat_of_nat)
  let ?b3 = "[UBX_SYNC_1, UBX_SYNC_2, 0x06, 0x8A] @ le16_bytes ?len @ [0, 1, 0, 0] @ ?e @ drop (length ?e) r"
  have "drop (10 + length ?e) ?b1 = drop (length ?e) (drop 10 ?b1)"
    by (simp only: drop_drop add.commute)
  then have "drop (10 + length ?e) ?b1 = drop (length ?e) r" by simp
  then have "store_at (store_at ?b1 10 ?e) 4 (le16_bytes ?len) = ?b3"
    by (simp add: store_at_def le16_bytes_def)
  moreover have "append_records rs (?b1, 10, 4) = Inr (store_at ?b1 10 ?e, 10 + length ?e, ?len)"
    using append_records_spec [OF assms(1), of 10 ?b1 4] assms(3) by (simp add: buff)
  ultimately have "build_config_msg rs buff = Inr (set_checksum ?b3 (12 + length ?e), 12 + length ?e)"
    using assms(3) len b1 by (simp add: build_config_msg_def Let_def buff)
  moreover have "take (10 + length ?e) ?b3 = valset_image kvs"
    using take_append [of "10 + length ?e" "valset_image kvs" "drop (length ?e) r"]
    by (simp add: valset_image_def)
  then have "take (10 + length ?e) (set_checksum ?b3 (12 + length ?e)) = valset_image kvs"
    by (simp only: take_set_checksum [of "10 + length ?e" "12 + length ?e" ?b3])
  moreover have "check_checksum (set_checksum ?b3 (12 + length ?e)) (12 + length ?e)"
    using assms(3) by (intro check_set_checksum) (simp_all add: buff)
  moreover have "length ?b3 = length buff" using assms(3) by (simp add: buff)
  ultimately show ?thesis by auto
qed

lemma length_field:
  "length (encode_items kvs) \<le> 65531
    \<Longrightarrow> unat (4 + of_nat (length (encode_items kvs)) :: u16) = 4 + length (encode_items kvs)"
  by (simp add: unat_word_ariths unat_of_nat)

lemma build_config_msg_valid:
  assumes "config_items rs = Inr kvs" and "length buff \<le> 65536" and "12 + length (encode_items kvs) \<le> length buff"
  shows "\<exists>b. build_config_msg rs buff = Inr (b, 12 + length (encode_items kvs))
    \<and> verifyMsg b (12 + length (encode_items kvs)) \<and> msg_type b = 0x068A
    \<and> take (10 + length (encode_items kvs)) b = valset_image kvs"
proof -
  let ?n = "12 + length (encode_items kvs)" and ?len = "4 + of_nat (length (encode_items kvs)) :: u16"
  obtain b where b: "build_config_msg rs buff = Inr (b, ?n)" "take (10 + length (encode_items kvs)) b = valset_image kvs"
    "check_checksum b ?n"
    using build_config_msg_image [OF assms] by auto
  have at: "byte_at b i = byte_at (valset_image kvs) i" if "i < 10" for i
    using that b(2) by (metis byte_at_take trans_less_add1)
  have "le16 b 4 = le16 (le16_bytes ?len @ []) 0"
    using at [of 4] at [of 5] by (simp add: le16_def valset_image_def le16_bytes_def)
  then have "le16 b 4 = ?len" by (simp only: le16_le16_bytes)
  then have "verifyMsg b ?n"
    using at [of 0] at [of 1] b(3) length_field [of kvs] assms(2,3)
    by (simp add: verifyMsg_def valset_image_def kUbxMsgHeaderLen_def)
  moreover have "msg_type b = 0x068A"
    using at [of 2] at [of 3] by (simp add: msg_type_def valset_image_def)
  ultimately show ?thesis using b by blast
qed

lemma parse_valset_image:
  assumes "list_all (\<lambda>(k, v). length v = GetValueByteCount k) kvs" and "length (encode_items kvs) \<le> 65531"
  shows "parse_cfg_bytes (drop 2 (valset_image kvs)) = Inr (map (\<lambda>(k, v). raw_record k v) kvs)"
proof -
  let ?len = "4 + of_nat (length (encode_items kvs)) :: u16"
  have "le16 (drop 2 (valset_image kvs)) 2 = le16 (le16_bytes ?len @ []) 0"
    by (simp add: le16_def valset_image_def le16_bytes_def)
  then have "le16 (drop 2 (valset_image kvs)) 2 = ?len" by (simp only: le16_le16_bytes)
  with length_field [OF assms(2)] parse_encoded [OF assms(1)] show ?thesis
    by (simp add: parse_cfg_bytes_def valset_image_def le16_bytes_def Let_def)
qed

lemma build_config_msg_overrun:
  assumes "config_items rs = Inr kvs" and "length buff \<le> 65536" and "length buff < 12 + length (encode_items kvs)"
  shows "build_config_msg rs buff = Inl Overrun"
proof (cases "length buff < 10")
  case False
  let ?b = "store_at (store_at buff 0 [UBX_SYNC_1, UBX_SYNC_2, 0x06, 0x8A]) 6 [0, 1, 0, 0]"
  have b: "length ?b = length buff" "10 \<le> length ?b" using False by simp_all
  show ?thesis
  proof (cases "length buff < 10 + length (encode_items kvs)")
    case True
    with b append_records_spec [OF assms(1) b(2), of 4] False show ?thesis
      by (simp add: build_config_msg_def Let_def)
  next
    case fits: False
    with b append_records_spec [OF assms(1) b(2), of 4] False assms(2,3) length_field [of kvs] show ?thesis
      by (simp add: build_config_msg_def Let_def)
  qed
qed (simp add: build_config_msg_def)

text \<open>
  Claim C23.  When every record can be read, the message is built whenever it fits, and only then: it is a
  valid UBX-CFG-VALSET frame, and its octets, read the way a u-center line is read, are the keys and the
  values of the records, in their order.  A message that does not fit is written behind the buffer.
\<close>

theorem build_config_msg_roundtrip:
  assumes "config_items rs = Inr kvs" and "list_all raw_sized rs" and "length buff \<le> 65536"
    and "n = 12 + length (encode_items kvs)"
  shows "if length buff < n then build_config_msg rs buff = Inl Overrun
    else \<exists>b. build_config_msg rs buff = Inr (b, n) \<and> verifyMsg b n \<and> msg_type b = 0x068A
      \<and> parse_cfg_bytes (take (n - 4) (drop 2 b)) = Inr (map (\<lambda>(k, v). raw_record k v) kvs)"
proof (cases "length buff < n")
  case True
  with assms(4) build_config_msg_overrun [OF assms(1,3)] show ?thesis by simp
next
  case False
  then obtain b where b: "build_config_msg rs buff = Inr (b, n)" "verifyMsg b n" "msg_type b = 0x068A"
    "take (10 + length (encode_items kvs)) b = valset_image kvs"
    using build_config_msg_valid [OF assms(1,3)] assms(4) by auto
  have "take (n - 4) (drop 2 b) = drop 2 (valset_image kvs)"
    by (simp add: assms(4) take_drop flip: b(4))
  moreover have "length (encode_items kvs) \<le> 65531"
    using False assms(3,4) by simp
  ultimately show ?thesis
    using False b(1-3) parse_valset_image [OF config_items_sizes [OF assms(1,2)]] by auto
qed

text \<open>The measurement rate by name and GPS L1 by key, in the driver's buffer.\<close>

definition demo_configs :: "RcvConfigRecord list" where
  "demo_configs = [named_record ''CFG-RATE-MEAS'' (dec 200), raw_record 0x10310001 [1]]"

lemma demo_items: "config_items demo_configs = Inr [(0x30210001, [200, 0]), (0x10310001, [1])]"
proof -
  have c: "config_code ''CFG-RATE-MEAS'' = Some (0x30210001, ''U2'')" by code_simp
  have t: "map_of rcv_config_type2code ''U2'' = Some 2" by code_simp
  have n: "GetValueByteCount 0x30210001 = 2" by code_simp
  have v: "take 2 (le64_bytes 200) = [200, 0]" by code_simp
  have "config_value ''U2'' (dec 200) = Inr (le64_bytes 200)"
    by (simp add: config_value_def t stoull_dec)
  then show ?thesis
    by (simp add: demo_configs_def named_record_def raw_record_def config_item_def c n v)
qed

theorem build_config_msg_roundtrip_witness:
  "\<exists>b. build_config_msg demo_configs (replicate 64 0) = Inr (b, 23) \<and> verifyMsg b 23
    \<and> parse_cfg_bytes (take 19 (drop 2 b)) = Inr [raw_record 0x30210001 [200, 0], raw_record 0x10310001 [1]]"
proof -
  have "GetValueByteCount 0x10310001 = 1" by code_simp
  then have "list_all raw_sized demo_configs"
    by (simp add: demo_configs_def named_record_def raw_record_def raw_sized_def)
  from build_config_msg_roundtrip [OF demo_items this, of "replicate 64 0" 23] show ?thesis by simp blast
qed

section \<open>The way back\<close>

lemma le32_bytes_le32: "4 \<le> length b \<Longrightarrow> le32_bytes (le32 b 0) = take 4 b"
proof -
  assume "4 \<le> length b"
  then obtain b0 b1 b2 b3 r where b: "b = b0 # b1 # b2 # b3 # r"
    by (auto simp add: eval_nat_numeral Suc_le_length_iff)
  let ?w = "ucast b0 OR push_bit 8 (ucast b1) OR push_bit 16 (ucast b2) OR push_bit 24 (ucast b3) :: u32"
  note bits = bit_or_iff bit_push_bit_iff bit_ucast_iff bit_drop_bit_eq
  have "ucast ?w = b0" and "ucast (drop_bit 8 ?w) = b1"
    and "ucast (drop_bit 16 ?w) = b2" and "ucast (drop_bit 24 ?w) = b3"
    by (rule bit_eqI, auto simp add: bits dest: bit_imp_le_length)+
  then show ?thesis by (simp add: le32_bytes_def le32_def b)
qed

lemma encode_parsed:
  "parse_key_values rest = Inr rs
    \<Longrightarrow> \<exists>kvs. config_items rs = Inr kvs \<and> encode_items kvs = rest \<and> list_all raw_sized rs"
proof (induction rest arbitrary: rs rule: parse_key_values.induct)
  case (1 rest)
  let ?k = "le32 rest 0"
  let ?n = "GetValueByteCount ?k"
  show ?case
  proof (cases "length rest < 4")
    case True
    with "1.prems" show ?thesis
      by (auto simp add: parse_key_values.simps [of rest] split: if_splits)
  next
    case False
    with "1.prems" obtain rs' where rs: "\<not> length (drop 4 rest) < ?n"
      "parse_key_values (drop ?n (drop 4 rest)) = Inr rs'" "rs = raw_record ?k (take ?n (drop 4 rest)) # rs'"
      by (auto simp add: parse_key_values.simps [of rest] Let_def split: if_splits sum.splits)
    from "1.IH" [OF False refl refl refl rs(1,2)] obtain kvs where kvs: "config_items rs' = Inr kvs"
      "encode_items kvs = drop ?n (drop 4 rest)" "list_all raw_sized rs'" by blast
    have "0 < ?n" by (simp add: GetValueByteCount_def Let_def)
    then have "config_item (raw_record ?k (take ?n (drop 4 rest))) = Inr (?k, take ?n (drop 4 rest))"
      using rs(1) GetValueByteCount_less [of ?k] by (simp add: config_item_def raw_record_def min_def)
    moreover have "le32_bytes ?k @ take ?n (drop 4 rest) @ drop ?n (drop 4 rest) = rest"
      using False by (simp only: append_take_drop_id le32_bytes_le32 not_less)
    moreover have "raw_sized (raw_record ?k (take ?n (drop 4 rest)))"
      using rs(1) by (simp add: raw_sized_def raw_record_def)
    ultimately show ?thesis
      using kvs rs(3) by (intro exI [of _ "(?k, take ?n (drop 4 rest)) # kvs"]) simp
  qed
qed

end
