(* ===== verification/Ucenter_Config.thy ===== *)
theory Ucenter_Config
  imports Rcv_Config
begin

text \<open>
  \<open>ParseUCenterConfig\<close>: a configuration file as u-center writes it, from its text to the records, and with
  \<open>build_config_msg\<close> to the message that is sent to the receiver.
\<close>

section \<open>Text\<close>

definition is_blank :: "char \<Rightarrow> bool" where
  "is_blank c \<longleftrightarrow> c \<in> {CHR '' '', CHR 0x09, CHR 0x0D, CHR 0x0A}"

definition Trim :: "string \<Rightarrow> string" where
  "Trim s = rev (dropWhile is_blank (rev (dropWhile is_blank s)))"

definition ToLower :: "string \<Rightarrow> string" where
  "ToLower s = map to_lower_char s"

datatype param_error =
  Unable_to_open | Hex_out_of_range | Std cxx_error | Line cfg_line_error | No_records
  | Invalid_boolean | Missing_field string | Not_scalar_boolean string | Bad_conversion
  | Unsupported_system string | Not_scalar_system string | Not_scalar_or_sequence string | Empty_mask string
  | Empty_path | No_home | No_such_path | No_file | Serial_disabled | Two_rtcm_sources

text \<open>\<open>ParseHexBytes\<close>, token by token.\<close>

fun parse_hex_tokens :: "string list \<Rightarrow> param_error + bytes" where
  "parse_hex_tokens [] = Inr []"
| "parse_hex_tokens (t # ts) =
     (case stoul16 t of
        Inl e \<Rightarrow> Inl (Std e)
      | Inr val \<Rightarrow>
          if val > 0xFF then Inl Hex_out_of_range
          else (case parse_hex_tokens ts of Inl e \<Rightarrow> Inl e | Inr bs \<Rightarrow> Inr (of_nat val # bs)))"

definition ParseHexBytes :: "string \<Rightarrow> param_error + bytes" where
  "ParseHexBytes hex_payload = parse_hex_tokens (tokens hex_payload)"

section \<open>Lines\<close>

text \<open>The octets of a line, when it is a configuration line.\<close>

definition cfg_payload :: "string \<Rightarrow> string option" where
  "cfg_payload line =
     (let trimmed_line = Trim line in
      if trimmed_line = [] then None
      else case find_sub '' - '' trimmed_line of
        None \<Rightarrow> None
      | Some separator \<Rightarrow>
          (let message_name = take separator trimmed_line in
           if message_name \<noteq> ''CFG-VALGET'' \<and> message_name \<noteq> ''CFG-VALSET'' then None
           else Some (drop (separator + 3) trimmed_line)))"

fun parse_cfg_lines :: "string list \<Rightarrow> param_error + RcvConfigRecord list" where
  "parse_cfg_lines [] = Inr []"
| "parse_cfg_lines (line # lines) =
     (case cfg_payload line of
        None \<Rightarrow> parse_cfg_lines lines
      | Some text \<Rightarrow>
          (case ParseHexBytes text of
             Inl e \<Rightarrow> Inl e
           | Inr bs \<Rightarrow>
               (case parse_cfg_bytes bs of
                  Inl e \<Rightarrow> Inl (Line e)
                | Inr rs \<Rightarrow>
                    (case parse_cfg_lines lines of Inl e \<Rightarrow> Inl e | Inr rs' \<Rightarrow> Inr (rs @ rs')))))"

text \<open>The content of the file, \<open>None\<close> when it cannot be opened.\<close>

definition ParseUCenterConfig :: "string option \<Rightarrow> param_error + RcvConfigRecord list" where
  "ParseUCenterConfig file =
     (case file of
        None \<Rightarrow> Inl Unable_to_open
      | Some text \<Rightarrow>
          (case parse_cfg_lines (getlines text) of
             Inl e \<Rightarrow> Inl e
           | Inr rs \<Rightarrow> if rs = [] then Inl No_records else Inr rs))"

section \<open>A file as u-center writes it\<close>

fun hex_text :: "bytes \<Rightarrow> string" where
  "hex_text [] = []"
| "hex_text [b] = hex2 b"
| "hex_text (b # bs) = hex2 b @ CHR '' '' # hex_text bs"

definition valset_octets :: "(u32 \<times> bytes) list \<Rightarrow> bytes" where
  "valset_octets kvs = drop 2 (valset_image kvs)"

definition ucenter_line :: "(u32 \<times> bytes) list \<Rightarrow> string" where
  "ucenter_line kvs = ''CFG-VALSET - '' @ hex_text (valset_octets kvs)"

definition ucenter_file :: "(u32 \<times> bytes) list list \<Rightarrow> string" where
  "ucenter_file kvss = concat (map (\<lambda>kvs. ucenter_line kvs @ [CHR 0x0A]) kvss)"

lemma hex2_no_space: "c \<in> set (hex2 b) \<Longrightarrow> \<not> is_space c \<and> \<not> is_blank c"
  using set_hex2 [of c b] hex2_plain [of c] by (auto simp add: is_blank_def is_space_def)

lemma tokens_hex_text: "tokens (hex_text bs) = map hex2 bs"
proof (induction bs rule: hex_text.induct)
  case 1
  then show ?case by simp
next
  case (2 b)
  obtain x y where xy: "hex2 b = [x, y]" by (simp add: hex2_def)
  with hex2_no_space [of _ b] show ?case by (simp add: tokens.simps [of "[x, y]"])
next
  case (3 b b' bs)
  obtain x y where xy: "hex2 b = [x, y]" by (simp add: hex2_def)
  let ?r = "hex_text (b' # bs)"
  have xs: "\<not> is_space x" "\<not> is_space y" using hex2_no_space [of _ b] xy by auto
  have "is_space CHR '' ''" by (simp add: is_space_def)
  moreover have "tokens (CHR '' '' # ?r) = tokens ?r"
    using calculation by (subst (1 2) tokens.simps) simp
  ultimately show ?case
    using xs 3 by (simp add: tokens.simps [of "x # y # CHR '' '' # ?r"] xy)
qed

lemma parse_hex_tokens_hex2: "parse_hex_tokens (map hex2 bs) = Inr bs"
proof (induction bs)
  case (Cons b bs)
  have "\<not> 255 < unat b" using unat_u8_less [of b] by linarith
  with Cons show ?case by (simp add: stoul16_hex2)
qed simp

lemma ParseHexBytes_hex_text: "ParseHexBytes (hex_text bs) = Inr bs"
  by (simp add: ParseHexBytes_def tokens_hex_text parse_hex_tokens_hex2)

lemma dropWhile_hd_id: "\<not> P (hd xs) \<Longrightarrow> dropWhile P xs = xs"
  by (cases xs) auto

lemma Trim_id: "\<not> is_blank (hd s) \<Longrightarrow> \<not> is_blank (last s) \<Longrightarrow> Trim s = s"
  by (simp add: Trim_def dropWhile_hd_id hd_rev)

lemma hex_text_last: "bs \<noteq> [] \<Longrightarrow> hex_text bs \<noteq> [] \<and> \<not> is_blank (last (hex_text bs))"
proof (induction bs rule: hex_text.induct)
  case (2 b)
  then show ?case using hex2_no_space [of "last (hex2 b)" b] by (simp add: hex2_def)
qed auto

lemma hex_text_no_newline: "CHR 0x0A \<notin> set (hex_text bs)"
proof (induction bs rule: hex_text.induct)
  case (2 b)
  then show ?case using hex2_no_space [of "CHR 0x0A" b] by (auto simp add: is_space_def)
next
  case (3 b b' bs)
  then show ?case using hex2_no_space [of "CHR 0x0A" b] by (auto simp add: is_space_def)
qed simp

lemma cfg_payload_line: "cfg_payload (ucenter_line kvs) = Some (hex_text (valset_octets kvs))"
proof -
  let ?h = "hex_text (valset_octets kvs)"
  have h: "?h \<noteq> []" "\<not> is_blank (last ?h)"
    using hex_text_last [of "valset_octets kvs"] by (simp_all add: valset_octets_def valset_image_def)
  then have "Trim (ucenter_line kvs) = ucenter_line kvs"
    by (intro Trim_id) (simp_all add: ucenter_line_def is_blank_def)
  moreover have "find_sub '' - '' (ucenter_line kvs) = Some 10"
    by (simp add: ucenter_line_def starts_with_def)
  ultimately show ?thesis
    by (simp add: cfg_payload_def Let_def) (simp add: ucenter_line_def)
qed

lemma getlines_ucenter: "getlines (ucenter_file kvss) = map ucenter_line kvss"
proof (induction kvss)
  case Nil
  then show ?case by (simp add: ucenter_file_def)
next
  case (Cons kvs kvss)
  have n: "CHR 0x0A \<notin> set (ucenter_line kvs)"
    using hex_text_no_newline [of "valset_octets kvs"] by (simp add: ucenter_line_def)
  then have t: "takeWhile (\<lambda>c. c \<noteq> CHR 0x0A) (ucenter_line kvs @ CHR 0x0A # x) = ucenter_line kvs" for x
    by (subst takeWhile_append2) auto
  show ?case
    using Cons by (subst getlines.simps) (simp add: ucenter_file_def t)
qed

definition items_sized :: "(u32 \<times> bytes) list \<Rightarrow> bool" where
  "items_sized kvs \<longleftrightarrow> list_all (\<lambda>(k, v). length v = GetValueByteCount k) kvs \<and> length (encode_items kvs) \<le> 65531"

lemma parse_cfg_lines_ucenter:
  "list_all items_sized kvss
    \<Longrightarrow> parse_cfg_lines (map ucenter_line kvss) = Inr (map (\<lambda>(k, v). raw_record k v) (concat kvss))"
proof (induction kvss)
  case (Cons kvs kvss)
  then have "parse_cfg_bytes (valset_octets kvs) = Inr (map (\<lambda>(k, v). raw_record k v) kvs)"
    by (simp add: items_sized_def valset_octets_def parse_valset_image)
  with Cons show ?case
    by (simp add: cfg_payload_line ParseHexBytes_hex_text)
qed simp

lemma config_items_raw:
  "list_all (\<lambda>(k, v). length v = GetValueByteCount k) kvs
    \<Longrightarrow> config_items (map (\<lambda>(k, v). raw_record k v) kvs) = Inr kvs"
proof (induction kvs)
  case (Cons kv kvs)
  obtain k v where kv: "kv = (k, v)" by fastforce
  have "0 < GetValueByteCount k" by (simp add: GetValueByteCount_def Let_def)
  with Cons GetValueByteCount_less [of k] show ?case
    by (auto simp add: kv config_item_def raw_record_def)
qed simp

text \<open>
  Claim C24.  What a u-center file configures is what the receiver is sent: the keys and values of all its
  VALSET lines, in order, arrive in one valid UBX-CFG-VALSET frame, whatever the division into lines,
  whenever the frame fits the buffer.
\<close>

theorem ucenter_file_sent:
  assumes "list_all items_sized kvss" and "concat kvss \<noteq> []"
    and "n = 12 + length (encode_items (concat kvss))" and "n \<le> length buff" and "length buff \<le> 65536"
  shows "\<exists>rs b. ParseUCenterConfig (Some (ucenter_file kvss)) = Inr rs \<and> build_config_msg rs buff = Inr (b, n)
    \<and> verifyMsg b n \<and> take (n - 2) b = valset_image (concat kvss)"
proof -
  let ?rs = "map (\<lambda>(k, v). raw_record k v) (concat kvss)"
  have "ParseUCenterConfig (Some (ucenter_file kvss)) = Inr ?rs"
    using assms(2) parse_cfg_lines_ucenter [OF assms(1)]
    by (simp add: ParseUCenterConfig_def getlines_ucenter map_concat)
  moreover have "config_items ?rs = Inr (concat kvss)"
    using assms(1) by (intro config_items_raw) (auto simp add: list_all_iff items_sized_def)
  ultimately show ?thesis
    using build_config_msg_valid [of ?rs "concat kvss" buff] assms(3-5) by auto
qed

definition demo_lines :: "(u32 \<times> bytes) list list" where
  "demo_lines = [[(0x30210001, [200, 0]), (0x10310001, [1])], [(0x40520001, [0, 16, 14, 0])]]"

lemma demo_lines_sized: "list_all items_sized demo_lines"
proof -
  have "GetValueByteCount 0x30210001 = 2" "GetValueByteCount 0x10310001 = 1" "GetValueByteCount 0x40520001 = 4"
    by code_simp+
  then show ?thesis by (simp add: demo_lines_def items_sized_def)
qed

theorem ucenter_file_sent_witness:
  "\<exists>rs b. ParseUCenterConfig (Some (ucenter_file demo_lines)) = Inr rs
    \<and> build_config_msg rs (replicate 64 0) = Inr (b, 31) \<and> verifyMsg b 31"
  using ucenter_file_sent [OF demo_lines_sized, of 31 "replicate 64 0"] by (auto simp add: demo_lines_def)

end
