(* ===== verification/Params.thy ===== *)
theory Params
  imports Ucenter_Config Gnss_Sat
begin

text \<open>
  \<open>params.cpp\<close>: how \<open>LoadUbloxDriverParams\<close> reads the driver's YAML file.  The YAML library, the file
  system and the environment are parameters; the readers, checks and defaults are the code's.
\<close>

section \<open>What is not in the repository\<close>

text \<open>
  A YAML node as \<open>IsMap\<close>, \<open>IsSequence\<close>, \<open>IsScalar\<close> and its iterators show it.  \<open>Null\<close> is a
  default-constructed \<open>YAML::Node\<close>.  The record holds the library's answers: \<open>IsDefined\<close> and the
  conversions \<open>as<T>\<close>, \<open>None\<close> for the exception.
\<close>

datatype yaml = Null | Scalar string | Sequence "yaml list" | Mapping "(yaml \<times> yaml) list"

record yaml_lib =
  load_file :: "string \<Rightarrow> yaml option"
  is_defined :: "yaml \<Rightarrow> bool"
  as_string :: "yaml \<Rightarrow> string option"
  as_long :: "yaml \<Rightarrow> int option"
  as_uint64 :: "yaml \<Rightarrow> nat option"

text \<open>
  The platform: the directory of a file, \<open>HOME\<close>, a path taken relative to a directory and normalised,
  whether it exists, its extension, and the content of a file.
\<close>

record platform =
  dir_of :: "string \<Rightarrow> string"
  home_dir :: "string option"
  normal_path :: "string \<Rightarrow> string \<Rightarrow> string"
  path_exists :: "string \<Rightarrow> bool"
  path_extension :: "string \<Rightarrow> string"
  file_content :: "string \<Rightarrow> string option"

section \<open>Reading fields\<close>

definition ParseBoolScalar :: "string \<Rightarrow> param_error + bool" where
  "ParseBoolScalar raw_value =
     (let normalized = ToLower (Trim raw_value) in
      if normalized \<in> set [''1'', ''true'', ''yes'', ''on''] then Inr True
      else if normalized \<in> set [''0'', ''false'', ''no'', ''off''] then Inr False
      else Inl Invalid_boolean)"

fun find_entry :: "(yaml \<times> yaml) list \<Rightarrow> string list \<Rightarrow> yaml option" where
  "find_entry [] keys = None"
| "find_entry ((Scalar k, v) # es) keys = (if k \<in> set keys then Some v else find_entry es keys)"
| "find_entry (e # es) keys = find_entry es keys"

definition FindFirstNode :: "yaml \<Rightarrow> string list \<Rightarrow> yaml" where
  "FindFirstNode root keys =
     (case root of
        Mapping es \<Rightarrow> (case find_entry es keys of None \<Rightarrow> Null | Some v \<Rightarrow> v)
      | _ \<Rightarrow> Null)"

definition ReadRequiredAny ::
    "yaml_lib \<Rightarrow> (yaml \<Rightarrow> 'a option) \<Rightarrow> yaml \<Rightarrow> string list \<Rightarrow> string \<Rightarrow> param_error + 'a" where
  "ReadRequiredAny lib as_T root keys field =
     (let val = FindFirstNode root keys in
      if \<not> is_defined lib val then Inl (Missing_field field)
      else case as_T val of None \<Rightarrow> Inl Bad_conversion | Some x \<Rightarrow> Inr x)"

definition ReadOptionalAny ::
    "yaml_lib \<Rightarrow> (yaml \<Rightarrow> 'a option) \<Rightarrow> yaml \<Rightarrow> string list \<Rightarrow> 'a \<Rightarrow> param_error + 'a" where
  "ReadOptionalAny lib as_T root keys default_value =
     (let val = FindFirstNode root keys in
      if \<not> is_defined lib val then Inr default_value
      else case as_T val of None \<Rightarrow> Inl Bad_conversion | Some x \<Rightarrow> Inr x)"

definition ReadRequired :: "yaml_lib \<Rightarrow> (yaml \<Rightarrow> 'a option) \<Rightarrow> yaml \<Rightarrow> string \<Rightarrow> param_error + 'a" where
  "ReadRequired lib as_T root key = ReadRequiredAny lib as_T root [key] key"

definition ReadBoolNode :: "yaml_lib \<Rightarrow> yaml \<Rightarrow> string \<Rightarrow> param_error + bool" where
  "ReadBoolNode lib val field =
     (if \<not> is_defined lib val then Inr False
      else case val of Scalar s \<Rightarrow> ParseBoolScalar s | _ \<Rightarrow> Inl (Not_scalar_boolean field))"

definition ReadBoolAny :: "yaml_lib \<Rightarrow> yaml \<Rightarrow> string list \<Rightarrow> bool \<Rightarrow> bool \<Rightarrow> string \<Rightarrow> param_error + bool" where
  "ReadBoolAny lib root keys default_value required field =
     (let val = FindFirstNode root keys in
      if \<not> is_defined lib val then (if required then Inl (Missing_field field) else Inr default_value)
      else ReadBoolNode lib val (if field = [] then hd keys else field))"

definition ReadBool :: "yaml_lib \<Rightarrow> yaml \<Rightarrow> string \<Rightarrow> bool \<Rightarrow> bool \<Rightarrow> param_error + bool" where
  "ReadBool lib root key default_value required = ReadBoolAny lib root [key] default_value required key"

section \<open>System masks\<close>

definition ParseSupportedGnssSystemName :: "string \<Rightarrow> string \<Rightarrow> param_error + u32" where
  "ParseSupportedGnssSystemName raw_value field =
     (let normalized = ToLower (Trim raw_value) in
      if normalized = ''gps'' then Inr SYS_GPS
      else if normalized = ''bds'' \<or> normalized = ''beidou'' then Inr SYS_BDS
      else Inl (Unsupported_system field))"

fun system_mask_items :: "yaml_lib \<Rightarrow> string \<Rightarrow> yaml list \<Rightarrow> u32 \<Rightarrow> param_error + u32" where
  "system_mask_items lib key [] m = Inr m"
| "system_mask_items lib key (item # items) m =
     (case item of
        Scalar s \<Rightarrow>
          (case as_string lib item of
             None \<Rightarrow> Inl Bad_conversion
           | Some text \<Rightarrow> bind_res (ParseSupportedGnssSystemName text key)
               (\<lambda>sys. system_mask_items lib key items (m OR sys)))
      | _ \<Rightarrow> Inl (Not_scalar_system key))"

definition ParseGnssSystemMask :: "yaml_lib \<Rightarrow> yaml \<Rightarrow> string \<Rightarrow> u32 \<Rightarrow> param_error + u32" where
  "ParseGnssSystemMask lib root key default_mask =
     (let val = FindFirstNode root [key] in
      if \<not> is_defined lib val then Inr default_mask
      else bind_res
        (case val of
           Scalar s \<Rightarrow>
             (case as_string lib val of
                None \<Rightarrow> Inl Bad_conversion
              | Some text \<Rightarrow> ParseSupportedGnssSystemName text key)
         | Sequence items \<Rightarrow> system_mask_items lib key items 0
         | _ \<Rightarrow> Inl (Not_scalar_or_sequence key))
        (\<lambda>m. if m = 0 then Inl (Empty_mask key) else Inr m))"

definition GnssSystemMaskToString :: "u32 \<Rightarrow> string" where
  "GnssSystemMaskToString m =
     (let names = (if m AND SYS_GPS \<noteq> 0 then [''GPS''] else []) @ (if m AND SYS_BDS \<noteq> 0 then [''BDS''] else []) in
      if names = [] then ''<none>''
      else concat (hd names # map (\<lambda>n. CHR '','' # n) (tl names)))"

definition MaskSecret :: "string \<Rightarrow> string" where
  "MaskSecret val =
     (if val = [] then ''<empty>''
      else if length val \<le> 2 then replicate (length val) CHR ''*''
      else take 1 val @ replicate (length val - 2) CHR ''*'' @ drop (length val - 1) val)"

section \<open>The parameters\<close>

record UbloxDriverParams =
  enable_serial :: bool
  serial_port :: string
  serial_baud_rate :: int
  enable_rtcm_tcp_loopback :: bool
  rtcm_tcp_port :: nat
  enable_ntrip_rtcm :: bool
  ntrip_server :: string
  ntrip_port :: nat
  ntrip_mountpoint :: string
  ntrip_username :: string
  ntrip_password :: string
  raw_observation_system_mask :: u32
  ephemeris_system_mask :: u32
  enable_config_bring :: bool
  receiver_config_path :: string
  receiver_configs :: "RcvConfigRecord list"

definition default_params :: UbloxDriverParams where
  "default_params =
     \<lparr>enable_serial = True, serial_port = [], serial_baud_rate = 921600,
      enable_rtcm_tcp_loopback = False, rtcm_tcp_port = 0,
      enable_ntrip_rtcm = False, ntrip_server = [], ntrip_port = 0, ntrip_mountpoint = [],
      ntrip_username = [], ntrip_password = [],
      raw_observation_system_mask = SYS_GPS OR SYS_BDS, ephemeris_system_mask = SYS_GPS OR SYS_BDS,
      enable_config_bring = False, receiver_config_path = [], receiver_configs = []\<rparr>"

definition ResolvePath :: "platform \<Rightarrow> string \<Rightarrow> string \<Rightarrow> param_error + string" where
  "ResolvePath pf path base_dir =
     (case path of
        [] \<Rightarrow> Inl Empty_path
      | c # cs \<Rightarrow>
          bind_res
            (if c = CHR ''~'' then (case home_dir pf of None \<Rightarrow> Inl No_home | Some home \<Rightarrow> Inr (home @ cs))
             else Inr path)
            (\<lambda>expanded. let resolved = normal_path pf base_dir expanded in
               if path_exists pf resolved then Inr resolved else Inl No_such_path))"

fun yaml_records :: "yaml_lib \<Rightarrow> (yaml \<times> yaml) list \<Rightarrow> param_error + RcvConfigRecord list" where
  "yaml_records lib [] = Inr []"
| "yaml_records lib ((k, v) # es) =
     (case as_string lib k of
        None \<Rightarrow> Inl Bad_conversion
      | Some name \<Rightarrow>
          (case as_string lib v of
             None \<Rightarrow> Inl Bad_conversion
           | Some val \<Rightarrow> bind_res (yaml_records lib es) (\<lambda>rs. Inr (named_record name val # rs))))"

definition read_ntrip_params :: "yaml_lib \<Rightarrow> yaml \<Rightarrow> UbloxDriverParams \<Rightarrow> param_error + UbloxDriverParams" where
  "read_ntrip_params lib root p =
     bind_res (ReadRequiredAny lib (as_string lib) root [''ntrip_server''] ''ntrip_server'') (\<lambda>server.
     bind_res (ReadRequiredAny lib (as_uint64 lib) root [''ntrip_port''] ''ntrip_port'') (\<lambda>nport.
     bind_res (ReadRequiredAny lib (as_string lib) root [''ntrip_mountpoint''] ''ntrip_mountpoint'') (\<lambda>mount.
     bind_res (ReadOptionalAny lib (as_string lib) root [''ntrip_username''] []) (\<lambda>user.
     bind_res (ReadOptionalAny lib (as_string lib) root [''ntrip_password''] []) (\<lambda>pass.
     Inr (p\<lparr>ntrip_server := server, ntrip_port := nport, ntrip_mountpoint := mount,
              ntrip_username := user, ntrip_password := pass\<rparr>))))))"

definition read_rtcm_params :: "yaml_lib \<Rightarrow> yaml \<Rightarrow> UbloxDriverParams \<Rightarrow> param_error + UbloxDriverParams" where
  "read_rtcm_params lib root p =
     bind_res (ReadBoolAny lib root [''enable_rtcm_tcp_loopback''] False False []) (\<lambda>loop.
     bind_res (if loop then ReadRequiredAny lib (as_uint64 lib) root [''rtcm_tcp_port''] ''rtcm_tcp_port''
               else Inr (rtcm_tcp_port p)) (\<lambda>port.
     bind_res (ReadBoolAny lib root [''enable_ntrip_rtcm''] False False []) (\<lambda>ntrip.
     let p1 = p\<lparr>enable_rtcm_tcp_loopback := loop, rtcm_tcp_port := port, enable_ntrip_rtcm := ntrip\<rparr> in
     if \<not> ntrip then Inr p1 else read_ntrip_params lib root p1)))"

definition read_config_file :: "yaml_lib \<Rightarrow> platform \<Rightarrow> string \<Rightarrow> param_error + RcvConfigRecord list" where
  "read_config_file lib pf resolved =
     (let extension = ToLower (path_extension pf resolved) in
      if extension = ''.yaml'' \<or> extension = ''.yml'' then
        (case load_file lib resolved of
           None \<Rightarrow> Inl No_file
         | Some (Mapping es) \<Rightarrow> yaml_records lib es
         | Some (Sequence items) \<Rightarrow> if items = [] then Inr [] else Inl Bad_conversion
         | Some _ \<Rightarrow> Inr [])
      else ParseUCenterConfig (file_content pf resolved))"

definition read_receiver_configs ::
    "yaml_lib \<Rightarrow> platform \<Rightarrow> yaml \<Rightarrow> string \<Rightarrow> string \<Rightarrow> UbloxDriverParams \<Rightarrow> param_error + UbloxDriverParams" where
  "read_receiver_configs lib pf root config_dir override p =
     bind_res (if override = [] then ReadRequired lib (as_string lib) root ''config_path'' else Inr override) (\<lambda>path.
     bind_res (ResolvePath pf path config_dir) (\<lambda>resolved.
     bind_res (read_config_file lib pf resolved) (\<lambda>rs.
     Inr (p\<lparr>receiver_config_path := resolved, receiver_configs := rs\<rparr>))))"

definition finish_params ::
    "yaml_lib \<Rightarrow> platform \<Rightarrow> yaml \<Rightarrow> string \<Rightarrow> string \<Rightarrow> UbloxDriverParams \<Rightarrow> param_error + UbloxDriverParams" where
  "finish_params lib pf root config_dir override p =
     (if enable_config_bring p then read_receiver_configs lib pf root config_dir override p else Inr p)"

definition LoadUbloxDriverParams :: "yaml_lib \<Rightarrow> platform \<Rightarrow> string \<Rightarrow> string \<Rightarrow> param_error + UbloxDriverParams" where
  "LoadUbloxDriverParams lib pf driver_config_file receiver_config_override =
     (case load_file lib driver_config_file of
        None \<Rightarrow> Inl No_file
      | Some root \<Rightarrow>
          (let config_dir = dir_of pf driver_config_file in
           bind_res (ReadBool lib root ''enable_serial'' True True) (\<lambda>serial.
           if \<not> serial then Inl Serial_disabled
           else
           bind_res (ReadRequired lib (as_string lib) root ''serial_port'') (\<lambda>port.
           bind_res (ReadRequired lib (as_long lib) root ''serial_baud_rate'') (\<lambda>baud.
           bind_res (read_rtcm_params lib root
             (default_params\<lparr>enable_serial := serial, serial_port := port, serial_baud_rate := baud\<rparr>)) (\<lambda>p.
           bind_res (ParseGnssSystemMask lib root ''raw_observation_systems'' (SYS_GPS OR SYS_BDS)) (\<lambda>raw.
           bind_res (ParseGnssSystemMask lib root ''ephemeris_systems'' (SYS_GPS OR SYS_BDS)) (\<lambda>eph.
           if enable_rtcm_tcp_loopback p \<and> enable_ntrip_rtcm p then Inl Two_rtcm_sources
           else
           bind_res (ReadBool lib root ''enable_config_bring'' False False) (\<lambda>bring.
           finish_params lib pf root config_dir receiver_config_override
             (p\<lparr>raw_observation_system_mask := raw, ephemeris_system_mask := eph, enable_config_bring := bring\<rparr>))))))))))"

section \<open>What loaded parameters satisfy\<close>

definition mask_ok :: "u32 \<Rightarrow> bool" where
  "mask_ok m \<longleftrightarrow> m \<in> set [SYS_GPS, SYS_BDS, SYS_GPS OR SYS_BDS]"

definition config_ok :: "platform \<Rightarrow> UbloxDriverParams \<Rightarrow> bool" where
  "config_ok pf p \<longleftrightarrow>
     (if \<not> enable_config_bring p then receiver_configs p = []
      else path_exists pf (receiver_config_path p)
        \<and> (ToLower (path_extension pf (receiver_config_path p)) \<in> set [''.yaml'', ''.yml'']
           \<or> receiver_configs p \<noteq> [] \<and> list_all raw_sized (receiver_configs p)
             \<and> (\<exists>kvs. config_items (receiver_configs p) = Inr kvs)))"

definition params_ok :: "platform \<Rightarrow> UbloxDriverParams \<Rightarrow> bool" where
  "params_ok pf p \<longleftrightarrow> enable_serial p \<and> \<not> (enable_rtcm_tcp_loopback p \<and> enable_ntrip_rtcm p)
     \<and> mask_ok (raw_observation_system_mask p) \<and> mask_ok (ephemeris_system_mask p) \<and> config_ok pf p"

lemma system_name_ok: "ParseSupportedGnssSystemName s field = Inr m \<Longrightarrow> mask_ok m"
  by (auto simp add: ParseSupportedGnssSystemName_def mask_ok_def Let_def split: if_splits)

lemma mask_ok_or: "m = 0 \<or> mask_ok m \<Longrightarrow> mask_ok sys \<Longrightarrow> mask_ok (m OR sys)"
  by (auto simp add: mask_ok_def sys_defs)

lemma system_mask_items_ok:
  "system_mask_items lib key items m = Inr m' \<Longrightarrow> m = 0 \<or> mask_ok m \<Longrightarrow> m' = 0 \<or> mask_ok m'"
proof (induction items arbitrary: m)
  case (Cons item items)
  then obtain name sys where "ParseSupportedGnssSystemName name key = Inr sys"
    "system_mask_items lib key items (m OR sys) = Inr m'"
    by (auto simp add: bind_res_Inr split: yaml.splits option.splits)
  with Cons system_name_ok mask_ok_or show ?case by blast
qed simp

lemma ParseGnssSystemMask_ok:
  "ParseGnssSystemMask lib root key d = Inr m \<Longrightarrow> mask_ok d \<Longrightarrow> mask_ok m"
  by (auto simp add: ParseGnssSystemMask_def bind_res_Inr Let_def
      dest: system_name_ok system_mask_items_ok split: if_splits yaml.splits option.splits)

lemma read_ntrip_params_frame:
  "read_ntrip_params lib root p = Inr p' \<Longrightarrow> enable_serial p' = enable_serial p
     \<and> receiver_configs p' = receiver_configs p"
  unfolding read_ntrip_params_def bind_res_Inr by (elim exE conjE) (drule sum.inject(2) [THEN iffD1], erule subst, simp)

lemma read_rtcm_params_frame:
  "read_rtcm_params lib root p = Inr p' \<Longrightarrow> enable_serial p' = enable_serial p
     \<and> receiver_configs p' = receiver_configs p"
  unfolding read_rtcm_params_def bind_res_Inr Let_def
  by (elim exE conjE) (auto split: if_splits dest: read_ntrip_params_frame)

lemma parse_cfg_bytes_items:
  "parse_cfg_bytes bs = Inr rs \<Longrightarrow> list_all raw_sized rs \<and> (\<exists>kvs. config_items rs = Inr kvs)"
  by (auto simp add: parse_cfg_bytes_def Let_def dest: encode_parsed split: if_splits)

lemma config_items_append:
  "config_items rs = Inr kvs \<Longrightarrow> config_items rs' = Inr kvs' \<Longrightarrow> config_items (rs @ rs') = Inr (kvs @ kvs')"
  by (induction rs arbitrary: kvs) (auto split: sum.splits)

lemma parse_cfg_lines_items:
  "parse_cfg_lines lines = Inr rs \<Longrightarrow> list_all raw_sized rs \<and> (\<exists>kvs. config_items rs = Inr kvs)"
proof (induction lines arbitrary: rs)
  case (Cons line lines)
  then show ?case
    by (auto split: option.splits sum.splits dest!: parse_cfg_bytes_items intro: config_items_append)
qed simp

lemma ParseUCenterConfig_items:
  "ParseUCenterConfig file = Inr rs \<Longrightarrow> rs \<noteq> [] \<and> list_all raw_sized rs \<and> (\<exists>kvs. config_items rs = Inr kvs)"
  by (auto simp add: ParseUCenterConfig_def dest: parse_cfg_lines_items split: option.splits sum.splits if_splits)

lemma ResolvePath_exists: "ResolvePath pf path dir = Inr r \<Longrightarrow> path_exists pf r"
  by (auto simp add: ResolvePath_def bind_res_Inr Let_def split: list.splits if_splits)

lemma read_receiver_configs_ok:
  assumes "read_receiver_configs lib pf root dir override p = Inr p'" and "enable_config_bring p"
  shows "config_ok pf p' \<and> (\<exists>path rs. p' = p\<lparr>receiver_config_path := path, receiver_configs := rs\<rparr>)"
proof -
  obtain path r rs where r: "ResolvePath pf path dir = Inr r" "read_config_file lib pf r = Inr rs"
    "p' = p\<lparr>receiver_config_path := r, receiver_configs := rs\<rparr>"
    using assms(1) by (auto simp add: read_receiver_configs_def bind_res_Inr)
  have "ToLower (path_extension pf r) \<in> set [''.yaml'', ''.yml''] \<or> ParseUCenterConfig (file_content pf r) = Inr rs"
    using r(2) by (auto simp add: read_config_file_def Let_def split: if_splits)
  then show ?thesis
    using assms(2) r(3) ResolvePath_exists [OF r(1)] ParseUCenterConfig_items [of "file_content pf r" rs]
    by (auto simp add: config_ok_def)
qed

lemma load_steps:
  assumes "LoadUbloxDriverParams lib pf file override = Inr p"
  obtains root p00 p0 raw eph bring where "load_file lib file = Some root"
    "enable_serial p00" "receiver_configs p00 = []" "read_rtcm_params lib root p00 = Inr p0"
    "ParseGnssSystemMask lib root ''raw_observation_systems'' (SYS_GPS OR SYS_BDS) = Inr raw"
    "ParseGnssSystemMask lib root ''ephemeris_systems'' (SYS_GPS OR SYS_BDS) = Inr eph"
    "\<not> (enable_rtcm_tcp_loopback p0 \<and> enable_ntrip_rtcm p0)"
    "ReadBool lib root ''enable_config_bring'' False False = Inr bring"
    "finish_params lib pf root (dir_of pf file) override
        (p0\<lparr>raw_observation_system_mask := raw, ephemeris_system_mask := eph, enable_config_bring := bring\<rparr>) = Inr p"
proof -
  obtain root where root: "load_file lib file = Some root"
    using assms by (auto simp add: LoadUbloxDriverParams_def split: option.splits)
  from assms obtain serial port baud p0 raw eph bring where
    "ReadBool lib root ''enable_serial'' True True = Inr serial" and s: serial
    and l: "read_rtcm_params lib root
        (default_params\<lparr>enable_serial := serial, serial_port := port, serial_baud_rate := baud\<rparr>) = Inr p0"
    and m: "ParseGnssSystemMask lib root ''raw_observation_systems'' (SYS_GPS OR SYS_BDS) = Inr raw"
      "ParseGnssSystemMask lib root ''ephemeris_systems'' (SYS_GPS OR SYS_BDS) = Inr eph"
    and r: "\<not> (enable_rtcm_tcp_loopback p0 \<and> enable_ntrip_rtcm p0)"
    and b: "ReadBool lib root ''enable_config_bring'' False False = Inr bring"
    and p: "finish_params lib pf root (dir_of pf file) override
        (p0\<lparr>raw_observation_system_mask := raw, ephemeris_system_mask := eph, enable_config_bring := bring\<rparr>) = Inr p"
    by (auto simp add: LoadUbloxDriverParams_def root bind_res_Inr Let_def split: if_split_asm)
  show thesis
    by (rule that [OF root _ _ l m r b p]) (simp_all add: default_params_def s)
qed


text \<open>A library that answers as the documentation says, and the shipped configuration in short.\<close>

definition demo_lib :: "yaml \<Rightarrow> yaml_lib" where
  "demo_lib root =
     \<lparr>load_file = (\<lambda>f. Some root), is_defined = (\<lambda>n. True),
      as_string = (\<lambda>n. case n of Scalar s \<Rightarrow> Some s | _ \<Rightarrow> None),
      as_long = (\<lambda>n. case n of Scalar s \<Rightarrow> (case stoll s of Inl e \<Rightarrow> None | Inr i \<Rightarrow> Some i) | _ \<Rightarrow> None),
      as_uint64 = (\<lambda>n. case n of Scalar s \<Rightarrow> (case stoull s of Inl e \<Rightarrow> None | Inr i \<Rightarrow> Some i) | _ \<Rightarrow> None)\<rparr>"

definition demo_platform :: platform where
  "demo_platform =
     \<lparr>dir_of = (\<lambda>f. ''/''), home_dir = None, normal_path = (\<lambda>d p. p), path_exists = (\<lambda>p. True),
      path_extension = (\<lambda>p. []), file_content = (\<lambda>p. None)\<rparr>"

definition demo_root :: yaml where
  "demo_root = Mapping
     [(Scalar ''enable_serial'', Scalar ''True''), (Scalar ''serial_port'', Scalar ''/dev/ttyACM0''),
      (Scalar ''serial_baud_rate'', Scalar (dec 921600)), (Scalar ''enable_rtcm_tcp_loopback'', Scalar ''no''),
      (Scalar ''enable_ntrip_rtcm'', Scalar ''off''), (Scalar ''raw_observation_systems'', Scalar ''BeiDou''),
      (Scalar ''ephemeris_systems'', Sequence [Scalar ''GPS'', Scalar ''bds'']),
      (Scalar ''enable_config_bring'', Scalar '' 0 '')]"

definition demo_params :: UbloxDriverParams where
  "demo_params = default_params
     \<lparr>serial_port := ''/dev/ttyACM0'', serial_baud_rate := 921600, raw_observation_system_mask := SYS_BDS\<rparr>"

lemma stoll_dec: "int n < 2 ^ 63 \<Longrightarrow> stoll (dec n) = Inr (int n)"
proof -
  assume "int n < 2 ^ 63"
  moreover have "takeWhile is_digit (dec n) = dec n"
    using dec_all_digits by (auto simp add: takeWhile_eq_all_conv)
  moreover have "split_sign (dec n) = (False, dec n)"
    by (rule split_sign_digits) (auto dest: dec_all_digits)
  ultimately show ?thesis by (simp add: stoll_def digits_val_dec Let_def takeWhile_eq_all_conv [THEN iffD2])
qed

lemma demo_nodes:
  "FindFirstNode demo_root [''enable_serial''] = Scalar ''True''"
  "FindFirstNode demo_root [''serial_port''] = Scalar ''/dev/ttyACM0''"
  "FindFirstNode demo_root [''serial_baud_rate''] = Scalar (dec 921600)"
  "FindFirstNode demo_root [''enable_rtcm_tcp_loopback''] = Scalar ''no''"
  "FindFirstNode demo_root [''enable_ntrip_rtcm''] = Scalar ''off''"
  "FindFirstNode demo_root [''raw_observation_systems''] = Scalar ''BeiDou''"
  "FindFirstNode demo_root [''ephemeris_systems''] = Sequence [Scalar ''GPS'', Scalar ''bds'']"
  "FindFirstNode demo_root [''enable_config_bring''] = Scalar '' 0 ''"
  by (simp_all add: FindFirstNode_def demo_root_def)

lemma demo_scalars:
  "ParseBoolScalar ''True'' = Inr True" "ParseBoolScalar ''no'' = Inr False" "ParseBoolScalar ''off'' = Inr False"
  "ParseBoolScalar '' 0 '' = Inr False"
  "ParseSupportedGnssSystemName ''BeiDou'' k = Inr SYS_BDS"
  "ParseSupportedGnssSystemName ''GPS'' k = Inr SYS_GPS"
  "ParseSupportedGnssSystemName ''bds'' k = Inr SYS_BDS"
proof -
  show "ParseBoolScalar ''True'' = Inr True" "ParseBoolScalar ''no'' = Inr False" "ParseBoolScalar ''off'' = Inr False"
    "ParseBoolScalar '' 0 '' = Inr False"
    by code_simp+
  have "ToLower (Trim ''BeiDou'') = ''beidou''" "ToLower (Trim ''GPS'') = ''gps''" "ToLower (Trim ''bds'') = ''bds''"
    by code_simp+
  then show "ParseSupportedGnssSystemName ''BeiDou'' k = Inr SYS_BDS"
    "ParseSupportedGnssSystemName ''GPS'' k = Inr SYS_GPS" "ParseSupportedGnssSystemName ''bds'' k = Inr SYS_BDS"
    by (simp_all add: ParseSupportedGnssSystemName_def)
qed

lemma demo_lib_sel:
  "load_file (demo_lib root) f = Some root" "is_defined (demo_lib root) n"
  "as_string (demo_lib root) (Scalar s) = Some s"
  "as_long (demo_lib root) (Scalar (dec 921600)) = Some 921600"
  using stoll_dec [of 921600] by (simp_all add: demo_lib_def)

lemmas demo_reads = demo_nodes demo_scalars demo_lib_sel ReadBool_def ReadBoolAny_def ReadBoolNode_def
  ReadRequired_def ReadRequiredAny_def ParseGnssSystemMask_def Let_def

lemma load_demo: "LoadUbloxDriverParams (demo_lib demo_root) demo_platform [] [] = Inr demo_params"
proof -
  let ?lib = "demo_lib demo_root"
  let ?p = "default_params\<lparr>enable_serial := True, serial_port := ''/dev/ttyACM0'', serial_baud_rate := 921600\<rparr>"
  have "ReadBool ?lib demo_root ''enable_serial'' True True = Inr True"
    "ReadRequired ?lib (as_string ?lib) demo_root ''serial_port'' = Inr ''/dev/ttyACM0''"
    "ReadRequired ?lib (as_long ?lib) demo_root ''serial_baud_rate'' = Inr 921600"
    "ReadBool ?lib demo_root ''enable_config_bring'' False False = Inr False"
    by (simp_all add: demo_reads)
  moreover have "read_rtcm_params ?lib demo_root ?p = Inr ?p"
    by (simp add: read_rtcm_params_def demo_reads default_params_def)
  moreover have "ParseGnssSystemMask ?lib demo_root ''raw_observation_systems'' d = Inr SYS_BDS" for d
    by (simp add: demo_reads sys_defs)
  moreover have "ParseGnssSystemMask ?lib demo_root ''ephemeris_systems'' d = Inr (SYS_GPS OR SYS_BDS)" for d
    by (simp add: demo_reads sys_defs)
  ultimately show ?thesis
    by (simp add: LoadUbloxDriverParams_def demo_lib_sel finish_params_def)
      (simp add: demo_params_def default_params_def)
qed


section \<open>Missing keys\<close>

lemma missing_bool:
  "is_defined lib Null \<Longrightarrow> FindFirstNode root [key] = Null \<Longrightarrow> ReadBoolAny lib root [key] d r f \<noteq> Inr b"
  by (simp add: ReadBoolAny_def ReadBoolNode_def)

lemma missing_mask:
  "is_defined lib Null \<Longrightarrow> FindFirstNode root [key] = Null \<Longrightarrow> ParseGnssSystemMask lib root key d \<noteq> Inr m"
  by (simp add: ParseGnssSystemMask_def)

definition optional_keys :: "string list" where
  "optional_keys = [''enable_rtcm_tcp_loopback'', ''enable_ntrip_rtcm'', ''raw_observation_systems'',
     ''ephemeris_systems'', ''enable_config_bring'']"

text \<open>
  \<open>FindFirstNode\<close> answers a missing key with a default-constructed node.  The YAML library counts
  that node as defined (it is a null node), so the defaults of the optional fields are never used: a file that
  leaves one of the optional keys out does not load.
\<close>

lemma missing_optional_key_fails:
  assumes "is_defined lib Null" and "load_file lib file = Some root"
    and "key \<in> set optional_keys" and "FindFirstNode root [key] = Null"
  shows "LoadUbloxDriverParams lib pf file override \<noteq> Inr p"
proof
  assume "LoadUbloxDriverParams lib pf file override = Inr p"
  then obtain root' p00 p0 raw eph bring where "load_file lib file = Some root'"
    and r: "read_rtcm_params lib root' p00 = Inr p0"
    "ParseGnssSystemMask lib root' ''raw_observation_systems'' (SYS_GPS OR SYS_BDS) = Inr raw"
    "ParseGnssSystemMask lib root' ''ephemeris_systems'' (SYS_GPS OR SYS_BDS) = Inr eph"
    "ReadBool lib root' ''enable_config_bring'' False False = Inr bring"
    by (rule load_steps)
  with assms(2) have "root' = root" by simp
  moreover obtain l n where "ReadBoolAny lib root' [''enable_rtcm_tcp_loopback''] False False [] = Inr l"
    "ReadBoolAny lib root' [''enable_ntrip_rtcm''] False False [] = Inr n"
    using r(1) by (auto simp add: read_rtcm_params_def bind_res_Inr)
  ultimately show False
    using r(2-4) missing_bool [OF assms(1,4)] missing_mask [OF assms(1,4)] assms(3)
    by (auto simp add: optional_keys_def ReadBool_def)
qed

lemma missing_optional_key_fails_witness:
  "LoadUbloxDriverParams (demo_lib (Mapping [(Scalar ''serial_port'', Scalar ''/dev/ttyACM0'')])) demo_platform [] []
     \<noteq> Inr default_params"
  by (rule missing_optional_key_fails
      [where key = "''enable_ntrip_rtcm''" and root = "Mapping [(Scalar ''serial_port'', Scalar ''/dev/ttyACM0'')]"])
    (simp_all add: demo_lib_def optional_keys_def FindFirstNode_def)

end
