(* ===== verification/Serial_Link.thy ===== *)
theory Serial_Link
  imports Stream_Cutter Ubx_Frame
begin

text \<open>
  \<open>SerialHandler\<close>: \<open>read_exact\<close> and \<open>read_loop\<close> over what the serial device does, \<open>write_all\<close>, and the
  handshake of \<open>startRead\<close>, \<open>stopRead\<close> and the reader thread.
\<close>

section \<open>The device\<close>

text \<open>
  What one turn of \<open>wait_for_event\<close> and \<open>read\<close> can meet: octets waiting in the kernel (a \<open>read\<close> takes
  as many as it wants and leaves the others; none at all is the end of file), a retry (\<open>EINTR\<close>,
  \<open>EAGAIN\<close>), a failure (hang-up, error, wake-up), or a wake-up after \<open>read_running_\<close> was cleared.
  Events that never come leave the reader blocked in \<open>poll\<close>.
\<close>

datatype serial_event = In bytes | Again | Fail | Stop

datatype read_res = Done | Failed | Blocked | Overflowed

record serial =
  data_buf :: bytes
  read_running :: bool
  events :: "serial_event list"
  delivered :: "bytes list"

definition serial_init :: "nat \<Rightarrow> serial_event list \<Rightarrow> serial" where
  "serial_init buf_size evs =
     \<lparr>data_buf = replicate buf_size 0, read_running = True, events = evs, delivered = []\<rparr>"

definition unread :: "bytes \<Rightarrow> serial_event list \<Rightarrow> serial_event list" where
  "unread bs evs = (if bs = [] then evs else In bs # evs)"

text \<open>
  \<open>read_exact(data_buf_ + off, len)\<close>.  Storing an octet behind the end of \<open>data_buf_\<close> is the result
  \<open>Overflowed\<close>; the test is made where the octets arrive, as in the code nothing is stored before.
\<close>

function read_exact :: "nat \<Rightarrow> nat \<Rightarrow> serial \<Rightarrow> read_res \<times> serial" where
  "read_exact off len s =
     (if len = 0 then (Done, s)
      else if \<not> read_running s then (Failed, s)
      else case events s of
        [] \<Rightarrow> (Blocked, s)
      | Again # evs \<Rightarrow> read_exact off len (s\<lparr>events := evs\<rparr>)
      | Fail # evs \<Rightarrow> (Failed, s\<lparr>events := evs\<rparr>)
      | Stop # evs \<Rightarrow> (Failed, s\<lparr>events := evs, read_running := False\<rparr>)
      | In bs # evs \<Rightarrow>
          (let got = take len bs in
           if got = [] then (Failed, s\<lparr>events := evs\<rparr>)
           else if off + length got > length (data_buf s) then (Overflowed, s)
           else read_exact (off + length got) (len - length got)
             (s\<lparr>data_buf := store_at (data_buf s) off got, events := unread (drop len bs) evs\<rparr>)))"
  by pat_completeness auto
termination
  by (relation "measure (\<lambda>(off, len, s). len + length (events s))") (auto simp add: unread_def)

declare read_exact.simps [simp del]

section \<open>Reading messages\<close>

text \<open>Where the preamble begins among the first six octets; 5 when it does not.\<close>

fun pream_search :: "bytes \<Rightarrow> nat list \<Rightarrow> nat" where
  "pream_search b [] = 5"
| "pream_search b (i # is) =
     (if byte_at b i = 0xB5 \<and> byte_at b (i + 1) = 0x62 then i else pream_search b is)"

definition pream_idx :: "bytes \<Rightarrow> nat" where
  "pream_idx b = pream_search b [0, 1, 2, 3, 4]"

definition move_down :: "nat \<Rightarrow> bytes \<Rightarrow> bytes" where
  "move_down k b = store_at b 0 (take (kUbxMsgHeaderLen - k) (drop k b))"

definition event_size :: "serial_event list \<Rightarrow> nat" where
  "event_size evs = sum_list (map (\<lambda>e. case e of In bs \<Rightarrow> Suc (length bs) | _ \<Rightarrow> 1) evs)"

lemma event_size_simps [simp]:
  "event_size [] = 0"
  "event_size (In bs # evs) = Suc (length bs) + event_size evs"
  "event_size (Again # evs) = Suc (event_size evs)"
  "event_size (Fail # evs) = Suc (event_size evs)"
  "event_size (Stop # evs) = Suc (event_size evs)"
  by (simp_all add: event_size_def)

lemma event_size_unread: "event_size (unread (drop n bs) evs) \<le> Suc (length bs - n) + event_size evs"
  by (simp add: unread_def)

lemma pream_idx_pos: "pream_idx b \<noteq> 0 \<Longrightarrow> 1 \<le> pream_idx b \<and> pream_idx b \<le> 5"
  by (auto simp add: pream_idx_def)

lemma read_exact_sizes:
  "read_exact off len s = (r, s') \<Longrightarrow>
     event_size (events s') \<le> event_size (events s)
     \<and> (r = Done \<longrightarrow> event_size (events s') + len \<le> event_size (events s))"
proof (induction off len s rule: read_exact.induct)
  case (1 off len s)
  show ?case
  proof (cases "len = 0 \<or> \<not> read_running s \<or> events s = []")
    case True
    with "1.prems" show ?thesis by (auto simp add: read_exact.simps [of off len s] split: if_splits)
  next
    case False
    then obtain e evs where ev: "events s = e # evs" by (cases "events s") auto
    show ?thesis
    proof (cases e)
      case (In bs)
      let ?got = "take len bs"
      let ?s = "s\<lparr>data_buf := store_at (data_buf s) off ?got, events := unread (drop len bs) evs\<rparr>"
      show ?thesis
      proof (cases "?got = [] \<or> off + length ?got > length (data_buf s)")
        case True
        then show ?thesis
          using "1.prems" False ev In by (auto simp add: read_exact.simps [of off len s] Let_def split: if_splits)
      next
        case got: False
        have "read_exact (off + length ?got) (len - length ?got) ?s = (r, s')"
          using "1.prems" False ev In got by (simp add: read_exact.simps [of off len s])
        then have "event_size (events s') \<le> event_size (events ?s)
            \<and> (r = Done \<longrightarrow> event_size (events s') + (len - length ?got) \<le> event_size (events ?s))"
          using "1.IH"(1) False ev In got by blast
        moreover have "event_size (events ?s) + length ?got \<le> event_size (events s)"
          using ev In by (auto simp add: unread_def)
        ultimately show ?thesis by auto
      qed
    qed (use "1.prems" "1.IH"(2) False ev in \<open>auto simp add: read_exact.simps [of off len s]\<close>)
  qed
qed

lemma read_exact_size:
  "read_exact off len s = (Done, s') \<Longrightarrow> event_size (events s') + len \<le> event_size (events s)"
  using read_exact_sizes by blast

lemma read_exact_events: "read_exact off len s = (r, s') \<Longrightarrow> event_size (events s') \<le> event_size (events s)"
  using read_exact_sizes by blast

text \<open>The inner loop: slide until the preamble is in front.  A failed read leaves it, header or not.\<close>

function resync :: "serial \<Rightarrow> read_res \<times> serial" where
  "resync s =
     (let k = pream_idx (data_buf s) in
      if \<not> read_running s \<or> k = 0 then (Done, s)
      else case read_exact (kUbxMsgHeaderLen - k) k (s\<lparr>data_buf := move_down k (data_buf s)\<rparr>) of
        (Done, s') \<Rightarrow> resync s'
      | (Failed, s') \<Rightarrow> (Done, s')
      | r \<Rightarrow> r)"
  by pat_completeness auto
termination
  by (relation "measure (\<lambda>s. event_size (events s))") (auto dest!: read_exact_size [OF sym])

declare resync.simps [simp del]

lemma resync_size: "resync s = (Done, s') \<Longrightarrow> event_size (events s') \<le> event_size (events s)"
proof (induction s rule: resync.induct)
  case (1 s)
  let ?k = "pream_idx (data_buf s)"
  let ?r = "read_exact (kUbxMsgHeaderLen - ?k) ?k (s\<lparr>data_buf := move_down ?k (data_buf s)\<rparr>)"
  obtain r t where rt: "?r = (r, t)" by fastforce
  show ?case
  proof (cases "\<not> read_running s \<or> ?k = 0")
    case True
    with "1.prems" show ?thesis by (simp add: resync.simps [of s] Let_def split: if_splits)
  next
    case False
    have "event_size (events t) \<le> event_size (events s)"
      using read_exact_events [OF rt] by simp
    with "1.prems" "1.IH" [OF refl False rt [symmetric]] False rt show ?thesis
      by (cases r) (simp_all add: resync.simps [of s] Let_def)
  qed
qed

definition msg_len :: "bytes \<Rightarrow> nat" where
  "msg_len buf = unat (le16 buf 4)"

function read_loop :: "serial \<Rightarrow> read_res \<times> serial" where
  "read_loop s =
     (if \<not> read_running s then (Failed, s)
      else case read_exact 0 kUbxMsgHeaderLen s of
        (Done, s1) \<Rightarrow>
          (case resync s1 of
             (Done, s2) \<Rightarrow>
               if \<not> read_running s2 then (Failed, s2)
               else let n = msg_len (data_buf s2) in
                 (case read_exact kUbxMsgHeaderLen (n + 2) s2 of
                    (Done, s3) \<Rightarrow>
                      read_loop (s3\<lparr>delivered := delivered s3 @ [take (kUbxMsgHeaderLen + n + 2) (data_buf s3)]\<rparr>)
                  | r \<Rightarrow> r)
           | r \<Rightarrow> r)
      | r \<Rightarrow> r)"
  by pat_completeness auto
termination
  by (relation "measure (\<lambda>s. event_size (events s))")
    (auto simp add: kUbxMsgHeaderLen_def dest!: read_exact_size [OF sym] resync_size [OF sym])

declare read_loop.simps [simp del]

section \<open>The stream of octets\<close>

text \<open>
  The loop body over the octets that have arrived, whatever the reads were: wait for a header, slide
  to the preamble, wait for the announced length, deliver.
\<close>

definition ubx_body :: "bytes \<Rightarrow> bytes turn" where
  "ubx_body b =
     (if length b < kUbxMsgHeaderLen then Return b
      else if pream_idx b \<noteq> 0 then Continue (drop (pream_idx b) b)
      else if length b < kUbxMsgHeaderLen + msg_len b + 2 then Return b
      else Publish (take (kUbxMsgHeaderLen + msg_len b + 2) b) (drop (kUbxMsgHeaderLen + msg_len b + 2) b))"

abbreviation ubx_cut :: "bytes \<Rightarrow> bytes \<times> bytes list" where
  "ubx_cut \<equiv> cut_run ubx_body"

lemma byte_at_take_id: "i < n \<Longrightarrow> byte_at (take n b) i = byte_at b i"
  by (simp add: byte_at_take)

lemma byte_at_header: "take 6 b = take 6 c \<Longrightarrow> i < 6 \<Longrightarrow> byte_at b i = byte_at c i"
  using byte_at_take_id by metis

lemma pream_idx_cong: "take 6 b = take 6 c \<Longrightarrow> pream_idx b = pream_idx c"
  by (simp add: pream_idx_def byte_at_header [of b c])

lemma msg_len_cong: "take 6 b = take 6 c \<Longrightarrow> msg_len b = msg_len c"
  by (simp add: msg_len_def le16_def byte_at_header [of b c])

lemma header_append: "6 \<le> length b \<Longrightarrow> pream_idx (b @ x) = pream_idx b \<and> msg_len (b @ x) = msg_len b"
  by (auto intro: pream_idx_cong msg_len_cong)

interpretation ubx: stream_cutter ubx_body
proof
  show "ubx_body b = Continue r \<Longrightarrow> length r < length b" for b r
    by (auto simp add: ubx_body_def kUbxMsgHeaderLen_def split: if_splits)
  show "ubx_body b = Publish m r \<Longrightarrow> length r < length b" for b m r
    by (auto simp add: ubx_body_def kUbxMsgHeaderLen_def split: if_splits)
  show "ubx_body b = Continue r \<Longrightarrow> ubx_body (b @ x) = Continue (r @ x)" for b r x
    using pream_idx_pos [of b]
    by (auto simp add: ubx_body_def kUbxMsgHeaderLen_def header_append split: if_splits)
  show "ubx_body b = Publish m r \<Longrightarrow> ubx_body (b @ x) = Publish m (r @ x)" for b m r x
    by (auto simp add: ubx_body_def kUbxMsgHeaderLen_def header_append split: if_splits)
  show "ubx_body b = Return r \<Longrightarrow> ubx_body (b @ x) = ubx_body (r @ x)" for b r x
    by (auto simp add: ubx_body_def split: if_splits)
qed

section \<open>What the reads take from the stream\<close>

fun octets :: "serial_event list \<Rightarrow> bytes" where
  "octets [] = []"
| "octets (In bs # evs) = bs @ octets evs"
| "octets (e # evs) = octets evs"

text \<open>A device that only delivers octets, late and in any pieces.\<close>

definition quiet :: "serial_event list \<Rightarrow> bool" where
  "quiet evs \<longleftrightarrow> list_all (\<lambda>e. case e of In bs \<Rightarrow> bs \<noteq> [] | Again \<Rightarrow> True | _ \<Rightarrow> False) evs"

lemma quiet_simps [simp]:
  "quiet []" "quiet (In bs # evs) \<longleftrightarrow> bs \<noteq> [] \<and> quiet evs" "quiet (Again # evs) \<longleftrightarrow> quiet evs"
  "\<not> quiet (Fail # evs)" "\<not> quiet (Stop # evs)"
  by (simp_all add: quiet_def)

lemma quiet_unread [simp]: "quiet evs \<Longrightarrow> quiet (unread bs evs)"
  and octets_unread [simp]: "octets (unread bs evs) = bs @ octets evs"
  by (simp_all add: unread_def)

lemma store_at_store_at:
  "off \<le> length b \<Longrightarrow> store_at (store_at b off xs) (off + length xs) ys = store_at b off (xs @ ys)"
  by (simp add: store_at_def ac_simps)

lemma store_at_Nil [simp]: "off \<le> length b \<Longrightarrow> store_at b off [] = b"
  by (simp add: store_at_def)

lemma read_exact_Done:
  assumes "quiet (events s)" and "read_running s" and "off + len \<le> length (data_buf s)"
    and "len \<le> length (octets (events s))"
  shows "\<exists>evs. quiet evs \<and> octets evs = drop len (octets (events s))
    \<and> read_exact off len s =
       (Done, s\<lparr>data_buf := store_at (data_buf s) off (take len (octets (events s))), events := evs\<rparr>)"
  using assms
proof (induction off len s rule: read_exact.induct)
  case (1 off len s)
  show ?case
  proof (cases "len = 0")
    case True
    with "1.prems" show ?thesis
      by (intro exI [of _ "events s"]) (simp add: read_exact.simps [of off 0 s])
  next
    case False
    then obtain e evs where ev: "events s = e # evs"
      using "1.prems" by (cases "events s") auto
    show ?thesis
    proof (cases e)
      case (In bs)
      let ?got = "take len bs"
      let ?s = "s\<lparr>data_buf := store_at (data_buf s) off ?got, events := unread (drop len bs) evs\<rparr>"
      have got: "?got \<noteq> []" "\<not> length (data_buf s) < off + length ?got"
        using "1.prems" False ev In by auto
      let ?o = "octets (events ?s)"
      have pre: "quiet (events ?s)" "read_running ?s" "len - length ?got \<le> length ?o"
        "off + length ?got + (len - length ?got) \<le> length (data_buf ?s)"
        using "1.prems" False ev In got by auto
      obtain evs' where evs': "quiet evs'" "octets evs' = drop (len - length ?got) ?o"
        "read_exact (off + length ?got) (len - length ?got) ?s =
           (Done, ?s\<lparr>data_buf := store_at (data_buf ?s) (off + length ?got) (take (len - length ?got) ?o),
              events := evs'\<rparr>)"
        using "1.IH"(1) [OF False _ ev In refl got pre(1,2,4,3)] pre(2) by auto
      have "read_exact off len s = read_exact (off + length ?got) (len - length ?got) ?s"
        using "1.prems" False ev In got by (simp add: read_exact.simps [of off len s])
      moreover have o: "take len (octets (events s)) = ?got @ take (len - length ?got) ?o"
        "drop len (octets (events s)) = drop (len - length ?got) ?o"
        using ev In by (auto simp add: min_def)
      moreover have "store_at (data_buf ?s) (off + length ?got) (take (len - length ?got) ?o)
          = store_at (data_buf s) off (take len (octets (events s)))"
        using "1.prems" unfolding o by (simp add: store_at_store_at del: length_take)
      ultimately show ?thesis
        using evs' by (intro exI [of _ evs'] conjI) simp_all
    qed (use "1.prems" "1.IH"(2) False ev in \<open>auto simp add: read_exact.simps [of off len s]\<close>)
  qed
qed

lemma read_exact_not_Done:
  assumes "quiet (events s)" and "read_running s" and "off \<le> length (data_buf s)"
    and "length (data_buf s) < off + len \<or> length (octets (events s)) < len"
  shows "\<exists>s'. delivered s' = delivered s \<and> read_exact off len s =
    (if length (data_buf s) < off + min len (length (octets (events s))) then Overflowed else Blocked, s')"
  using assms
proof (induction off len s rule: read_exact.induct)
  case (1 off len s)
  then have len: "len \<noteq> 0" by auto
  show ?case
  proof (cases "events s")
    case Nil
    with "1.prems" len show ?thesis by (auto simp add: read_exact.simps [of off len s])
  next
    case ev: (Cons e evs)
    show ?thesis
    proof (cases e)
      case (In bs)
      let ?got = "take len bs"
      let ?s = "s\<lparr>data_buf := store_at (data_buf s) off ?got, events := unread (drop len bs) evs\<rparr>"
      show ?thesis
      proof (cases "length (data_buf s) < off + length ?got")
        case True
        with "1.prems" len ev In show ?thesis
          by (auto simp add: read_exact.simps [of off len s] Let_def)
      next
        case False
        then have "\<exists>s'. delivered s' = delivered ?s
            \<and> read_exact (off + length ?got) (len - length ?got) ?s =
               (if length (data_buf ?s) < off + length ?got
                    + min (len - length ?got) (length (octets (events ?s)))
                then Overflowed else Blocked, s')"
          using "1.prems" len ev In by (intro "1.IH"(1)) (auto simp add: min_def split: if_splits)
        moreover have "read_exact off len s = read_exact (off + length ?got) (len - length ?got) ?s"
          using "1.prems" False len ev In by (simp add: read_exact.simps [of off len s])
        moreover have "length ?got + min (len - length ?got) (length (octets (events ?s)))
            = min len (length (octets (events s)))"
          using ev In by auto
        ultimately show ?thesis
          using False by (auto simp add: add.assoc)
      qed
    qed (use "1.prems" "1.IH"(2) len ev in \<open>auto simp add: read_exact.simps [of off len s]\<close>)
  qed
qed

section \<open>The loop cuts the stream\<close>

definition reading :: "nat \<Rightarrow> serial \<Rightarrow> bool" where
  "reading n s \<longleftrightarrow> quiet (events s) \<and> read_running s \<and> length (data_buf s) = n \<and> 6 \<le> n"

text \<open>Header in the buffer, the rest still with the device.\<close>

definition pending :: "serial \<Rightarrow> bytes" where
  "pending s = take 6 (data_buf s) @ octets (events s)"

lemma pream_idx_take6: "pream_idx (take 6 b @ x) = pream_idx b" if "6 \<le> length b"
  using that by (intro pream_idx_cong) simp

lemma length_move_down [simp]: "6 \<le> length b \<Longrightarrow> length (move_down k b) = length b"
  by (simp add: move_down_def kUbxMsgHeaderLen_def)

lemma take_move_down: "6 \<le> length b \<Longrightarrow> k \<le> 6 \<Longrightarrow> take (6 - k) (move_down k b) = take (6 - k) (drop k b)"
  using take_store_at [of 0 "take (6 - k) (drop k b)" b] by (simp add: move_down_def kUbxMsgHeaderLen_def)

lemma slide_header:
  assumes "6 \<le> length b" and "k \<le> 6" and "length xs = k"
  shows "take 6 (store_at (move_down k b) (6 - k) xs) = take (6 - k) (drop k b) @ xs"
  using assms take_store_at [of "6 - k" xs "move_down k b"] by (simp add: take_move_down)

lemma ubx_cut_short: "length b < 6 \<Longrightarrow> ubx_cut b = (b, [])"
  by (rule ubx.run_Return) (simp add: ubx_body_def kUbxMsgHeaderLen_def)

lemma resync_run:
  assumes "reading n s"
  shows "(\<exists>s'. resync s = (Done, s') \<and> reading n s' \<and> delivered s' = delivered s
        \<and> pream_idx (data_buf s') = 0 \<and> ubx_cut (pending s) = ubx_cut (pending s'))
    \<or> (\<exists>s'. resync s = (Blocked, s') \<and> delivered s' = delivered s
        \<and> snd (ubx_cut (pending s)) = [] \<and> length (fst (ubx_cut (pending s))) < 6)"
  using assms
proof (induction s rule: resync.induct)
  case (1 s)
  let ?k = "pream_idx (data_buf s)"
  let ?o = "octets (events s)"
  let ?m = "s\<lparr>data_buf := move_down ?k (data_buf s)\<rparr>"
  have len: "6 \<le> length (data_buf s)" using "1.prems" by (simp add: reading_def)
  show ?case
  proof (cases "?k = 0")
    case True
    with "1.prems" show ?thesis by (auto simp add: resync.simps [of s])
  next
    case False
    note k = pream_idx_pos [OF False]
    have body: "ubx_body (pending s) = Continue (drop ?k (pending s))"
      using False len by (simp add: ubx_body_def kUbxMsgHeaderLen_def pending_def pream_idx_take6)
    show ?thesis
    proof (cases "?k \<le> length ?o")
      case True
      then obtain evs where evs: "quiet evs" "octets evs = drop ?k ?o"
        "read_exact (kUbxMsgHeaderLen - ?k) ?k ?m =
           (Done, ?m\<lparr>data_buf := store_at (data_buf ?m) (kUbxMsgHeaderLen - ?k) (take ?k ?o), events := evs\<rparr>)"
        using read_exact_Done [of ?m "kUbxMsgHeaderLen - ?k" ?k] "1.prems" k
        by (auto simp add: reading_def kUbxMsgHeaderLen_def)
      let ?s = "?m\<lparr>data_buf := store_at (data_buf ?m) (kUbxMsgHeaderLen - ?k) (take ?k ?o), events := evs\<rparr>"
      have buf: "take 6 (data_buf ?s) = take (6 - ?k) (drop ?k (data_buf s)) @ take ?k ?o"
        using len k True by (simp add: slide_header kUbxMsgHeaderLen_def)
      have "pending ?s = drop ?k (pending s)"
        using len k True evs(2) buf by (simp add: pending_def drop_take)
      then have "ubx_cut (pending s) = ubx_cut (pending ?s)"
        using ubx.run_Continue [OF body] by simp
      moreover have "reading n ?s"
        using "1.prems" evs(1) k True by (simp add: reading_def kUbxMsgHeaderLen_def)
      moreover have "resync s = resync ?s"
        using False "1.prems" evs(3) by (simp add: resync.simps [of s] reading_def Let_def)
      ultimately show ?thesis
        using "1.IH" [OF refl _ evs(3) [symmetric] refl] False "1.prems" by (simp add: reading_def)
    next
      case short: False
      then have fit: "\<not> length (data_buf s) < 6 + length ?o - ?k" "6 - ?k \<le> length (data_buf s)"
        using len by linarith+
      from short obtain s' where "delivered s' = delivered s"
        "read_exact (kUbxMsgHeaderLen - ?k) ?k ?m = (Blocked, s')"
        using read_exact_not_Done [of ?m "kUbxMsgHeaderLen - ?k" ?k] "1.prems" k fit
        by (auto simp add: reading_def kUbxMsgHeaderLen_def split: if_splits)
      moreover have "length (drop ?k (pending s)) < 6"
        using len k short by (simp add: pending_def)
      ultimately show ?thesis
        using False "1.prems" ubx.run_Continue [OF body] ubx_cut_short [of "drop ?k (pending s)"]
        by (simp add: resync.simps [of s] reading_def)
    qed
  qed
qed

text \<open>The payload of the header in front: too short, too long for the buffer, or a message.\<close>

lemma payload_body:
  assumes "reading n s" and "pream_idx (data_buf s) = 0"
  defines "l \<equiv> kUbxMsgHeaderLen + msg_len (data_buf s) + 2"
  shows "ubx_body (pending s) =
    (if length (pending s) < l then Return (pending s)
     else Publish (take l (pending s)) (drop l (pending s)))"
  using assms(1,2) pream_idx_cong [of "pending s" "data_buf s"] msg_len_cong [of "pending s" "data_buf s"]
  by (simp add: l_def ubx_body_def kUbxMsgHeaderLen_def reading_def pending_def)

lemma length_pending: "reading n s \<Longrightarrow> length (pending s) = 6 + length (octets (events s))"
  by (simp add: reading_def pending_def)

lemma payload_not_Done:
  assumes "reading n s" and "length (pending s) < 6 + len \<or> n < 6 + len"
  shows "\<exists>s'. delivered s' = delivered s
    \<and> read_exact 6 len s = (if n < min (6 + len) (length (pending s)) then Overflowed else Blocked, s')"
proof -
  have "6 + min len (length (octets (events s))) = min (6 + len) (length (pending s))"
    using assms(1) by (simp add: length_pending)
  then show ?thesis
    using read_exact_not_Done [of s 6 len] assms by (auto simp add: reading_def length_pending [OF assms(1)])
qed

lemma payload_Done:
  assumes "reading n s" and "6 + len \<le> length (pending s)" and "6 + len \<le> n"
  shows "\<exists>s'. read_exact 6 len s = (Done, s') \<and> reading n s' \<and> delivered s' = delivered s
    \<and> take (6 + len) (data_buf s') = take (6 + len) (pending s)
    \<and> octets (events s') = drop (6 + len) (pending s)"
proof -
  let ?o = "octets (events s)"
  have l: "length (take len ?o) = len" and s: "quiet (events s)" "read_running s" "length (data_buf s) = n"
    using assms length_pending [OF assms(1)] by (simp_all add: reading_def)
  obtain evs where evs: "quiet evs" "octets evs = drop len ?o"
    "read_exact 6 len s = (Done, s\<lparr>data_buf := store_at (data_buf s) 6 (take len ?o), events := evs\<rparr>)"
    using read_exact_Done [of s 6 len] assms length_pending [OF assms(1)] by (auto simp add: reading_def)
  have "take (6 + len) (store_at (data_buf s) 6 (take len ?o)) = take 6 (data_buf s) @ take len ?o"
    using take_store_at [of 6 "take len ?o" "data_buf s"] assms(3) s(3) unfolding l by simp
  with evs s l assms(3) show ?thesis
    by (simp add: reading_def pending_def)
qed

lemma header_Done:
  assumes "reading n s" and "6 \<le> length (octets (events s))"
  shows "\<exists>s'. read_exact 0 kUbxMsgHeaderLen s = (Done, s') \<and> reading n s' \<and> delivered s' = delivered s
    \<and> pending s' = octets (events s)"
proof -
  let ?o = "octets (events s)"
  obtain evs where evs: "quiet evs" "octets evs = drop 6 ?o" "read_exact 0 kUbxMsgHeaderLen s =
      (Done, s\<lparr>data_buf := store_at (data_buf s) 0 (take 6 ?o), events := evs\<rparr>)"
    using read_exact_Done [of s 0 kUbxMsgHeaderLen] assms by (auto simp add: reading_def kUbxMsgHeaderLen_def)
  moreover have "take 6 (store_at (data_buf s) 0 (take 6 ?o)) = take 6 ?o"
    using take_store_at [of 0 "take 6 ?o" "data_buf s"] assms by (simp add: reading_def)
  ultimately show ?thesis
    using assms by (simp add: reading_def pending_def)
qed

lemma read_loop_run:
  assumes "reading n s"
  shows "\<exists>s'. read_loop s =
      (if list_all (\<lambda>m. length m \<le> n) (snd (ubx_cut (octets (events s))))
          \<and> length (fst (ubx_cut (octets (events s)))) \<le> n then Blocked else Overflowed, s')
    \<and> delivered s' = delivered s @ takeWhile (\<lambda>m. length m \<le> n) (snd (ubx_cut (octets (events s))))"
  using assms
proof (induction s rule: read_loop.induct)
  case (1 s)
  let ?o = "octets (events s)"
  have s: "quiet (events s)" "read_running s" "length (data_buf s) = n" "6 \<le> n"
    using "1.prems" by (simp_all add: reading_def)
  show ?case
  proof (cases "length ?o < 6")
    case True
    then have "ubx_cut ?o = (?o, [])" by (rule ubx_cut_short)
    moreover obtain s' where "delivered s' = delivered s" "read_exact 0 kUbxMsgHeaderLen s = (Blocked, s')"
      using read_exact_not_Done [of s 0 kUbxMsgHeaderLen] s True
      by (auto simp add: kUbxMsgHeaderLen_def split: if_splits)
    ultimately show ?thesis
      using s True by (simp add: read_loop.simps [of s])
  next
    case False
    then obtain s1 where s1: "read_exact 0 kUbxMsgHeaderLen s = (Done, s1)" "reading n s1"
      "delivered s1 = delivered s" "pending s1 = ?o"
      using header_Done [OF "1.prems"] by auto
    from resync_run [OF s1(2)] consider
      (blocked) s' where "resync s1 = (Blocked, s')" "delivered s' = delivered s"
        "snd (ubx_cut ?o) = []" "length (fst (ubx_cut ?o)) < 6"
      | (synced) s2 where "resync s1 = (Done, s2)" "reading n s2" "delivered s2 = delivered s"
        "pream_idx (data_buf s2) = 0" "ubx_cut ?o = ubx_cut (pending s2)"
      using s1 by auto
    then show ?thesis
    proof cases
      case blocked
      then show ?thesis
        using s s1(1) by (simp add: read_loop.simps [of s])
    next
      case synced
      let ?b = "pending s2" and ?len = "msg_len (data_buf s2) + 2"
      note body = payload_body [OF synced(2,4)]
      have run: "read_running s2" using synced(2) by (simp add: reading_def)
      show ?thesis
      proof (cases "length ?b < 6 + ?len \<or> n < 6 + ?len")
        case True
        then obtain s' where s': "delivered s' = delivered s"
          "read_exact 6 ?len s2 = (if n < min (6 + ?len) (length ?b) then Overflowed else Blocked, s')"
          using payload_not_Done [OF synced(2) True] synced(3) by metis
        show ?thesis
        proof (cases "length ?b < 6 + ?len")
          case True
          then have "ubx_cut ?o = (?b, [])"
            using body synced(5) ubx.run_Return [of ?b ?b] by (simp add: kUbxMsgHeaderLen_def)
          with True s s1(1) synced(1) run s' show ?thesis
            by (auto simp add: read_loop.simps [of s] kUbxMsgHeaderLen_def min_def)
        next
          case False
          with True body ubx.run_Publish [of ?b] synced(5)
          have "snd (ubx_cut ?o) = take (6 + ?len) ?b # snd (ubx_cut (drop (6 + ?len) ?b))"
            by (simp add: kUbxMsgHeaderLen_def)
          with True False s s1(1) synced(1) run s' show ?thesis
            by (auto simp add: read_loop.simps [of s] kUbxMsgHeaderLen_def min_def)
        qed
      next
        case False
        then obtain s3 where s3: "read_exact 6 ?len s2 = (Done, s3)" "reading n s3"
          "delivered s3 = delivered s" "take (6 + ?len) (data_buf s3) = take (6 + ?len) ?b"
          "octets (events s3) = drop (6 + ?len) ?b"
          using payload_Done [OF synced(2), of ?len] synced(3) by (metis not_less)
        let ?s4 = "s3\<lparr>delivered := delivered s3 @ [take (6 + ?len) ?b]\<rparr>"
        have "ubx_cut ?o = (fst (ubx_cut (octets (events s3))), take (6 + ?len) ?b # snd (ubx_cut (octets (events s3))))"
          using False body synced(5) ubx.run_Publish [of ?b] s3(5) by (simp add: kUbxMsgHeaderLen_def)
        moreover have "read_loop s = read_loop ?s4"
          using s s1(1) synced(1) run s3(1,4) by (simp add: read_loop.simps [of s] kUbxMsgHeaderLen_def)
        moreover have "reading n ?s4" using s3(2) by (simp add: reading_def)
        ultimately show ?thesis
          using "1.IH" [OF _ s1(1) [symmetric] refl synced(1) [symmetric] refl _ refl
              s3(1) [folded kUbxMsgHeaderLen_def, symmetric] refl,
              unfolded kUbxMsgHeaderLen_def add.assoc, unfolded s3(4)]
            s(2) run False s3(3) by auto
      qed
    qed
  qed
qed

text \<open>
  Claim C19.  The reader cuts the octet stream as \<open>ubx_body\<close> prescribes, however the device hands the
  octets out: the callbacks get the same messages in the same order, and the reader blocks for more,
  unless a message (or the part of it that has arrived) is longer than \<open>data_buf_\<close>.  Then the octets
  behind the buffer's end are written: the announced length is never compared with the size.
\<close>

theorem read_loop_refines:
  assumes "quiet evs" and "6 \<le> n" and "read_loop (serial_init n evs) = (r, s')"
    and "cut_run ubx_body (octets evs) = (rest, ms)"
  shows "r = (if list_all (\<lambda>m. length m \<le> n) ms \<and> length rest \<le> n then Blocked else Overflowed)
    \<and> delivered s' = takeWhile (\<lambda>m. length m \<le> n) ms"
  using assms read_loop_run [of n "serial_init n evs"] by (auto simp add: reading_def serial_init_def)

section \<open>Frames among other octets\<close>

fun no_sync :: "bytes \<Rightarrow> bool" where
  "no_sync (x # y # r) \<longleftrightarrow> \<not> (x = UBX_SYNC_1 \<and> y = UBX_SYNC_2) \<and> no_sync (y # r)"
| "no_sync _ \<longleftrightarrow> True"

lemma no_sync_nth:
  "no_sync g \<Longrightarrow> Suc i < length g \<Longrightarrow> \<not> (byte_at g i = UBX_SYNC_1 \<and> byte_at g (Suc i) = UBX_SYNC_2)"
proof (induction g arbitrary: i rule: no_sync.induct)
  case (1 x y r)
  then show ?case by (cases i) (auto simp del: no_sync.simps simp add: no_sync.simps(1))
qed auto

lemma no_sync_drop: "no_sync g \<Longrightarrow> no_sync (drop k g)"
proof (induction g arbitrary: k rule: no_sync.induct)
  case (1 x y r)
  then show ?case by (cases k) auto
qed (auto simp add: drop_Cons split: nat.splits)

lemma pream_idx_le:
  "j \<le> 4 \<Longrightarrow> byte_at b j = UBX_SYNC_1 \<Longrightarrow> byte_at b (j + 1) = UBX_SYNC_2 \<Longrightarrow> pream_idx b \<le> j"
proof -
  assume j: "j \<le> 4" "byte_at b j = UBX_SYNC_1" "byte_at b (j + 1) = UBX_SYNC_2"
  then have "j = 0 \<or> j = 1 \<or> j = 2 \<or> j = 3 \<or> j = 4" by linarith
  with j(2,3) show ?thesis by (auto simp add: pream_idx_def ubx_ids)
qed

lemma pream_idx_0: "pream_idx b = 0 \<longleftrightarrow> byte_at b 0 = UBX_SYNC_1 \<and> byte_at b 1 = UBX_SYNC_2"
  by (auto simp add: pream_idx_def ubx_ids)

lemma ubx_cut_junk:
  assumes "no_sync g" and "byte_at m 0 = UBX_SYNC_1" and "byte_at m 1 = UBX_SYNC_2" and "8 \<le> length m"
  shows "ubx_cut (g @ m) = ubx_cut m"
  using assms(1)
proof (induction g rule: length_induct)
  case (1 g)
  show ?case
  proof (cases "g = []")
    case False
    let ?b = "g @ m"
    have k0: "pream_idx ?b \<noteq> 0"
    proof (cases "length g = 1")
      case True
      then show ?thesis using assms(2) by (simp add: pream_idx_0 byte_at_append ubx_ids)
    next
      case long: False
      then have "Suc 0 < length g" using False by (cases g) auto
      moreover from this have "byte_at ?b 0 = byte_at g 0" "byte_at ?b 1 = byte_at g 1"
        by (auto simp add: byte_at_append)
      ultimately show ?thesis using no_sync_nth [OF "1.prems", of 0] by (simp add: pream_idx_0)
    qed
    have "pream_idx ?b \<le> length g"
      using pream_idx_pos [OF k0] pream_idx_le [of "length g" ?b] assms(2,3)
      by (cases "length g \<le> 4") (auto simp add: byte_at_append)
    then have "ubx_body ?b = Continue (drop (pream_idx ?b) g @ m)"
      using k0 assms(4) by (simp add: ubx_body_def kUbxMsgHeaderLen_def)
    moreover have "ubx_cut (drop (pream_idx ?b) g @ m) = ubx_cut m"
      using "1.IH" "1.prems" k0 False by (simp add: no_sync_drop)
    ultimately show ?thesis by (simp add: ubx.run_Continue)
  qed simp
qed

lemma ubx_cut_frame:
  assumes "verifyMsg m (length m)"
  shows "ubx_cut (m @ x) = (fst (ubx_cut x), m # snd (ubx_cut x))"
proof -
  have m: "8 \<le> length m" "byte_at m 0 = UBX_SYNC_1" "byte_at m 1 = UBX_SYNC_2"
    "length m = msg_len m + kUbxMsgHeaderLen + 2"
    using assms by (auto simp add: verifyMsg_def msg_len_def split: if_splits)
  have h: "pream_idx (m @ x) = 0" "msg_len (m @ x) = msg_len m"
    using m header_append [of m x] by (auto simp add: pream_idx_0)
  have "kUbxMsgHeaderLen + msg_len m + 2 = length m" using m(4) by simp
  with h m(1) have "ubx_body (m @ x) = Publish m x"
    by (simp add: ubx_body_def kUbxMsgHeaderLen_def)
  then show ?thesis by (rule ubx.run_Publish)
qed

text \<open>What the receiver sends: frames, each behind octets of another protocol.\<close>

definition woven :: "(bytes \<times> bytes) list \<Rightarrow> bytes" where
  "woven gms = concat (map (\<lambda>(g, m). g @ m) gms)"

definition frames_ok :: "nat \<Rightarrow> (bytes \<times> bytes) list \<Rightarrow> bool" where
  "frames_ok n gms = list_all (\<lambda>(g, m). no_sync g \<and> verifyMsg m (length m) \<and> length m \<le> n) gms"

lemma ubx_cut_woven:
  "frames_ok n gms \<Longrightarrow> length tail < 6 \<Longrightarrow> ubx_cut (woven gms @ tail) = (tail, map snd gms)"
proof (induction gms)
  case Nil
  then show ?case by (simp add: woven_def ubx_cut_short)
next
  case (Cons gm gms)
  obtain g m where gm: "gm = (g, m)" by fastforce
  with Cons.prems have f: "no_sync g" "verifyMsg m (length m)" by (simp_all add: frames_ok_def)
  then have h: "8 \<le> length m" "byte_at m 0 = UBX_SYNC_1" "byte_at m 1 = UBX_SYNC_2"
    by (auto simp add: verifyMsg_def split: if_splits)
  let ?m = "m @ woven gms @ tail"
  have "byte_at ?m 0 = UBX_SYNC_1" "byte_at ?m 1 = UBX_SYNC_2" "8 \<le> length ?m"
    using h by (auto simp add: byte_at_append)
  then have "ubx_cut (woven (gm # gms) @ tail) = ubx_cut ?m"
    using ubx_cut_junk [OF f(1), of ?m] by (simp add: woven_def gm)
  with Cons ubx_cut_frame [OF f(2)] show ?case by (simp add: gm frames_ok_def)
qed


text \<open>An acknowledgement, read in pieces behind an NMEA prefix, with retries in between.\<close>

definition stream_evs :: "serial_event list" where
  "stream_evs =
     [In [0x24, 0xB5, 0xB5], Again, In [0x62, 0x05, 0x01, 0x02, 0x00, 0x06], In [0x01, 0x0F, 0x38, 0xB5]]"

definition stream_frame :: bytes where
  "stream_frame = [0xB5, 0x62, 0x05, 0x01, 0x02, 0x00, 0x06, 0x01, 0x0F, 0x38]"


definition greedy_evs :: "serial_event list" where
  "greedy_evs = [In [0xB5, 0x62, 0x01, 0x07, 0x04, 0x00], In [1, 2, 3]]"

lemma greedy_body: "ubx_body (octets greedy_evs) = Return (octets greedy_evs)"
  by code_simp

theorem read_loop_refines_witness: "fst (read_loop (serial_init 8 greedy_evs)) = Overflowed"
  using read_loop_refines [of greedy_evs 8, OF _ _ surjective_pairing ubx.run_Return [OF greedy_body]]
  by (simp add: greedy_evs_def)

end
