(* ===== verification/Serial_Life.thy ===== *)
theory Serial_Life
  imports Serial_Link
begin

text \<open>
  The rest of \<open>SerialHandler\<close>: opening and configuring the port, \<open>write_all\<close>, and the life of the
  reader thread: \<open>startRead\<close>, \<open>stopRead\<close>, the wake pipe they share with every \<open>wait_for_event\<close>, and
  \<open>close\<close>.
\<close>

section \<open>Opening the port\<close>

text \<open>\<open>get_baud_rate\<close>: the rates \<open>termios\<close> has a constant for, named by the rate itself; 0 otherwise.\<close>

definition get_baud_rate :: "nat \<Rightarrow> nat" where
  "get_baud_rate r = (if r \<in> set [9600, 19200, 38400, 57600, 115200, 230400, 460800, 921600] then r else 0)"

text \<open>What the calls of the constructor answer: \<open>tcgetattr\<close>, the two speed calls, \<open>tcsetattr\<close>.\<close>

record port_calls =
  pipe_made :: bool
  port_opened :: bool
  attr_read :: bool
  speed_set :: bool
  attr_written :: bool

definition configure_serial_port :: "port_calls \<Rightarrow> nat \<Rightarrow> bool" where
  "configure_serial_port c baud =
     (if \<not> attr_read c then False
      else if get_baud_rate baud = 0 then False
      else if \<not> speed_set c then False
      else attr_written c)"

text \<open>
  Where the reader thread is: at the loop test, waiting for a header or a payload, between reads,
  waiting while it slides to the preamble, or at its end.
\<close>

datatype reader = NoThread | Looping | Waiting | Handling | Sliding | Exited

record link =
  fd_open :: bool
  pipe_open :: bool
  running :: bool
  shutting_down :: bool
  wake :: nat
  reader_thread :: reader

definition SerialHandler :: "port_calls \<Rightarrow> nat \<Rightarrow> link" where
  "SerialHandler c baud =
     (let l = \<lparr>fd_open = False, pipe_open = pipe_made c, running = False, shutting_down = False,
               wake = 0, reader_thread = NoThread\<rparr> in
      if \<not> pipe_made c then l
      else if \<not> port_opened c then l
      else if \<not> configure_serial_port c baud then l
      else l\<lparr>fd_open := True\<rparr>)"

section \<open>Writing\<close>

text \<open>
  One turn of \<open>write_all\<close>: the device takes some octets, asks for a retry, or the turn ends the call
  (time-out, wake-up, hang-up, error).  When the list is used up, \<open>poll\<close> times out.
\<close>

datatype write_event = Accept nat | Retry | Break

fun write_all :: "bytes \<Rightarrow> write_event list \<Rightarrow> bool \<times> bytes" where
  "write_all [] evs = (True, [])"
| "write_all (d # ds) [] = (False, [])"
| "write_all (d # ds) (Retry # evs) = write_all (d # ds) evs"
| "write_all (d # ds) (Break # evs) = (False, [])"
| "write_all (d # ds) (Accept k # evs) =
     (if k = 0 then (False, [])
      else let (ok, w) = write_all (drop k (d # ds)) evs in (ok, take k (d # ds) @ w))"

lemma write_all_prefix:
  "write_all data evs = (ok, w) \<Longrightarrow> w = take (length w) data \<and> (ok \<longleftrightarrow> w = data)"
proof (induction data evs arbitrary: ok w rule: write_all.induct)
  case (5 d ds k evs)
  show ?case
  proof (cases "k = 0")
    case False
    obtain ok' w' where r: "write_all (drop k (d # ds)) evs = (ok', w')" by fastforce
    with "5.prems" False have w: "w = take k (d # ds) @ w'" "ok = ok'" by auto
    from "5.IH" [OF False r] have ih: "w' = take (length w') (drop k (d # ds))"
      "ok' \<longleftrightarrow> w' = drop k (d # ds)" by auto
    have "w = d # ds \<longleftrightarrow> w' = drop k (d # ds)"
      unfolding w(1) by (metis append_take_drop_id same_append_eq)
    moreover have "take k (d # ds) @ w' = take (length (take k (d # ds) @ w')) (d # ds)"
      using ih(1) by (cases "k \<le> length (d # ds)") (auto simp add: take_add min_def simp del: take_Suc_Cons)
    ultimately show ?thesis using w ih(2) by metis
  qed (use "5.prems" in auto)
qed auto

lemma write_all_at_once: "length data \<le> k \<Longrightarrow> 0 < k \<Longrightarrow> fst (write_all data [Accept k])"
  by (cases data) (simp_all add: split_beta)

section \<open>The reader thread\<close>

definition startRead :: "link \<Rightarrow> link" where
  "startRead l = (if \<not> fd_open l \<or> running l then l else l\<lparr>running := True, reader_thread := Looping\<rparr>)"

text \<open>\<open>stopRead\<close> up to the join: clear the flag, write one octet into the pipe.\<close>

definition wake_reader :: "link \<Rightarrow> link" where
  "wake_reader l = (if pipe_open l then l\<lparr>wake := wake l + 1\<rparr> else l)"

definition stop_signal :: "link \<Rightarrow> link" where
  "stop_signal l = (if running l then wake_reader (l\<lparr>running := False\<rparr>) else l)"

text \<open>
  The outcome of \<open>wait_for_event\<close> for what the device would answer (ready or not): an octet in the
  pipe wins, and is taken out with all others.
\<close>

definition wait_for_event :: "bool \<Rightarrow> link \<Rightarrow> bool \<times> link" where
  "wait_for_event ready l =
     (if \<not> fd_open l then (False, l)
      else if 0 < wake l then (False, l\<lparr>wake := 0\<rparr>)
      else (ready, l))"

text \<open>\<open>close\<close>: the flag and \<open>stopRead\<close>, and, once the reader is joined, the descriptors.\<close>

definition close_call :: "link \<Rightarrow> link" where
  "close_call l = (if shutting_down l then l else stop_signal (l\<lparr>shutting_down := True\<rparr>))"

definition close_fds :: "link \<Rightarrow> link" where
  "close_fds l = l\<lparr>fd_open := False, pipe_open := False, wake := 0\<rparr>"

datatype link_act =
  Start | Signal | Join | CloseCall | CloseFds | Loop | LoopEnd | Resync | Deliver | Woken | DevFail | Write

text \<open>
  The steps of the owner (\<open>Start\<close>, \<open>Signal\<close>, \<open>Join\<close>, \<open>CloseCall\<close>, \<open>CloseFds\<close>, called in turn by one
  thread), of the reader, and of any writer (\<open>Write\<close>, a wait of \<open>write_all\<close>).  A wait of the reader ends
  with data (\<open>Deliver\<close>), with an octet in the pipe (\<open>Woken\<close>) or with a failure (\<open>DevFail\<close>); the last two
  end the loop, except in the resynchronisation, which gives the header up and goes on.
\<close>

inductive link_step :: "link \<Rightarrow> link_act \<Rightarrow> link \<Rightarrow> bool" where
  step_Start: "running l \<or> reader_thread l = NoThread \<Longrightarrow> link_step l Start (startRead l)"
| step_Signal: "link_step l Signal (stop_signal l)"
| step_Join: "\<not> running l \<Longrightarrow> reader_thread l = Exited \<Longrightarrow> link_step l Join (l\<lparr>reader_thread := NoThread\<rparr>)"
| step_CloseCall: "link_step l CloseCall (close_call l)"
| step_CloseFds: "shutting_down l \<Longrightarrow> \<not> running l \<Longrightarrow> reader_thread l = NoThread
    \<Longrightarrow> link_step l CloseFds (close_fds l)"
| step_Loop: "reader_thread l \<in> {Looping, Handling} \<Longrightarrow> running l
    \<Longrightarrow> link_step l Loop (l\<lparr>reader_thread := Waiting\<rparr>)"
| step_LoopEnd: "reader_thread l \<in> {Looping, Handling} \<Longrightarrow> \<not> running l
    \<Longrightarrow> link_step l LoopEnd (l\<lparr>reader_thread := Exited\<rparr>)"
| step_Resync: "reader_thread l = Handling \<Longrightarrow> running l \<Longrightarrow> link_step l Resync (l\<lparr>reader_thread := Sliding\<rparr>)"
| step_Deliver: "reader_thread l \<in> {Waiting, Sliding} \<Longrightarrow> wait_for_event True l = (True, l')
    \<Longrightarrow> link_step l Deliver (l'\<lparr>reader_thread := Handling\<rparr>)"
| step_Woken: "reader_thread l = Waiting \<Longrightarrow> 0 < wake l \<Longrightarrow> wait_for_event r l = (False, l')
    \<Longrightarrow> link_step l Woken (l'\<lparr>reader_thread := Exited\<rparr>)"
| step_Woken_sliding: "reader_thread l = Sliding \<Longrightarrow> 0 < wake l \<Longrightarrow> wait_for_event r l = (False, l')
    \<Longrightarrow> link_step l Woken (l'\<lparr>reader_thread := Handling\<rparr>)"
| step_DevFail: "reader_thread l = Waiting \<Longrightarrow> wake l = 0 \<Longrightarrow> wait_for_event False l = (False, l')
    \<Longrightarrow> link_step l DevFail (l'\<lparr>reader_thread := Exited\<rparr>)"
| step_DevFail_sliding: "reader_thread l = Sliding \<Longrightarrow> wake l = 0 \<Longrightarrow> wait_for_event False l = (False, l')
    \<Longrightarrow> link_step l DevFail (l'\<lparr>reader_thread := Handling\<rparr>)"
| step_Write: "wait_for_event r l = (ok, l') \<Longrightarrow> link_step l Write l'"

inductive_cases link_step_E: "link_step l a l'"

inductive link_run :: "link \<Rightarrow> link_act list \<Rightarrow> link \<Rightarrow> bool" where
  run_Nil: "link_run l [] l"
| run_snoc: "link_run l acts l1 \<Longrightarrow> link_step l1 a l2 \<Longrightarrow> link_run l (acts @ [a]) l2"

lemmas link_ops = startRead_def stop_signal_def wake_reader_def wait_for_event_def close_call_def close_fds_def

inductive_cases run_NilE: "link_run l [] l'"
inductive_cases run_snocE: "link_run l (acts @ [a]) l'"

lemma link_run_append: "link_run l1 bs l2 \<Longrightarrow> link_run l as l1 \<Longrightarrow> link_run l (as @ bs) l2"
  by (induction rule: link_run.induct) (auto intro: run_snoc simp flip: append_assoc)

definition opened :: link where
  "opened = \<lparr>fd_open = True, pipe_open = True, running = False, shutting_down = False, wake = 0,
             reader_thread = NoThread\<rparr>"

lemma SerialHandler_opened:
  "fd_open (SerialHandler c baud) \<Longrightarrow> SerialHandler c baud = opened"
  by (auto simp add: SerialHandler_def opened_def Let_def split: if_splits)

text \<open>The run of a list of steps that each have one outcome.\<close>

lemma link_run_Cons: "link_run l (a # acts) l' \<longleftrightarrow> (\<exists>l1. link_step l a l1 \<and> link_run l1 acts l')"
proof
  show "link_run l (a # acts) l' \<Longrightarrow> \<exists>l1. link_step l a l1 \<and> link_run l1 acts l'"
  proof (induction acts arbitrary: l' rule: rev_induct)
    case Nil
    then show ?case using run_snocE [of l "[]" a l'] by (auto intro: run_Nil elim: run_NilE)
  next
    case (snoc b acts)
    then show ?case using run_snocE [of l "a # acts" b l'] by (metis append_Cons run_snoc)
  qed
  show "\<exists>l1. link_step l a l1 \<and> link_run l1 acts l' \<Longrightarrow> link_run l (a # acts) l'"
    using link_run_append [where as = "[a]"] run_snoc [OF run_Nil] by fastforce
qed

lemma link_run_Nil: "link_run l [] l' \<longleftrightarrow> l' = l"
  by (auto intro: run_Nil elim: run_NilE)

inductive_simps link_step_simps:
  "link_step l Start l'" "link_step l Signal l'" "link_step l Join l'" "link_step l Loop l'"
  "link_step l LoopEnd l'" "link_step l Deliver l'" "link_step l Woken l'" "link_step l Write l'"

lemmas link_run_simps = link_run_Cons link_run_Nil link_step_simps

section \<open>Stopping\<close>

text \<open>A cleared flag is accompanied by an octet in the pipe for as long as the reader waits.\<close>

definition stop_inv :: "link \<Rightarrow> bool" where
  "stop_inv l \<longleftrightarrow> (pipe_open l \<longleftrightarrow> fd_open l)
     \<and> (reader_thread l \<in> {Looping, Waiting, Handling, Sliding} \<longrightarrow> fd_open l)
     \<and> (reader_thread l \<in> {Waiting, Sliding} \<and> \<not> running l \<longrightarrow> 0 < wake l)
     \<and> (running l \<longrightarrow> reader_thread l \<noteq> NoThread)"

lemma stop_inv_step: "link_step l a l' \<Longrightarrow> a \<noteq> Write \<Longrightarrow> stop_inv l \<Longrightarrow> stop_inv l'"
  by (erule link_step_E) (auto simp add: stop_inv_def link_ops split: if_splits)

lemma stop_inv_run: "link_run l acts l' \<Longrightarrow> Write \<notin> set acts \<Longrightarrow> stop_inv l \<Longrightarrow> stop_inv l'"
  by (induction rule: link_run.induct) (auto intro: stop_inv_step)

lemma stop_inv_opened: "stop_inv opened"
  by (simp add: stop_inv_def opened_def)

text \<open>
  Claim C21.  \<open>stopRead\<close> returns without the device's help: whatever start, stop and read steps came
  before, once the flag is cleared a reader that has not ended can leave its loop in at most two steps
  of its own (it finds the octet in the pipe, or the flag), and then the join succeeds, provided no write
  waited on the same pipe.
\<close>

theorem stop_reaches_join:
  assumes "link_run opened acts l" and "Write \<notin> set acts" and "\<not> running l" and "reader_thread l \<noteq> NoThread"
  shows "\<exists>acts' l'. set acts' \<subseteq> {Woken, LoopEnd} \<and> length acts' \<le> 2 \<and> link_run l acts' l'
    \<and> reader_thread l' = Exited \<and> link_step l' Join (l'\<lparr>reader_thread := NoThread\<rparr>)"
proof -
  have inv: "stop_inv l"
    using stop_inv_run [OF assms(1,2) stop_inv_opened] .
  have join: "link_step x Join (x\<lparr>reader_thread := NoThread\<rparr>)" if "\<not> running x" "reader_thread x = Exited" for x
    using that by (rule step_Join)
  note one = run_snoc [OF run_Nil]
  show ?thesis
  proof (cases "reader_thread l")
    case Exited
    then show ?thesis
      using assms(3) join by (intro exI [of _ "[]"] exI [of _ l]) (simp add: run_Nil)
  next
    case Waiting
    then have w: "wait_for_event True l = (False, l\<lparr>wake := 0\<rparr>)" "0 < wake l"
      using inv assms(3) by (auto simp add: stop_inv_def wait_for_event_def)
    show ?thesis
      using one [OF step_Woken [OF Waiting w(2,1)]] assms(3)
      by (intro exI [of _ "[Woken]"] exI conjI) (auto intro: join)
  next
    case Sliding
    then have w: "wait_for_event True l = (False, l\<lparr>wake := 0\<rparr>)" "0 < wake l"
      using inv assms(3) by (auto simp add: stop_inv_def wait_for_event_def)
    let ?l = "l\<lparr>wake := 0, reader_thread := Handling\<rparr>"
    have "link_run l [Woken, LoopEnd] (?l\<lparr>reader_thread := Exited\<rparr>)"
      using run_snoc [OF one [OF step_Woken_sliding [OF Sliding w(2,1)]] step_LoopEnd] assms(3) by simp
    then show ?thesis
      using assms(3) by (intro exI [of _ "[Woken, LoopEnd]"] exI conjI) (auto intro: join)
  qed (use one [OF step_LoopEnd [of l]] assms(3,4) in \<open>auto intro!: exI [of _ "[LoopEnd]"] exI [of _ "l\<lparr>reader_thread := Exited\<rparr>"] join\<close>)
qed

theorem stop_reaches_join_witness:
  "\<exists>acts l. set acts \<subseteq> {Woken, LoopEnd} \<and> length acts \<le> 2
    \<and> link_run (opened\<lparr>wake := 1, reader_thread := Waiting\<rparr>) acts l \<and> reader_thread l = Exited"
proof -
  have "link_run opened [Start, Loop, Signal] (opened\<lparr>wake := 1, reader_thread := Waiting\<rparr>)"
    by (simp add: link_run_simps opened_def link_ops)
  from stop_reaches_join [OF this] show ?thesis by (auto simp add: opened_def)
qed

section \<open>The octet left in the pipe\<close>

text \<open>
  What the configuration at start-up does when the acknowledgement arrives in time: the main thread calls
  \<open>stopRead\<close> while the reader is in the callback, the reader sees the flag and leaves without looking at the pipe.
\<close>

definition startup_acts :: "link_act list" where
  "startup_acts = [Start, Loop, Deliver, Signal, LoopEnd, Join, Start, Loop, Woken]"

definition deaf :: "link \<Rightarrow> bool" where
  "deaf l \<longleftrightarrow> reader_thread l = Exited \<and> running l"

lemma deaf_step: "link_step l a l' \<Longrightarrow> a \<notin> {Signal, CloseCall} \<Longrightarrow> deaf l \<Longrightarrow> deaf l' \<and> a \<noteq> Deliver"
  by (erule link_step_E) (auto simp add: deaf_def link_ops split: if_splits)

lemma deaf_run:
  "link_run l acts l' \<Longrightarrow> Signal \<notin> set acts \<Longrightarrow> CloseCall \<notin> set acts \<Longrightarrow> deaf l \<Longrightarrow> deaf l' \<and> Deliver \<notin> set acts"
  by (induction rule: link_run.induct) (auto dest: deaf_step)

text \<open>
  Claim C22.  The octet that \<open>stopRead\<close> wrote stays in the pipe when the reader leaves at the loop test,
  and the reader of the next \<open>startRead\<close> takes it for its own: it ends at its first wait, without any
  failure of the device, while the flag says it runs, so that no \<open>startRead\<close> revives it and nothing is
  ever read until the next \<open>stopRead\<close>, whatever else happens.
\<close>

theorem stale_wake_kills_reader:
  assumes "link_run opened startup_acts l"
  shows "reader_thread l = Exited \<and> running l
    \<and> (Signal \<notin> set acts \<longrightarrow> CloseCall \<notin> set acts \<longrightarrow> link_run l acts l'
        \<longrightarrow> Deliver \<notin> set acts \<and> reader_thread l' = Exited)"
proof -
  have "deaf l"
    using assms by (auto simp add: startup_acts_def link_run_simps opened_def deaf_def link_ops)
  then show ?thesis using deaf_run [of l acts l'] by (auto simp add: deaf_def)
qed

theorem stale_wake_kills_reader_witness:
  "\<exists>l. link_run opened startup_acts l \<and> startRead l = l \<and> reader_thread l = Exited"
proof -
  let ?l = "opened\<lparr>running := True, reader_thread := Exited\<rparr>"
  have run: "link_run opened startup_acts ?l"
    by (simp add: startup_acts_def link_run_simps opened_def link_ops)
  show ?thesis
    using stale_wake_kills_reader [OF run] run by (auto simp add: startRead_def)
qed

section \<open>The wake-up that a writer takes\<close>

text \<open>
  A write that waits between \<open>stopRead\<close>'s signal and the reader's wake-up drains the pipe: the reader
  stays in \<open>poll\<close>, and only the device can move it.
\<close>

lemma stolen_wake:
  assumes "link_run opened [Start, Loop, Signal, Write] l"
    and "link_step l a l'" and "a \<noteq> Write"
  shows "reader_thread l = Waiting \<and> \<not> running l \<and> (reader_thread l' \<noteq> Waiting \<longrightarrow> a \<in> {Deliver, DevFail})"
proof -
  have l: "l = opened\<lparr>reader_thread := Waiting\<rparr>"
    using assms(1) by (auto simp add: link_run_simps opened_def link_ops)
  with assms(2,3) show ?thesis
    by (auto simp add: opened_def link_ops elim!: link_step_E)
qed

end
