(* ===== verification/Driver_Startup.thy ===== *)
theory Driver_Startup
  imports Params Serial_Life
begin

text \<open>
  The start of \<open>GNSSDriverManager\<close> (\<open>ublox_driver.cpp\<close>): \<open>setupSerialPipeline\<close> with the configuration of the
  receiver, \<open>configureReceiverAtStartup\<close>, which sends one message and waits for its acknowledgement.
\<close>

section \<open>The state\<close>

text \<open>What the serial reader calls with each message.\<close>

datatype serial_callback = Ack_handler | Message_parser

record driver =
  params :: UbloxDriverParams
  serial_handler :: "link option"
  serial_callbacks :: "serial_callback list"
  ack_flag :: int
  serial_written :: bytes

definition kReceiverConfigBufferCapacity :: nat where "kReceiverConfigBufferCapacity = 8192"

text \<open>Times are nanoseconds of the steady clock.\<close>

definition kReceiverConfigAckTimeout :: int where "kReceiverConfigAckTimeout = 3 * 10 ^ 9"

section \<open>What the start meets\<close>

text \<open>
  Before each test of the waiting loop the reader has handled some more messages (the mutex is free during
  \<open>wait_for\<close>); the test reads \<open>rclcpp::ok()\<close> and the clock.
\<close>

record ack_turn =
  handled :: "bytes list"
  ros_ok :: bool
  clock :: int

text \<open>
  The answers of the port's calls and of the device while the command is written; the messages the reader
  hands over before the loop, at each turn of it, and between the loop and the join; the clock when the
  deadline is set; and whether the reader, told to stop, left at a wait (and drained the pipe) or at its loop test.
\<close>

record startup_env =
  startup_port :: port_calls
  command_write :: "write_event list"
  early :: "bytes list"
  turns :: "nat \<Rightarrow> ack_turn"
  late :: "bytes list"
  started_at :: int
  left_at_wait :: bool

section \<open>Waiting for the acknowledgement\<close>

definition handleConfigAck :: "int \<Rightarrow> bytes \<Rightarrow> int" where
  "handleConfigAck flag data =
     (let ack_result = check_ack data (length data) in if ack_result = 0 then flag else ack_result)"

partial_function (option) await_ack :: "(nat \<Rightarrow> ack_turn) \<Rightarrow> int \<Rightarrow> nat \<Rightarrow> int \<Rightarrow> int option" where
  "await_ack ts deadline i flag0 =
     (let flag = foldl handleConfigAck flag0 (handled (ts i)) in
      if flag = 0 \<and> ros_ok (ts i) \<and> clock (ts i) < deadline then await_ack ts deadline (Suc i) flag
      else Some flag)"

text \<open>\<open>stopRead\<close> together with its join.\<close>

definition stopRead :: "bool \<Rightarrow> link \<Rightarrow> link" where
  "stopRead at_wait l =
     (if \<not> running l then l
      else let l1 = stop_signal l in
        l1\<lparr>reader_thread := NoThread, wake := (if at_wait then 0 else wake l1)\<rparr>)"

text \<open>An exception of \<open>build_config_msg\<close> leaves the constructor; \<open>None\<close> is a wait that never ends.\<close>

definition configureReceiverAtStartup :: "startup_env \<Rightarrow> driver \<Rightarrow> (config_error + bool \<times> driver) option" where
  "configureReceiverAtStartup env d =
     (case serial_handler d of
        None \<Rightarrow> Some (Inr (False, d))
      | Some l \<Rightarrow>
      if \<not> fd_open l then Some (Inr (False, d))
      else if receiver_configs (params d) = [] then Some (Inr (True, d))
      else case build_config_msg (receiver_configs (params d)) (replicate kReceiverConfigBufferCapacity 0) of
        Inl e \<Rightarrow> if e = Refused then Some (Inr (False, d)) else Some (Inl e)
      | Inr (buffer, n) \<Rightarrow>
      let l1 = startRead l;
          (ok, w) = write_all (take n buffer) (command_write env);
          flag1 = foldl handleConfigAck 0 (early env);
          d1 = d\<lparr>serial_handler := Some (stopRead (left_at_wait env) l1), serial_callbacks := [],
                 serial_written := serial_written d @ w\<rparr>
      in if \<not> ok then Some (Inr (False, d1\<lparr>ack_flag := foldl handleConfigAck flag1 (late env)\<rparr>))
      else case await_ack (turns env) (started_at env + kReceiverConfigAckTimeout) 0 flag1 of
        None \<Rightarrow> None
      | Some flag \<Rightarrow>
          let final = foldl handleConfigAck flag (late env) in
          Some (Inr (final = 1, d1\<lparr>ack_flag := final\<rparr>)))"

definition setupSerialPipeline :: "startup_env \<Rightarrow> driver \<Rightarrow> (config_error + driver) option" where
  "setupSerialPipeline env d =
     (if \<not> enable_serial (params d) then Some (Inr d)
      else let l = SerialHandler (startup_port env) (nat (serial_baud_rate (params d) mod 2 ^ 32));
               d1 = d\<lparr>serial_handler := Some l\<rparr>
      in if \<not> fd_open l then Some (Inr d1)
      else case (if enable_config_bring (params d) then configureReceiverAtStartup env d1 else Some (Inr (True, d1))) of
        None \<Rightarrow> None
      | Some (Inl e) \<Rightarrow> Some (Inl e)
      | Some (Inr (ok, d2)) \<Rightarrow>
          Some (Inr (d2\<lparr>serial_callbacks := serial_callbacks d2 @ [Message_parser],
                        serial_handler := map_option startRead (serial_handler d2)\<rparr>)))"

text \<open>\<open>stopRead\<close> is a run of the reader's steps: it is woken at its wait, or leaves at the loop test.\<close>

lemma stopRead_run:
  assumes "running l" and "fd_open l" and "pipe_open l"
  shows "reader_thread l = Waiting \<Longrightarrow> link_run l [Signal, Woken, Join] (stopRead True l)"
    and "reader_thread l = Handling \<Longrightarrow> link_run l [Signal, LoopEnd, Join] (stopRead False l)"
  using assms by (auto simp add: link_run_simps stopRead_def link_ops Let_def)

section \<open>The wait ends\<close>

definition answers :: "bytes list \<Rightarrow> int" where
  "answers msgs = foldl handleConfigAck 0 msgs"

definition deadline :: "startup_env \<Rightarrow> int" where
  "deadline env = started_at env + kReceiverConfigAckTimeout"

text \<open>The messages handled before the test of turn \<open>i\<close>, and what makes that test succeed.\<close>

definition handled_by :: "startup_env \<Rightarrow> nat \<Rightarrow> bytes list" where
  "handled_by env i = early env @ concat (map (\<lambda>j. handled (turns env j)) [0..<Suc i])"

definition go_on :: "startup_env \<Rightarrow> nat \<Rightarrow> bool" where
  "go_on env i \<longleftrightarrow> answers (handled_by env i) = 0 \<and> ros_ok (turns env i) \<and> clock (turns env i) < deadline env"

text \<open>The turn that ends the loop.\<close>

definition last_turn :: "startup_env \<Rightarrow> nat \<Rightarrow> bool" where
  "last_turn env k \<longleftrightarrow> \<not> go_on env k \<and> (\<forall>j < k. go_on env j)"

lemma answers_append: "foldl handleConfigAck (answers ms) ns = answers (ms @ ns)"
  by (simp add: answers_def)

lemma handled_by_Suc: "handled_by env (Suc i) = handled_by env i @ handled (turns env (Suc i))"
  by (simp add: handled_by_def)

lemma await_ack_run:
  assumes "last_turn env k" and "i \<le> k"
    and "foldl handleConfigAck flag (handled (turns env i)) = answers (handled_by env i)"
  shows "await_ack (turns env) (deadline env) i flag = Some (answers (handled_by env k))"
  using assms(2,3)
proof (induction "k - i" arbitrary: i flag)
  case 0
  then have "\<not> go_on env i" using assms(1) by (simp add: last_turn_def)
  with 0 show ?case by (auto simp add: await_ack.simps [of _ _ i] go_on_def Let_def)
next
  case (Suc n)
  then have "i < k" by simp
  then have g: "go_on env i" using assms(1) by (simp add: last_turn_def)
  have "await_ack (turns env) (deadline env) i flag
      = await_ack (turns env) (deadline env) (Suc i) (answers (handled_by env i))"
    using g Suc.prems(2) by (simp add: await_ack.simps [of _ _ i] go_on_def Let_def)
  also have "\<dots> = Some (answers (handled_by env k))"
    using Suc.hyps(2) \<open>i < k\<close> by (intro Suc.hyps(1)) (simp_all add: answers_append handled_by_Suc)
  finally show ?case .
qed

lemma clock_advances:
  assumes "\<forall>i. clock (ts i) < clock (ts (Suc i))"
  shows "clock (ts 0) + int i \<le> clock (ts i)"
proof (induction i)
  case (Suc i)
  have "clock (ts i) < clock (ts (Suc i))" using assms by blast
  with Suc show ?case by simp
qed simp

text \<open>A clock that moves ends the loop by the deadline.\<close>

lemma last_turn_exists:
  assumes "\<forall>i. clock (turns env i) < clock (turns env (Suc i))"
  shows "\<exists>k \<le> nat (deadline env - clock (turns env 0)). last_turn env k"
proof -
  let ?n = "nat (deadline env - clock (turns env 0))"
  have "deadline env \<le> clock (turns env ?n)"
    using clock_advances [OF assms, of ?n] by (simp split: if_splits)
  then have stop: "\<not> go_on env ?n" by (simp add: go_on_def)
  define k where "k = (LEAST k. \<not> go_on env k)"
  have "\<not> go_on env k" unfolding k_def by (rule LeastI) (rule stop)
  moreover have "k \<le> ?n" unfolding k_def by (rule Least_le) (rule stop)
  moreover have "go_on env j" if "j < k" for j
    using not_less_Least [of j "\<lambda>k. \<not> go_on env k"] that by (auto simp add: k_def)
  ultimately show ?thesis by (auto simp add: last_turn_def)
qed

lemma await_ack_returns:
  assumes "last_turn env k"
  shows "await_ack (turns env) (deadline env) 0 (answers (early env)) = Some (answers (handled_by env k))"
  by (rule await_ack_run [OF assms]) (simp_all add: answers_append handled_by_def)

section \<open>The outcome\<close>

definition config_frame :: "driver \<Rightarrow> config_error + bytes \<times> nat" where
  "config_frame d = build_config_msg (receiver_configs (params d)) (replicate kReceiverConfigBufferCapacity 0)"

lemma configure_waits:
  assumes "serial_handler d = Some l" and "fd_open l" and "receiver_configs (params d) \<noteq> []"
    and "config_frame d = Inr (buffer, n)" and "write_all (take n buffer) (command_write env) = (ok, w)"
    and "last_turn env k"
  shows "configureReceiverAtStartup env d =
    (let reply = answers ((if ok then handled_by env k else early env) @ late env) in
     Some (Inr (ok \<and> reply = 1,
       d\<lparr>serial_handler := Some (stopRead (left_at_wait env) (startRead l)), serial_callbacks := [],
         serial_written := serial_written d @ w, ack_flag := reply\<rparr>)))"
  using assms await_ack_returns [OF assms(6)]
  by (simp add: configureReceiverAtStartup_def config_frame_def Let_def answers_append flip: answers_def deadline_def)

lemma stopRead_startRead:
  assumes "fd_open l" and "pipe_open l" and "\<not> running l" and "wake l = 0"
  shows "stopRead at_wait (startRead l)
    = l\<lparr>running := False, reader_thread := NoThread, wake := (if at_wait then 0 else 1)\<rparr>"
  using assms by (simp add: stopRead_def link_ops Let_def)

text \<open>What the pipeline leaves behind, whether or not a configuration was tried and whatever came of it.\<close>

lemma configure_leaves:
  assumes "\<forall>i. clock (turns env i) < clock (turns env (Suc i))"
    and "serial_handler d = Some opened" and "serial_callbacks d = []"
  shows "(\<exists>e. e \<noteq> Refused \<and> config_frame d = Inl e \<and> configureReceiverAtStartup env d = Some (Inl e))
    \<or> (\<exists>ok d'. configureReceiverAtStartup env d = Some (Inr (ok, d')) \<and> params d' = params d \<and> serial_callbacks d' = []
        \<and> (serial_handler d' = Some opened \<or> serial_handler d' = Some (opened\<lparr>wake := (if left_at_wait env then 0 else 1)\<rparr>)))"
proof -
  obtain k where k: "last_turn env k" using last_turn_exists [OF assms(1)] by blast
  have o: "fd_open opened" "pipe_open opened" "\<not> running opened" "wake opened = 0"
    "opened\<lparr>running := False, reader_thread := NoThread\<rparr> = opened"
    by (simp_all add: opened_def)
  show ?thesis
  proof (cases "receiver_configs (params d) = []")
    case True
    with assms(2,3) o show ?thesis by (auto simp add: configureReceiverAtStartup_def)
  next
    case some: False
    show ?thesis
    proof (cases "config_frame d")
      case (Inl e)
      with assms(2,3) o some show ?thesis
        by (cases "e = Refused") (auto simp add: configureReceiverAtStartup_def config_frame_def)
    next
      case (Inr bn)
      obtain buffer n where bn: "bn = (buffer, n)" by fastforce
      obtain ok w where w: "write_all (take n buffer) (command_write env) = (ok, w)" by fastforce
      have "stopRead (left_at_wait env) (startRead opened) = opened\<lparr>wake := (if left_at_wait env then 0 else 1)\<rparr>"
        using stopRead_startRead [OF o(1-4)] by (simp add: opened_def)
      with configure_waits [OF assms(2) o(1) some Inr [unfolded bn] w k] show ?thesis
        by (simp add: Let_def)
    qed
  qed
qed


section \<open>The acknowledgement\<close>

text \<open>The last message that answers decides.\<close>

definition acknowledged :: "bytes list \<Rightarrow> bool" where
  "acknowledged msgs \<longleftrightarrow> (\<exists>pre m post. msgs = pre @ m # post \<and> check_ack m (length m) = 1
     \<and> (\<forall>x \<in> set post. check_ack x (length x) = 0))"

lemma answers_acknowledged: "answers msgs = 1 \<longleftrightarrow> acknowledged msgs"
proof (induction msgs rule: rev_induct)
  case Nil
  then show ?case by (simp add: answers_def acknowledged_def)
next
  case (snoc m msgs)
  show ?case
  proof (cases "check_ack m (length m) = 0")
    case True
    then have "answers (msgs @ [m]) = answers msgs" by (simp add: answers_def handleConfigAck_def)
    moreover have "acknowledged (msgs @ [m]) \<longleftrightarrow> acknowledged msgs"
    proof
      assume "acknowledged (msgs @ [m])"
      then obtain pre x post where *: "msgs @ [m] = pre @ x # post" "check_ack x (length x) = 1"
        "\<forall>y \<in> set post. check_ack y (length y) = 0" by (auto simp add: acknowledged_def)
      with True have "post \<noteq> []" by auto
      then obtain post' where "post = post' @ [m]" "msgs = pre @ x # post'"
        using *(1) by (cases post rule: rev_cases) auto
      with * show "acknowledged msgs" unfolding acknowledged_def by auto
    next
      assume "acknowledged msgs"
      with True show "acknowledged (msgs @ [m])"
        unfolding acknowledged_def by (elim exE conjE) (rule exI, rule exI, rule_tac x = "post @ [m]" in exI, auto)
    qed
    ultimately show ?thesis using snoc by simp
  next
    case False
    then have "answers (msgs @ [m]) = check_ack m (length m)"
      by (simp add: answers_def handleConfigAck_def Let_def)
    moreover have "acknowledged (msgs @ [m]) \<longleftrightarrow> check_ack m (length m) = 1"
      using False unfolding acknowledged_def
      by (auto simp add: append_eq_append_conv2 append_eq_Cons_conv Cons_eq_append_conv) force+
    ultimately show ?thesis by simp
  qed
qed

text \<open>
  Claim C31.  When a configuration is sent, the call ends with the turn that saw an answer, a shutdown or the
  deadline, at most as many turns on as the clock had nanoseconds left; the whole frame was written; no callback is
  left and the reader is joined; and it reports success exactly when the last answer among the messages handled
  until then was an acknowledgement.
\<close>

theorem startup_acknowledged:
  assumes "\<forall>i. clock (turns env i) < clock (turns env (Suc i))"
    and "serial_handler d = Some opened" and "receiver_configs (params d) \<noteq> []"
    and "config_frame d = Inr (buffer, n)" and "fst (write_all (take n buffer) (command_write env))"
  shows "\<exists>k d' l. k \<le> nat (deadline env - clock (turns env 0)) \<and> last_turn env k
    \<and> configureReceiverAtStartup env d = Some (Inr (acknowledged (handled_by env k @ late env), d'))
    \<and> serial_written d' = serial_written d @ take n buffer
    \<and> serial_callbacks d' = [] \<and> serial_handler d' = Some l \<and> \<not> running l \<and> reader_thread l = NoThread"
proof -
  obtain k where k: "k \<le> nat (deadline env - clock (turns env 0))" "last_turn env k"
    using last_turn_exists [OF assms(1)] by blast
  obtain w where w: "write_all (take n buffer) (command_write env) = (True, w)"
    using assms(5) by (cases "write_all (take n buffer) (command_write env)") simp
  then have "w = take n buffer" using write_all_prefix by blast
  moreover have "fd_open opened" "pipe_open opened" "\<not> running opened" "wake opened = 0"
    by (simp_all add: opened_def)
  moreover from this have "\<not> running (stopRead a (startRead opened))"
    "reader_thread (stopRead a (startRead opened)) = NoThread" for a
    by (simp_all add: stopRead_startRead)
  ultimately show ?thesis
    using configure_waits [OF assms(2) _ assms(3,4) w k(2)] k
    by (rule_tac exI [of _ k], rule_tac exI, rule_tac exI [of _ "stopRead (left_at_wait env) (startRead opened)"])
      (auto simp add: Let_def answers_acknowledged)
qed

section \<open>A start\<close>

definition demo_driver :: driver where
  "demo_driver =
     \<lparr>params = default_params\<lparr>receiver_configs := demo_configs, enable_config_bring := True\<rparr>,
      serial_handler = Some opened, serial_callbacks = [], ack_flag = 0, serial_written = []\<rparr>"

text \<open>The device takes the command and acknowledges at once.\<close>

definition demo_env :: startup_env where
  "demo_env =
     \<lparr>startup_port = \<lparr>pipe_made = True, port_opened = True, attr_read = True, speed_set = True, attr_written = True\<rparr>,
      command_write = [Accept 8192], early = [ack_frame],
      turns = (\<lambda>i. \<lparr>handled = [], ros_ok = True, clock = int i * 100000000\<rparr>), late = [],
      started_at = 0, left_at_wait = True\<rparr>"

lemma demo_clock: "\<forall>i. clock (turns demo_env i) < clock (turns demo_env (Suc i))"
  by (simp add: demo_env_def)

lemma demo_frame: "\<exists>b. config_frame demo_driver = Inr (b, 23)"
  using build_config_msg_valid [OF demo_items, of "replicate kReceiverConfigBufferCapacity 0"]
  by (auto simp add: config_frame_def demo_driver_def kReceiverConfigBufferCapacity_def encode_items_def le32_bytes_def)

theorem startup_acknowledged_witness:
  "\<exists>d'. configureReceiverAtStartup demo_env demo_driver = Some (Inr (True, d'))"
proof -
  obtain b where b: "config_frame demo_driver = Inr (b, 23)" using demo_frame by blast
  have "length ack_frame = 10" by (simp add: ack_frame_def)
  moreover have "check_ack ack_frame 10 = 1"
    using check_ack_spec [of 10 ack_frame "[]"] ack_frame_ok by (simp add: ack_frame_def)
  ultimately have "acknowledged (handled_by demo_env k @ late demo_env)" for k
    by (auto simp add: acknowledged_def handled_by_def demo_env_def intro: exI [of _ "[]"])
  moreover have "fst (write_all (take 23 b) (command_write demo_env))"
    by (simp add: demo_env_def write_all_at_once)
  moreover have "serial_handler demo_driver = Some opened" "receiver_configs (params demo_driver) \<noteq> []"
    by (simp_all add: demo_driver_def demo_configs_def)
  ultimately show ?thesis
    using startup_acknowledged [OF demo_clock _ _ b] by auto
qed


end
