(* ===== verification/Ubx_Safety.thy ===== *)
theory Ubx_Safety
  imports Ubx_Processor
begin

text \<open>
  Properties of the whole message processor: what its state keeps over any sequence of messages, what
  it can publish, when it crashes, and which octets it reads.
\<close>

section \<open>The satellite of an ephemeris\<close>

named_theorems eph_sat_simps \<open>decoding never renames the satellite\<close>

lemma gps_sat [eph_sat_simps]: "eph_sat (snd (snd (decode_GPS_subframe st msg len e))) = eph_sat e"
  by (simp add: decode_GPS_subframe_def decode_GPS_ephem_def gps_subframe1_def gps_subframe2_def
      gps_subframe3_def gps_handover_def Let_def split_beta split: option.split)

lemma bds_d1_sat [eph_sat_simps]: "eph_sat (fst (snd (decode_BDS_D1_ephem b now e iono))) = eph_sat e"
  by (simp add: decode_BDS_D1_ephem_def bds_d1_subframe1_def bds_d1_subframe2_def bds_d1_subframe3_def
      bds_d1_times_def Let_def split_beta)

lemma bds_d2_sat [eph_sat_simps]: "eph_sat (fst (snd (decode_BDS_D2_ephem b now e))) = eph_sat e"
  by (simp add: decode_BDS_D2_ephem_def bds_d2_pages_def bds_d2_merged_def bds_d2_times_def Let_def split_beta)

lemma bds_sat [eph_sat_simps]: "eph_sat (fst (snd (snd (decode_BDS_subframe st msg len e iono)))) = eph_sat e"
  by (simp add: decode_BDS_subframe_def bds_d1_branch_def bds_d2_branch_def Let_def split_beta eph_sat_simps)

lemma gal_sat [eph_sat_simps]: "eph_sat (snd (snd (decode_GAL_subframe st msg len e))) = eph_sat e"
  by (simp add: decode_GAL_subframe_def decode_GAL_ephem_def gal_fields_def gal_times_def Let_def split_beta)

section \<open>The buffers\<close>

named_theorems inv_intros \<open>every decoder keeps the buffers\<close>

lemma gps_inv [inv_intros]:
  assumes "ubx_inv st" and "eph_sat e \<noteq> 0" and "eph_sat e \<le> MAX_SAT"
  shows "ubx_inv (fst (snd (decode_GPS_subframe st msg len e)))"
proof (cases "gps_accepted msg len")
  case True
  from gps_stored_inv [OF assms] decode_GPS_subframe_state [OF True, of st e] show ?thesis by auto
next
  case False
  with assms show ?thesis by (simp add: decode_GPS_subframe_rejected)
qed

lemma bds_d1_branch_inv:
  assumes "ubx_inv st" and "eph_sat e \<noteq> 0" and "eph_sat e \<le> MAX_SAT"
  shows "ubx_inv (fst (snd (bds_d1_branch st msg e iono)))"
  using assms
  by (simp add: bds_d1_branch_def Let_def split_beta ubx_inv_row sat_row_set_row row_len_def del: push_bit_of_1)

lemma bds_d2_branch_inv:
  assumes "ubx_inv st" and "eph_sat e \<noteq> 0" and "eph_sat e \<le> MAX_SAT"
  shows "ubx_inv (fst (snd (bds_d2_branch st msg e)))"
  using assms by (simp add: bds_d2_branch_def Let_def split_beta ubx_inv_row)

lemma bds_inv [inv_intros]:
  assumes "ubx_inv st" and "eph_sat e \<noteq> 0" and "eph_sat e \<le> MAX_SAT"
  shows "ubx_inv (fst (snd (decode_BDS_subframe st msg len e iono)))"
  using assms bds_d1_branch_inv [OF assms] bds_d2_branch_inv [OF assms]
  by (simp add: decode_BDS_subframe_def Let_def split_beta)

lemma gal_inv [inv_intros]:
  assumes "ubx_inv st" and "eph_sat e \<noteq> 0" and "eph_sat e \<le> MAX_SAT"
  shows "ubx_inv (fst (snd (decode_GAL_subframe st msg len e)))"
proof (cases "gal_accepted msg len")
  case True
  then have "gal_type msg \<le> 6" by (simp add: gal_accepted_def gal_type_def Let_def)
  with assms show ?thesis
    by (simp add: decode_GAL_subframe_accepted [OF True] Let_def split_beta ubx_inv_row
        length_decode_GAL_row [OF _ quad_eq])
next
  case False
  with decode_GAL_subframe_rejected [OF False, of st e] assms show ?thesis by auto
qed

lemma meas_inv [inv_intros]: "ubx_inv st \<Longrightarrow> ubx_inv (snd (parse_meas_msg st msg len))"
  using parse_meas_msg_frame [of st msg len] by (simp add: ubx_inv_def)

section \<open>Navigation messages\<close>

text \<open>The only crash: a GLONASS subframe with a full string.\<close>

definition glo_subframe :: "bytes \<Rightarrow> nat \<Rightarrow> bool" where
  "glo_subframe msg len \<longleftrightarrow> ubx_sys (byte_at msg 6) = SYS_GLO \<and> sat_no SYS_GLO (ucast (byte_at msg 7)) \<noteq> 0 \<and> 32 \<le> len"

definition msg_sat :: "bytes \<Rightarrow> u32" where
  "msg_sat msg = sat_no (ubx_sys (byte_at msg 6)) (ucast (byte_at msg 7))"

lemma parse_subframe_crash: "parse_subframe st msg len = Inl c \<longleftrightarrow> glo_subframe msg len"
  by (cases c) (auto simp add: parse_subframe_def glo_subframe_def decode_GLO_subframe_def as_glo_def Let_def
      sys_defs not_less split: prod.splits)

lemma parse_subframe_none:
  "ubx_sys (byte_at msg 6) = 0 \<or> msg_sat msg = 0 \<Longrightarrow> parse_subframe st msg len = Inr (st, None, [])"
  by (auto simp add: parse_subframe_def msg_sat_def Let_def)

text \<open>What a handled subframe can leave: a fresh GLONASS ephemeris, or one of the satellite of the message.\<close>

lemma parse_subframe_result:
  assumes "parse_subframe st msg len = Inr (st', ep, iono)" and "ubx_inv st"
  shows "ubx_inv st'
    \<and> (\<forall>p. ep = Some p \<longrightarrow> (\<exists>e. p = Eph e \<and> eph_sat e = msg_sat msg \<and> msg_sat msg \<noteq> 0)
         \<and> (fst (satsys (msg_sat msg)) = SYS_GLO \<longrightarrow> gt_time (snd (ptr_base p)) = 0))"
proof -
  let ?sys = "ubx_sys (byte_at msg 6)" and ?sat = "msg_sat msg"
  let ?e = "new_ephem ?sat"
  show ?thesis
  proof (cases "?sys = 0 \<or> ?sat = 0")
    case True
    with assms show ?thesis by (simp add: parse_subframe_none)
  next
    case False
    then have sat: "?sat \<noteq> 0" "?sat \<le> MAX_SAT" and sys: "fst (satsys ?sat) = ?sys"
      using sat_no_le satsys_sat_no by (auto simp add: msg_sat_def)
    consider "?sys = SYS_GPS" | "?sys = SYS_BDS" | "?sys = SYS_GAL" | "?sys = SYS_GLO"
      using sat_no_sys sat(1) by (auto simp add: msg_sat_def)
    then show ?thesis
    proof cases
      case 1
      then show ?thesis
        using assms False sat sys gps_inv [OF assms(2), of ?e msg len] gps_sat [of st msg len ?e]
        by (clarsimp simp add: parse_subframe_def msg_sat_def Let_def sys_defs split_beta)
    next
      case 2
      then show ?thesis
        using assms False sat sys bds_inv [OF assms(2), of ?e msg len "[]"] bds_sat [of st msg len ?e "[]"]
        by (clarsimp simp add: parse_subframe_def msg_sat_def Let_def sys_defs split_beta)
    next
      case 3
      then show ?thesis
        using assms False sat sys gal_inv [OF assms(2), of ?e msg len] gal_sat [of st msg len ?e]
        by (clarsimp simp add: parse_subframe_def msg_sat_def Let_def sys_defs split_beta)
    next
      case 4
      then show ?thesis
        using assms False sat sys
        by (auto simp add: parse_subframe_def msg_sat_def Let_def sys_defs decode_GLO_subframe_def as_glo_def
            ptr_base_def split: if_splits)
    qed
  qed
qed

lemma publishEphemeris_total:
  assumes "parse_subframe st msg len = Inr (st', ep, iono)" and "ubx_inv st"
  shows "\<exists>pubs. publishEphemeris h ep = Inr pubs"
  using parse_subframe_result [OF assms]
  by (cases ep) (auto simp add: publishEphemeris_def ptr_base_def as_ephem_def Let_def)

text \<open>
  Claim C14.  The processor crashes on exactly one kind of message: a valid RXM-SFRBX frame of a known
  GLONASS satellite with a string of 16 octets or more.  \<open>parse_subframe\<close> hands the GLONASS decoder an
  \<open>Ephem\<close> cast to \<open>GloEphem\<close>, which is null.  For every other input it returns.
\<close>

theorem process_data_crash_iff:
  assumes "ubx_inv st"
  shows "process_data st h data len = Inl c \<longleftrightarrow>
    verifyMsg data len \<and> msg_type data = UBX_RXMSFRBX_ID \<and> glo_subframe data len"
proof -
  have "(case parse_subframe st data len of
           Inl c \<Rightarrow> Inl c
         | Inr (st', ep, iono) \<Rightarrow>
             (case (case h of None \<Rightarrow> Inr [] | Some r \<Rightarrow> publishEphemeris r ep) of
                Inl c \<Rightarrow> Inl c
              | Inr pubs \<Rightarrow>
                  Inr (st', pubs @ when_handler h (\<lambda>r. case ep of None \<Rightarrow> []
                    | Some p \<Rightarrow> publishIonoParams iono (snd (ptr_base p)))))) = Inl c \<longleftrightarrow> glo_subframe data len"
    (is "?out = Inl c \<longleftrightarrow> _")
  proof (cases "parse_subframe st data len")
    case (Inl c')
    then show ?thesis using parse_subframe_crash [of st data len c'] by (cases c'; cases c) simp
  next
    case (Inr r)
    obtain st' ep iono where r: "r = (st', ep, iono)" by (metis prod_cases3)
    with Inr have "parse_subframe st data len = Inr (st', ep, iono)" by simp
    then have "publishEphemeris r' ep \<noteq> Inl c" for r'
      using publishEphemeris_total [OF _ assms, of data len st' ep iono r'] by auto
    then have "?out \<noteq> Inl c" using Inr r by (auto split: option.splits sum.splits)
    moreover have "\<not> glo_subframe data len" using Inr parse_subframe_crash [of st data len c] by auto
    ultimately show ?thesis by blast
  qed
  then show ?thesis by (simp add: process_data_def Let_def split_beta UBX_RXMRAWX_ID_def UBX_RXMSFRBX_ID_def)
qed

section \<open>Runs\<close>

text \<open>The states a processor can reach, with everything it has published.\<close>

inductive ubx_run :: "ros_handler option \<Rightarrow> ubx_state \<Rightarrow> publication list \<Rightarrow> bool" for h where
  start: "ubx_run h ubx_init []"
| msg: "ubx_run h st pubs \<Longrightarrow> process_data st h data len = Inr (st', out) \<Longrightarrow> ubx_run h st' (pubs @ out)"

inductive_cases ubx_run_cases: "ubx_run h st pubs"

text \<open>What may go out on each topic.\<close>

fun publication_ok :: "ros_handler \<Rightarrow> publication \<Rightarrow> bool" where
  "publication_ok h (Range_meas ms) \<longleftrightarrow>
     ms \<noteq> [] \<and> (\<forall>m \<in> set ms. \<exists>ob. m = obs2msg ob \<and> obs_wf ob
       \<and> fst (satsys (obs_sat ob)) AND raw_observation_system_mask h \<noteq> 0)"
| "publication_ok h (Ephem_topic m) \<longleftrightarrow>
     (\<exists>e. m = ephem2msg e \<and> gt_time (ttr e) \<noteq> 0 \<and> 1 \<le> eph_sat e \<and> eph_sat e \<le> MAX_SAT
       \<and> fst (satsys (eph_sat e)) \<noteq> SYS_GLO \<and> fst (satsys (eph_sat e)) AND ephemeris_system_mask h \<noteq> 0)"
| "publication_ok h (Glo_ephem_topic m) \<longleftrightarrow> False"
| "publication_ok h (Iono_topic stamp ps) \<longleftrightarrow> length ps = 8"
| "publication_ok h (Time_pulse_topic m) \<longleftrightarrow> tpm_time_sys m \<in> {SYS_GPS, SYS_GLO, SYS_GAL, SYS_NONE}"
| "publication_ok h (Pvt_callback i s) \<longleftrightarrow> i < pvt_callbacks h \<and> gt_time (pvt_time s) \<noteq> 0"
| "publication_ok h (Pvt_topic m) \<longleftrightarrow> (\<exists>s. m = pvt2msg s \<and> gt_time (pvt_time s) \<noteq> 0)"
| "publication_ok h (Lla_topic m) \<longleftrightarrow> (\<exists>s. m = lla_of s \<and> gt_time (pvt_time s) \<noteq> 0)"
| "publication_ok h (Rtcm_topic now m) \<longleftrightarrow> False"

lemma and_low_nibble_less: "(ucast ((r :: u8) AND 0x0F) :: u32) < 16"
proof -
  have "unat (r AND 0x0F) \<le> 15"
    using word_and_le1 [of r "0x0F"] by (simp add: word_le_nat_alt)
  then show ?thesis by (simp add: word_less_nat_alt)
qed

lemma ref_time_sys_range: "ref_time_sys r \<in> {SYS_GPS, SYS_GLO, SYS_GAL, SYS_NONE}"
proof -
  have "(ucast (r AND 0x0F) :: u32) \<noteq> SYS_BDS"
    using and_low_nibble_less [of r] by (auto simp add: SYS_BDS_def)
  then show ?thesis by (simp add: ref_time_sys_def Let_def)
qed

lemma publishObservations_ok:
  assumes "p \<in> set (publishObservations r (fst (parse_meas_msg st msg len)))"
  shows "publication_ok r p"
proof -
  let ?f = "filter (\<lambda>ob. fst (satsys (obs_sat ob)) AND raw_observation_system_mask r \<noteq> 0) (fst (parse_meas_msg st msg len))"
  from assms have p: "p = Range_meas (meas2msg ?f)" "?f \<noteq> []"
    by (auto simp add: publishObservations_def Let_def split: if_splits)
  then show ?thesis
    using parse_meas_msg_obs [of _ st msg len] by (auto simp add: meas2msg_def)
qed

lemma publishEphemeris_ok:
  assumes "parse_subframe st msg len = Inr (st', ep, iono)" and "ubx_inv st"
    and "publishEphemeris r ep = Inr pubs" and "p \<in> set pubs"
  shows "publication_ok r p"
proof -
  note res = parse_subframe_result [OF assms(1,2)]
  from assms(3,4) obtain q where q: "ep = Some q" "gt_time (snd (ptr_base q)) \<noteq> 0"
    by (cases ep) (auto simp add: publishEphemeris_def split: if_splits)
  with res obtain e where e: "q = Eph e" "eph_sat e = msg_sat msg" "msg_sat msg \<noteq> 0"
    and sys: "fst (satsys (msg_sat msg)) \<noteq> SYS_GLO" by auto
  have "1 \<le> msg_sat msg" using e(3) by (simp add: word_le_nat_alt unat_gt_0 Suc_leI)
  moreover have "msg_sat msg \<le> MAX_SAT" by (simp add: msg_sat_def sat_no_le)
  ultimately show ?thesis
    using assms(3,4) q e sys
    by (auto simp add: publishEphemeris_def ptr_base_def as_ephem_def Let_def split: if_splits)
      (rule exI, rule conjI, rule refl, simp)
qed

lemma process_data_ok:
  assumes "process_data st h data len = Inr (st', out)" and "ubx_inv st"
  shows "ubx_inv st' \<and> (\<forall>p \<in> set out. \<exists>r. h = Some r \<and> publication_ok r p)"
proof -
  consider (invalid) "\<not> verifyMsg data len"
    | (meas) "verifyMsg data len" "msg_type data = UBX_RXMRAWX_ID"
    | (nav) "verifyMsg data len" "msg_type data = UBX_RXMSFRBX_ID"
    | (tp) "verifyMsg data len" "msg_type data = UBX_TIM_TP_ID"
    | (pvt) "verifyMsg data len" "msg_type data = UBX_NAVPOS_ID"
    | (other) "verifyMsg data len" "msg_type data \<notin> {UBX_RXMRAWX_ID, UBX_RXMSFRBX_ID, UBX_TIM_TP_ID, UBX_NAVPOS_ID}"
    by blast
  then show ?thesis
  proof cases
    case invalid
    with assms show ?thesis by (simp add: process_data_def)
  next
    case meas
    with assms show ?thesis
      using meas_inv [OF assms(2), of data len] publishObservations_ok [of _ _ st data len]
      by (auto simp add: process_data_def split_beta when_handler_def split: option.splits)
  next
    case nav
    with assms(1) obtain ep iono pubs where
      sub: "parse_subframe st data len = Inr (st', ep, iono)"
      and pubs: "(case h of None \<Rightarrow> Inr [] | Some r \<Rightarrow> publishEphemeris r ep) = Inr pubs"
      and out: "out = pubs @ when_handler h (\<lambda>r. case ep of None \<Rightarrow> []
                    | Some p \<Rightarrow> publishIonoParams iono (snd (ptr_base p)))"
      by (auto simp add: process_data_def UBX_RXMRAWX_ID_def UBX_RXMSFRBX_ID_def split: sum.splits)
    have "\<exists>r. h = Some r \<and> publication_ok r p" if p: "p \<in> set out" for p
    proof (cases h)
      case None
      with p out pubs show ?thesis by (simp add: when_handler_def)
    next
      case (Some r)
      with p out pubs consider "p \<in> set pubs" "publishEphemeris r ep = Inr pubs"
        | q where "p \<in> set (publishIonoParams iono (snd (ptr_base q)))"
        by (auto simp add: when_handler_def split: option.splits)
      then have "publication_ok r p"
      proof cases
        case 1
        then show ?thesis by (intro publishEphemeris_ok [OF sub assms(2)])
      next
        case 2
        then show ?thesis by (auto simp add: publishIonoParams_def split: if_splits)
      qed
      with Some show ?thesis by blast
    qed
    with parse_subframe_result [OF sub assms(2)] show ?thesis by blast
  next
    case tp
    then have "process_data st h data len = Inr (st, when_handler h (\<lambda>r. publishTimePulse (parse_time_pulse data len)))"
      by (simp add: process_data_def UBX_RXMRAWX_ID_def UBX_RXMSFRBX_ID_def UBX_TIM_TP_ID_def)
    with assms show ?thesis
      using ref_time_sys_range
      by (auto simp add: when_handler_def publishTimePulse_def parse_time_pulse_def tp_info2msg_def
          split: option.splits if_splits)
  next
    case pvt
    then have "process_data st h data len = Inr (st, when_handler h (\<lambda>r. publishPvt r (parse_pvt st data len)))"
      by (simp add: process_data_def UBX_RXMRAWX_ID_def UBX_RXMSFRBX_ID_def UBX_TIM_TP_ID_def UBX_NAVPOS_ID_def)
    with assms show ?thesis
      by (auto simp add: when_handler_def publishPvt_def split: option.splits if_splits)
        (rule exI, rule conjI, rule refl, assumption)+
  next
    case other
    with assms show ?thesis by (simp add: process_data_def)
  qed
qed

text \<open>
  Claim C15.  Whatever messages arrive in whatever order, the subframe buffers keep their sizes (so every
  index the decoders use stays valid), nothing is published without a handler, and everything
  published is sound: observations are well formed, not empty and of an enabled system; ephemerides
  carry a transmission time and an enabled system; ionosphere parameters come in eights; solutions
  carry a time; a time pulse never names BeiDou as its reference; no GLONASS ephemeris ever goes out.
\<close>

theorem ubx_run_sound:
  assumes "ubx_run h st pubs"
  shows "ubx_inv st \<and> (\<forall>p \<in> set pubs. \<exists>r. h = Some r \<and> publication_ok r p)"
  using assms
proof (induction rule: ubx_run.induct)
  case start
  then show ?case by (simp add: ubx_inv_init)
next
  case (msg st pubs data len st' out)
  with process_data_ok [OF msg.hyps(2)] show ?case by auto
qed

section \<open>Inconsistent GPS subframes\<close>

text \<open>
  A GPS triple whose issues of data differ is refused by the decoder (result -1, receiver time
  kept), but by then the transmission time of the ephemeris is set, and that is all
  \<open>publishEphemeris\<close> looks at: the ephemeris goes out, with reference time 1970.
\<close>

lemma gps_inconsistent_published:
  assumes "gps_check buf = None" and "\<not> gps_consistent buf"
    and "decode_GPS_ephem buf now (new_ephem sat) = (rc, e, now')"
    and "fst (satsys sat) = SYS_GPS" and "ephemeris_system_mask r AND SYS_GPS \<noteq> 0"
  shows "rc = - 1 \<and> now' = now \<and> toe e = gtime0
    \<and> publishEphemeris r (Some (Eph e)) = Inr [Ephem_topic (ephem2msg e)]"
proof -
  let ?e = "gps_subframe3 (drop 60 buf) (gps_subframe2 (drop 30 buf) (gps_subframe1 buf (new_ephem sat)))"
  have e: "rc = - 1" "e = ?e" "now' = now"
    using assms(1-3) by (auto simp add: decode_GPS_ephem_def gps_consistent_def gps_iode_iodc Let_def split: if_splits)
  have "eph_sat ?e = sat" and toe: "toe ?e = gtime0"
    by (simp_all add: gps_subframe1_def gps_subframe2_def gps_subframe3_def new_ephem_def Let_def)
  moreover have "gt_time (ttr ?e) > 0"
    by (simp add: gps_subframe1_def gps_subframe2_def gps_subframe3_def gpst2time_def gps_base Let_def add_pos_nonneg)
  ultimately show ?thesis
    using e assms(4,5)
    by (simp add: publishEphemeris_def ptr_base_def as_ephem_def Let_def and.commute sys_defs)
qed

section \<open>Examples\<close>

definition glo_demo :: bytes where
  "glo_demo = set_checksum ([0xB5, 0x62, 0x02, 0x13, 24, 0, 6, 1] @ replicate 24 0) 32"

theorem process_data_crash_iff_witness:
  "process_data ubx_init None glo_demo 32 = Inl Null_deref"
proof -
  have "verifyMsg glo_demo 32" "msg_type glo_demo = UBX_RXMSFRBX_ID" "glo_subframe glo_demo 32" by code_simp+
  then show ?thesis
    using process_data_crash_iff [OF ubx_inv_init, of None glo_demo 32 Null_deref] by blast
qed

definition tp_demo :: bytes where
  "tp_demo = set_checksum ([0xB5, 0x62, 0x0D, 0x01, 16, 0] @ replicate 12 0 @ [0xFC, 0x08, 0, 1, 0, 0]) 24"

theorem ubx_run_sound_witness:
  "publication_ok \<lparr>raw_observation_system_mask = 1, ephemeris_system_mask = 1, pvt_callbacks = 0\<rparr>
     (Time_pulse_topic (tp_info2msg (the (parse_time_pulse tp_demo 24))))"
proof -
  let ?r = "\<lparr>raw_observation_system_mask = 1, ephemeris_system_mask = 1, pvt_callbacks = 0\<rparr>"
  have v: "verifyMsg tp_demo 24" "msg_type tp_demo = UBX_TIM_TP_ID" by code_simp+
  have "gt_time (tp_time (the (parse_time_pulse tp_demo 24))) \<noteq> 0" by code_simp
  then have "publishTimePulse (parse_time_pulse tp_demo 24)
      = [Time_pulse_topic (tp_info2msg (the (parse_time_pulse tp_demo 24)))]"
    by (simp add: publishTimePulse_def parse_time_pulse_def)
  with v have "process_data ubx_init (Some ?r) tp_demo 24
      = Inr (ubx_init, [Time_pulse_topic (tp_info2msg (the (parse_time_pulse tp_demo 24)))])"
    by (simp add: process_data_def when_handler_def UBX_RXMRAWX_ID_def UBX_RXMSFRBX_ID_def UBX_TIM_TP_ID_def)
  from ubx_run_sound [OF ubx_run.msg [OF ubx_run.start this]] show ?thesis by simp
qed

definition gps_odd_row :: bytes where
  "gps_odd_row = foldl (\<lambda>b (p, l, d). setbitu b p l d) (replicate 380 0)
     [(43, 3, 1), (24, 17, 100), (240 + 43, 3, 2), (240 + 24, 17, 101), (480 + 43, 3, 3), (480 + 24, 17, 102),
      (480 + 216, 8, 9)]"

lemma gps_inconsistent_published_witness:
  "fst (decode_GPS_ephem gps_odd_row gtime0 (new_ephem 5)) = - 1
    \<and> toe (fst (snd (decode_GPS_ephem gps_odd_row gtime0 (new_ephem 5)))) = gtime0"
proof -
  have "gps_check gps_odd_row = None" and "\<not> gps_consistent gps_odd_row"
    and "fst (satsys 5) = SYS_GPS" by code_simp+
  then show ?thesis
    using gps_inconsistent_published [OF _ _ triple_eq, where buf = gps_odd_row and sat = 5 and now = gtime0
        and r = "\<lparr>raw_observation_system_mask = 1, ephemeris_system_mask = 1, pvt_callbacks = 0\<rparr>"]
    by (simp add: SYS_GPS_def)
qed

end
