(* ===== verification/Ntrip_Request.thy ===== *)
theory Ntrip_Request
  imports Cxx_Strings
begin

text \<open>
  The request \<open>NtripClient\<close> sends: \<open>Base64Encode\<close> and \<open>buildRequest\<close>.
\<close>

section \<open>Base64\<close>

definition kAlphabet :: string where
  "kAlphabet = ''ABCDEFGHIJKLMNOPQRSTUVWXYZabcdefghijklmnopqrstuvwxyz0123456789+/''"

definition sextet :: "u32 \<Rightarrow> nat \<Rightarrow> char" where
  "sextet accumulator bit_count = kAlphabet ! unat (drop_bit bit_count accumulator AND 0x3F)"

text \<open>The inner loop.\<close>

fun drain_bits :: "u32 \<Rightarrow> nat \<Rightarrow> string \<Rightarrow> nat \<times> string" where
  "drain_bits accumulator bit_count out =
     (if bit_count < 6 then (bit_count, out)
      else drain_bits accumulator (bit_count - 6) (out @ [sextet accumulator (bit_count - 6)]))"

declare drain_bits.simps [simp del]

definition encode_char :: "u32 \<times> nat \<times> string \<Rightarrow> u8 \<Rightarrow> u32 \<times> nat \<times> string" where
  "encode_char st ch =
     (case st of (accumulator, bit_count, out) \<Rightarrow>
        let accumulator1 = push_bit 8 accumulator OR ucast ch;
            (bit_count1, out1) = drain_bits accumulator1 (bit_count + 8) out
        in (accumulator1, bit_count1, out1))"

definition pad4 :: "string \<Rightarrow> string" where
  "pad4 s = s @ replicate ((4 - length s mod 4) mod 4) CHR ''=''"

definition Base64Encode :: "bytes \<Rightarrow> string" where
  "Base64Encode input =
     (case foldl encode_char (0, 0, []) input of (accumulator, bit_count, out) \<Rightarrow>
        pad4 (if bit_count > 0 then out @ [sextet (push_bit (6 - bit_count) accumulator) 0] else out))"

section \<open>The standard's description\<close>

text \<open>Three octets are four groups of six bits; one or two octets at the end are filled with zero bits.\<close>

definition b64 :: "u8 \<Rightarrow> char" where
  "b64 w = kAlphabet ! unat w"

fun rfc4648 :: "bytes \<Rightarrow> string" where
  "rfc4648 [] = []"
| "rfc4648 [a] = [b64 (drop_bit 2 a), b64 (push_bit 4 (take_bit 2 a)), CHR ''='', CHR ''='']"
| "rfc4648 [a, b] =
     [b64 (drop_bit 2 a), b64 (push_bit 4 (take_bit 2 a) OR drop_bit 4 b), b64 (push_bit 2 (take_bit 4 b)), CHR ''='']"
| "rfc4648 (a # b # c # r) =
     [b64 (drop_bit 2 a), b64 (push_bit 4 (take_bit 2 a) OR drop_bit 4 b),
      b64 (push_bit 2 (take_bit 4 b) OR drop_bit 6 c), b64 (take_bit 6 c)] @ rfc4648 r"

lemma and_0x3F: "w AND 0x3F = take_bit 6 (w :: u32)"
  by (simp add: take_bit_eq_mask mask_eq_exp_minus_1)

lemma sextetI: "take_bit 6 (drop_bit k acc) = ucast w \<Longrightarrow> sextet acc k = b64 w"
  by (simp add: sextet_def b64_def and_0x3F)

lemmas sextet_bits = bit_take_bit_iff bit_or_iff bit_drop_bit_eq bit_push_bit_iff bit_ucast_iff

text \<open>The accumulator with one more octet, kept as one term.\<close>

definition acc8 :: "u32 \<Rightarrow> u8 \<Rightarrow> u32" where
  "acc8 acc ch = push_bit 8 acc OR ucast ch"

lemma sextet_first: "sextet (acc8 acc a) 2 = b64 (drop_bit 2 a)"
  and sextet_second: "sextet (acc8 (acc8 acc a) b) 4 = b64 (push_bit 4 (take_bit 2 a) OR drop_bit 4 b)"
  and sextet_third: "sextet (acc8 (acc8 acc b) c) 6 = b64 (push_bit 2 (take_bit 4 b) OR drop_bit 6 c)"
  and sextet_fourth: "sextet (acc8 acc c) 0 = b64 (take_bit 6 c)"
  and sextet_last1: "sextet (push_bit 4 (acc8 acc a)) 0 = b64 (push_bit 4 (take_bit 2 a))"
  and sextet_last2: "sextet (push_bit 2 (acc8 acc b)) 0 = b64 (push_bit 2 (take_bit 4 b))"
  by (rule sextetI, rule bit_eqI, auto simp add: acc8_def sextet_bits dest: bit_imp_le_length)+

section \<open>The loop computes the standard's encoding\<close>

lemma drain_stop: "n < 6 \<Longrightarrow> drain_bits acc n out = (n, out)"
  and drain_go: "6 \<le> n \<Longrightarrow> drain_bits acc n out = drain_bits acc (n - 6) (out @ [sextet acc (n - 6)])"
  by (simp_all add: drain_bits.simps [of acc n])

lemma drain_8: "drain_bits acc 8 out = (2, out @ [sextet acc 2])"
  and drain_10: "drain_bits acc 10 out = (4, out @ [sextet acc 4])"
  and drain_12: "drain_bits acc 12 out = (0, out @ [sextet acc 6, sextet acc 0])"
  by (simp_all add: drain_stop drain_go)

lemma encode_char_0: "encode_char (acc, 0, out) a = (acc8 acc a, 2, out @ [sextet (acc8 acc a) 2])"
  and encode_char_2: "encode_char (acc, 2, out) a = (acc8 acc a, 4, out @ [sextet (acc8 acc a) 4])"
  and encode_char_4: "encode_char (acc, 4, out) a =
    (acc8 acc a, 0, out @ [sextet (acc8 acc a) 6, sextet (acc8 acc a) 0])"
  by (simp_all add: encode_char_def Let_def drain_8 drain_10 drain_12 flip: acc8_def)

lemmas encode_chars = encode_char_0 encode_char_2 encode_char_4 sextet_first sextet_second sextet_third
  sextet_fourth sextet_last1 sextet_last2

definition finish64 :: "u32 \<times> nat \<times> string \<Rightarrow> string" where
  "finish64 st =
     (case st of (accumulator, bit_count, out) \<Rightarrow>
        pad4 (if bit_count > 0 then out @ [sextet (push_bit (6 - bit_count) accumulator) 0] else out))"

lemma pad4_0: "length out mod 4 = 0 \<Longrightarrow> pad4 out = out"
  and pad4_2: "length out mod 4 = 0 \<Longrightarrow> pad4 (out @ [x, y]) = out @ [x, y, CHR ''='', CHR ''='']"
  and pad4_3: "length out mod 4 = 0 \<Longrightarrow> pad4 (out @ [x, y, z]) = out @ [x, y, z, CHR ''='']"
proof -
  assume out: "length out mod 4 = 0"
  then have "length (out @ [x, y]) mod 4 = 2" "length (out @ [x, y, z]) mod 4 = 3"
    by (simp; presburger)+
  with out show "pad4 out = out" "pad4 (out @ [x, y]) = out @ [x, y, CHR ''='', CHR ''='']"
    "pad4 (out @ [x, y, z]) = out @ [x, y, z, CHR ''='']"
    by (simp_all only: pad4_def) (simp_all add: numeral_2_eq_2)
qed

lemma finish64_foldl:
  "length out mod 4 = 0 \<Longrightarrow> finish64 (foldl encode_char (acc, 0, out) xs) = out @ rfc4648 xs"
proof (induction xs arbitrary: acc out rule: rfc4648.induct)
  case 1
  then show ?case by (simp add: finish64_def pad4_0)
next
  case (2 a)
  then show ?case by (simp add: finish64_def encode_chars pad4_2)
next
  case (3 a b)
  then show ?case by (simp add: finish64_def encode_chars pad4_3)
next
  case (4 a b c r)
  have "(length out + 4) mod 4 = 0" using "4.prems" by simp
  then show ?case
    using "4.IH" [of "out @ [b64 (drop_bit 2 a), b64 (push_bit 4 (take_bit 2 a) OR drop_bit 4 b),
        b64 (push_bit 2 (take_bit 4 b) OR drop_bit 6 c), b64 (take_bit 6 c)]"]
    by (simp add: encode_chars)
qed

lemma Base64Encode_rfc4648: "Base64Encode xs = rfc4648 xs"
  using finish64_foldl [of "[]" 0 xs] by (simp add: Base64Encode_def finish64_def)

section \<open>Decoding\<close>

definition b64_index :: "char \<Rightarrow> u8" where
  "b64_index c = of_nat (length (takeWhile (\<lambda>d. d \<noteq> c) kAlphabet))"

fun b64_decode :: "string \<Rightarrow> bytes" where
  "b64_decode (w # x # y # z # r) =
     (let a = push_bit 2 (b64_index w) OR drop_bit 4 (b64_index x);
          b = push_bit 4 (b64_index x) OR drop_bit 2 (b64_index y);
          c = push_bit 6 (b64_index y) OR b64_index z in
      if y = CHR ''='' then [a] else if z = CHR ''='' then [a, b] else a # b # c # b64_decode r)"
| "b64_decode _ = []"

lemma alphabet_index:
  "list_all (\<lambda>i. b64_index (kAlphabet ! i) = of_nat i \<and> kAlphabet ! i \<noteq> CHR ''='') [0..<64]"
  by code_simp

lemma b64_index_b64:
  assumes "take_bit 6 w = w"
  shows "b64_index (b64 w) = w" and "b64 w \<noteq> CHR ''=''"
proof -
  have "unat w = take_bit 6 (unat w)" using assms by (metis unsigned_take_bit_eq)
  also have "\<dots> < 2 ^ 6" by (rule take_bit_nat_less_exp)
  finally have "unat w \<in> set [0..<64]" by simp
  with alphabet_index have "b64_index (b64 w) = of_nat (unat w) \<and> b64 w \<noteq> CHR ''=''"
    by (simp only: list_all_iff b64_def) blast
  then show "b64_index (b64 w) = w" and "b64 w \<noteq> CHR ''=''" by simp_all
qed

lemma sextets:
  "take_bit 6 (drop_bit 2 a) = drop_bit 2 (a :: u8)"
  "take_bit 6 (push_bit 4 (take_bit 2 a)) = push_bit 4 (take_bit 2 a)"
  "take_bit 6 (push_bit 4 (take_bit 2 a) OR drop_bit 4 b) = push_bit 4 (take_bit 2 a) OR drop_bit 4 (b :: u8)"
  "take_bit 6 (push_bit 2 (take_bit 4 b)) = push_bit 2 (take_bit 4 b)"
  "take_bit 6 (push_bit 2 (take_bit 4 b) OR drop_bit 6 c) = push_bit 2 (take_bit 4 b) OR drop_bit 6 (c :: u8)"
  "take_bit 6 (take_bit 6 c) = take_bit 6 c"
  by (rule bit_eqI, auto simp add: sextet_bits dest: bit_imp_le_length)+

lemma b64_index_groups:
  "b64_index (b64 (drop_bit 2 a)) = drop_bit 2 a"
  "b64_index (b64 (push_bit 4 (take_bit 2 a))) = push_bit 4 (take_bit 2 a)"
  "b64_index (b64 (push_bit 4 (take_bit 2 a) OR drop_bit 4 b)) = push_bit 4 (take_bit 2 a) OR drop_bit 4 b"
  "b64_index (b64 (push_bit 2 (take_bit 4 b))) = push_bit 2 (take_bit 4 b)"
  "b64_index (b64 (push_bit 2 (take_bit 4 b) OR drop_bit 6 c)) = push_bit 2 (take_bit 4 b) OR drop_bit 6 c"
  "b64_index (b64 (take_bit 6 c)) = take_bit 6 c"
  by (rule b64_index_b64(1) [OF sextets(1)] b64_index_b64(1) [OF sextets(2)] b64_index_b64(1) [OF sextets(3)]
      b64_index_b64(1) [OF sextets(4)] b64_index_b64(1) [OF sextets(5)] b64_index_b64(1) [OF sextets(6)])+

lemma b64_no_padding:
  "b64 (push_bit 2 (take_bit 4 b)) \<noteq> CHR ''=''" "b64 (push_bit 2 (take_bit 4 b) OR drop_bit 6 c) \<noteq> CHR ''=''"
  "b64 (take_bit 6 c) \<noteq> CHR ''=''"
  by (rule b64_index_b64(2) [OF sextets(4)] b64_index_b64(2) [OF sextets(5)] b64_index_b64(2) [OF sextets(6)])+

lemma suc_minus_2: "2 \<le> n \<Longrightarrow> Suc (Suc (n - 2)) = n"
  by simp

lemma joined1: "push_bit 2 (drop_bit 2 a) OR drop_bit 4 (push_bit 4 (take_bit 2 a)) = (a :: u8)"
  by (rule bit_eqI, rule iffI) (auto simp add: sextet_bits suc_minus_2)

lemma joined2: "push_bit 2 (drop_bit 2 a) OR drop_bit 4 (push_bit 4 (take_bit 2 a) OR drop_bit 4 b) = (a :: u8)"
  by (rule bit_eqI, rule iffI) (auto simp add: sextet_bits suc_minus_2 dest: bit_imp_le_length)

lemma joined3:
  "push_bit 4 (push_bit 4 (take_bit 2 a) OR drop_bit 4 b) OR drop_bit 2 (push_bit 2 (take_bit 4 b)) = (b :: u8)"
  by (rule bit_eqI, rule iffI) (auto simp add: sextet_bits dest: bit_imp_le_length)

lemma joined4:
  "push_bit 4 (push_bit 4 (take_bit 2 a) OR drop_bit 4 b) OR drop_bit 2 (push_bit 2 (take_bit 4 b) OR drop_bit 6 c)
     = (b :: u8)"
  by (rule bit_eqI, rule iffI) (auto simp add: sextet_bits dest: bit_imp_le_length)

lemma joined5: "push_bit 6 (push_bit 2 (take_bit 4 b) OR drop_bit 6 c) OR take_bit 6 c = (c :: u8)"
  by (rule bit_eqI, rule iffI) (auto simp add: sextet_bits dest: bit_imp_le_length)

lemma b64_decode_rfc4648: "b64_decode (rfc4648 xs) = xs"
proof (induction xs rule: rfc4648.induct)
  case (4 a b c r)
  then show ?case
    by (simp only: rfc4648.simps append.simps b64_decode.simps Let_def b64_index_groups b64_no_padding
        joined2 joined4 joined5 if_False)
qed (simp_all only: rfc4648.simps b64_decode.simps Let_def b64_index_groups b64_no_padding
    joined1 joined2 joined3 if_False refl if_True)

text \<open>
  Claim C26.  For every input \<open>Base64Encode\<close>, whose 32-bit accumulator overflows, returns the Base64 text of
  RFC 4648, padding included, and decoding that text gives the input back: the caster reads the user name
  and the password that were configured.
\<close>

theorem Base64Encode_correct:
  "Base64Encode xs = rfc4648 xs \<and> b64_decode (Base64Encode xs) = xs"
  by (simp add: Base64Encode_rfc4648 b64_decode_rfc4648)

section \<open>The request\<close>

definition CRLF :: string where "CRLF = [CHR 0x0D, CHR 0x0A]"

definition octets_of :: "string \<Rightarrow> bytes" where
  "octets_of s = map of_char s"

definition buildRequest :: "string \<Rightarrow> string \<Rightarrow> string \<Rightarrow> string" where
  "buildRequest mount username password =
     (let mountpoint = (if mount \<noteq> [] \<and> hd mount \<noteq> CHR ''/'' then CHR ''/'' # mount else mount) in
      ''GET '' @ mountpoint @ '' HTTP/1.0'' @ CRLF
      @ ''User-Agent: NTRIP ublox_driver/1.0'' @ CRLF
      @ ''Accept: */*'' @ CRLF
      @ ''Connection: close'' @ CRLF
      @ ''Ntrip-Version: Ntrip/2.0'' @ CRLF
      @ (if username \<noteq> [] \<or> password \<noteq> []
         then ''Authorization: Basic '' @ Base64Encode (octets_of (username @ '':'' @ password)) @ CRLF else [])
      @ CRLF)"

end
