(* ===== verification/Tcp_Client.thy ===== *)
theory Tcp_Client
  imports Serial_Life Ntrip_Request
begin

text \<open>
  \<open>TcpClient\<close>, \<open>LoopbackTcpClient\<close> and the connection of \<open>NtripClient\<close>: the reading loop that connects,
  dispatches what arrives and reconnects, over what the network can answer.
\<close>

section \<open>The network\<close>

text \<open>
  A turn of \<open>waitForEvent\<close> and \<open>recv\<close>: octets (none is the end of the stream), a retry, a failed wait
  (hang-up, error or time-out), a wake-up after \<open>close\<close> cleared \<open>read_running_\<close>, a failed \<open>recv\<close>.
\<close>

datatype net_event = Arrive bytes | Later | Lost | Closing | Recv_error

text \<open>
  The client's state, and the answers still to come: for each \<open>getaddrinfo\<close> the outcome at each address,
  for each \<open>writeAll\<close> its turns, the turns of reading, and for each sleep whether it elapsed.  Then what
  the callbacks were given and what was written.
\<close>

record tcp =
  socket_open :: bool
  tcp_running :: bool
  tcp_shutting_down :: bool
  connection_active :: bool
  connects :: "bool list list"
  sends :: "write_event list list"
  arrivals :: "net_event list"
  sleeps :: "bool list"
  dispatched :: "bytes list"
  notified :: "bool list"
  sent :: "bytes list"

definition tcp_init :: "bool list list \<Rightarrow> write_event list list \<Rightarrow> net_event list \<Rightarrow> bool list \<Rightarrow> tcp" where
  "tcp_init cs ws evs zs =
     \<lparr>socket_open = False, tcp_running = False, tcp_shutting_down = False, connection_active = False,
      connects = cs, sends = ws, arrivals = evs, sleeps = zs, dispatched = [], notified = [], sent = []\<rparr>"

text \<open>A call that does not return within the answers given is \<open>None\<close>.\<close>

type_synonym 'a call = "'a option \<times> tcp"

section \<open>Connections\<close>

fun try_addresses :: "bool list \<Rightarrow> bool" where
  "try_addresses [] = False"
| "try_addresses (ok # rest) = (if ok then True else try_addresses rest)"

definition openConnection :: "tcp \<Rightarrow> bool call" where
  "openConnection s =
     (case connects s of
        [] \<Rightarrow> (None, s)
      | results # cs \<Rightarrow>
          (Some (try_addresses results), s\<lparr>connects := cs, socket_open := try_addresses results\<rparr>))"

definition notifyConnectionState :: "bool \<Rightarrow> tcp \<Rightarrow> tcp" where
  "notifyConnectionState connected s =
     (if connection_active s = connected then s
      else s\<lparr>connection_active := connected, notified := notified s @ [connected]\<rparr>)"

definition closeSocket :: "tcp \<Rightarrow> tcp" where
  "closeSocket s =
     (if socket_open s then (notifyConnectionState False s)\<lparr>socket_open := False\<rparr> else s)"

definition dispatchDataCallbacks :: "bytes \<Rightarrow> tcp \<Rightarrow> tcp" where
  "dispatchDataCallbacks data s = s\<lparr>dispatched := dispatched s @ [data]\<rparr>"

text \<open>\<open>waitForEvent(POLLIN, ...)\<close> and then \<open>recvSome(..., len, 0)\<close>.\<close>

datatype recv_result = Got bytes | Eof | Recv_again | Recv_failed | Wait_failed

definition wait_recv :: "nat \<Rightarrow> tcp \<Rightarrow> recv_result call" where
  "wait_recv len s =
     (if \<not> socket_open s then (Some Wait_failed, s)
      else case arrivals s of
        [] \<Rightarrow> (None, s)
      | Arrive bs # evs \<Rightarrow>
          if len = 0 then (Some Eof, s)
          else if bs = [] then (Some Eof, s\<lparr>arrivals := evs\<rparr>)
          else (Some (Got (take len bs)),
                s\<lparr>arrivals := (if drop len bs = [] then evs else Arrive (drop len bs) # evs)\<rparr>)
      | Later # evs \<Rightarrow> (Some Recv_again, s\<lparr>arrivals := evs\<rparr>)
      | Lost # evs \<Rightarrow> (Some Wait_failed, s\<lparr>arrivals := evs\<rparr>)
      | Closing # evs \<Rightarrow> (Some Wait_failed, s\<lparr>arrivals := evs, tcp_running := False\<rparr>)
      | Recv_error # evs \<Rightarrow> (Some Recv_failed, s\<lparr>arrivals := evs\<rparr>))"

definition writeAll :: "bytes \<Rightarrow> tcp \<Rightarrow> bool \<times> tcp" where
  "writeAll data s =
     (let evs = (case sends s of [] \<Rightarrow> [] | e # es \<Rightarrow> e);
          (ok, w) = (if socket_open s then write_all data evs else (data = [], []))
      in (ok, s\<lparr>sends := tl (sends s), sent := sent s @ [w]\<rparr>))"

definition sleepInterruptibly :: "tcp \<Rightarrow> bool call" where
  "sleepInterruptibly s =
     (case sleeps s of
        [] \<Rightarrow> (None, s)
      | elapsed # zs \<Rightarrow> (Some (elapsed \<and> tcp_running s \<and> \<not> tcp_shutting_down s), s\<lparr>sleeps := zs\<rparr>))"

definition net_size :: "net_event list \<Rightarrow> nat" where
  "net_size evs = sum_list (map (\<lambda>e. case e of Arrive bs \<Rightarrow> Suc (length bs) | _ \<Rightarrow> 1) evs)"

lemma net_size_simps [simp]:
  "net_size [] = 0" "net_size (Arrive bs # evs) = Suc (length bs) + net_size evs"
  "net_size (Later # evs) = Suc (net_size evs)" "net_size (Lost # evs) = Suc (net_size evs)"
  "net_size (Closing # evs) = Suc (net_size evs)" "net_size (Recv_error # evs) = Suc (net_size evs)"
  by (simp_all add: net_size_def)

lemma wait_recv_size:
  "wait_recv len s = (r, s') \<Longrightarrow> net_size (arrivals s') \<le> net_size (arrivals s)"
  "wait_recv len s = (Some (Got bs), s') \<Longrightarrow> net_size (arrivals s') < net_size (arrivals s)"
  "wait_recv len s = (Some Recv_again, s') \<Longrightarrow> net_size (arrivals s') < net_size (arrivals s)"
  by (auto simp add: wait_recv_def split: list.splits net_event.splits if_splits)

text \<open>The parts of the state that a call does not touch.\<close>

definition same_link :: "tcp \<Rightarrow> tcp \<Rightarrow> bool" where
  "same_link s s' \<longleftrightarrow> connects s' = connects s \<and> sleeps s' = sleeps s \<and> socket_open s' = socket_open s
     \<and> notified s' = notified s \<and> connection_active s' = connection_active s
     \<and> tcp_shutting_down s' = tcp_shutting_down s \<and> (tcp_running s' \<longrightarrow> tcp_running s)"

lemma same_link_refl [simp]: "same_link s s"
  and same_link_trans: "same_link s t \<Longrightarrow> same_link t u \<Longrightarrow> same_link s u"
  by (auto simp add: same_link_def)

lemma wait_recv_frame:
  "wait_recv len s = (r, s') \<Longrightarrow> same_link s s' \<and> dispatched s' = dispatched s"
  by (auto simp add: wait_recv_def same_link_def split: list.splits net_event.splits if_splits)

text \<open>\<open>readUntil\<close>: the buffer, filled in pieces of at most 1024 octets.\<close>

function readUntil :: "bytes \<Rightarrow> nat \<Rightarrow> bytes \<Rightarrow> tcp \<Rightarrow> (bool \<times> bytes) call" where
  "readUntil delimiter max_bytes buf s =
     (if find_sub delimiter buf \<noteq> None then (Some (True, buf), s)
      else if max_bytes \<le> length buf then (Some (False, buf), s)
      else case wait_recv 1024 s of
        (None, s') \<Rightarrow> (None, s')
      | (Some (Got bs), s') \<Rightarrow> readUntil delimiter max_bytes (buf @ bs) s'
      | (Some Recv_again, s') \<Rightarrow> readUntil delimiter max_bytes buf s'
      | (Some _, s') \<Rightarrow> (Some (False, buf), s'))"
  by pat_completeness auto
termination
  by (relation "measure (\<lambda>(d, m, b, s). net_size (arrivals s))") (auto dest!: wait_recv_size(2,3) [OF sym])

declare readUntil.simps [simp del]

lemma readUntil_frame:
  "readUntil d m buf s = (r, s') \<Longrightarrow> same_link s s' \<and> dispatched s' = dispatched s
     \<and> net_size (arrivals s') \<le> net_size (arrivals s)"
proof (induction d m buf s rule: readUntil.induct)
  case (1 d m buf s)
  show ?case
  proof (cases "find_sub d buf \<noteq> None \<or> m \<le> length buf")
    case True
    with "1.prems" show ?thesis by (auto simp add: readUntil.simps [of d m buf s] split: if_splits)
  next
    case False
    obtain w s1 where w: "wait_recv 1024 s = (w, s1)" by fastforce
    note f = wait_recv_frame [OF w] wait_recv_size(1) [OF w]
    consider (got) bs where "w = Some (Got bs)" | (again) "w = Some Recv_again"
      | (other) "(r, s') = (r, s1)"
      using "1.prems" False w by (auto simp add: readUntil.simps [of d m buf s] split: option.splits recv_result.splits)
    then show ?thesis
    proof cases
      case got
      with "1.prems" "1.IH"(1) False w f show ?thesis
        by (fastforce simp add: readUntil.simps [of d m buf s] intro: same_link_trans)
    next
      case again
      with "1.prems" "1.IH"(2) False w f show ?thesis
        by (fastforce simp add: readUntil.simps [of d m buf s] intro: same_link_trans)
    next
      case other
      with f show ?thesis by simp
    qed
  qed
qed

section \<open>The two clients\<close>

text \<open>A loopback client, or an NTRIP client with mount point, user and password: the virtual \<open>onConnected\<close>.\<close>

datatype client = Loopback | Ntrip string string string

definition kMaxNtripHeaderBytes :: nat where "kMaxNtripHeaderBytes = 8192"

definition CRLF2 :: bytes where "CRLF2 = [0x0D, 0x0A, 0x0D, 0x0A]"
definition LF2 :: bytes where "LF2 = [0x0A, 0x0A]"

text \<open>The end of the header and the length of the delimiter.\<close>

definition header_end :: "bytes \<Rightarrow> (nat \<times> nat) option" where
  "header_end response =
     (case find_sub CRLF2 response of
        Some i \<Rightarrow> Some (i, 4)
      | None \<Rightarrow> (case find_sub LF2 response of Some i \<Rightarrow> Some (i, 2) | None \<Rightarrow> None))"

definition status_accepted :: "bytes \<Rightarrow> bool" where
  "status_accepted header =
     (let first_line = takeWhile (\<lambda>c. c \<noteq> 0x0D \<and> c \<noteq> 0x0A) header in
      starts_with first_line (octets_of ''ICY 200'')
      \<or> starts_with first_line (octets_of ''HTTP/1.0 200'')
      \<or> starts_with first_line (octets_of ''HTTP/1.1 200''))"

definition parseResponse :: "bytes \<Rightarrow> tcp \<Rightarrow> bool \<times> tcp" where
  "parseResponse response s =
     (case header_end response of
        None \<Rightarrow> (False, s)
      | Some (i, delimiter_len) \<Rightarrow>
          if \<not> status_accepted (take i response) then (False, s)
          else let payload = drop (i + delimiter_len) response in
          (True, if payload \<noteq> [] then dispatchDataCallbacks payload s else s))"

fun request :: "client \<Rightarrow> bytes" where
  "request Loopback = []"
| "request (Ntrip mount user pass) = octets_of (buildRequest mount user pass)"

text \<open>\<open>onConnected\<close>: nothing to do for the base class; request and answer for the caster.\<close>

definition onConnected :: "client \<Rightarrow> tcp \<Rightarrow> bool call" where
  "onConnected c s =
     (if c = Loopback then (Some True, s)
      else let (ok, s1) = writeAll (request c) s in
      if \<not> ok then (Some False, s1)
      else case readUntil CRLF2 kMaxNtripHeaderBytes [] s1 of
        (None, s2) \<Rightarrow> (None, s2)
      | (Some (found, response), s2) \<Rightarrow>
          if found then (let (r, s3) = parseResponse response s2 in (Some r, s3))
          else case readUntil LF2 kMaxNtripHeaderBytes response s2 of
            (None, s3) \<Rightarrow> (None, s3)
          | (Some (found', response'), s3) \<Rightarrow>
              if \<not> found' then (Some False, s3)
              else (let (r, s4) = parseResponse response' s3 in (Some r, s4)))"

definition tcp_connect :: "client \<Rightarrow> tcp \<Rightarrow> bool call" where
  "tcp_connect c s =
     (if socket_open s then (Some True, s)
      else case openConnection s of
        (None, s1) \<Rightarrow> (None, s1)
      | (Some reached, s1) \<Rightarrow>
          if \<not> reached then (Some False, s1)
          else case onConnected c s1 of
            (None, s2) \<Rightarrow> (None, s2)
          | (Some ok, s2) \<Rightarrow>
              if ok then (Some True, notifyConnectionState True s2) else (Some False, closeSocket s2))"

section \<open>The loop\<close>

text \<open>After a lost connection: close, sleep, and go round again unless the sleep was cut short.\<close>

definition pause :: "tcp \<Rightarrow> bool call" where
  "pause s = sleepInterruptibly (closeSocket s)"

text \<open>One turn of the loop: go on, leave, or wait.\<close>

definition tcp_turn :: "client \<Rightarrow> nat \<Rightarrow> tcp \<Rightarrow> bool call" where
  "tcp_turn c buf_size s =
     (case tcp_connect c s of
        (None, s1) \<Rightarrow> (None, s1)
      | (Some False, s1) \<Rightarrow>
          if \<not> tcp_running s1 \<or> tcp_shutting_down s1 then (Some False, s1) else sleepInterruptibly s1
      | (Some True, s1) \<Rightarrow>
          (case wait_recv buf_size s1 of
             (None, s2) \<Rightarrow> (None, s2)
           | (Some Wait_failed, s2) \<Rightarrow>
               if \<not> tcp_running s2 \<or> tcp_shutting_down s2 then (Some False, s2) else pause s2
           | (Some (Got bs), s2) \<Rightarrow> (Some True, dispatchDataCallbacks bs s2)
           | (Some Recv_again, s2) \<Rightarrow> (Some True, s2)
           | (Some Eof, s2) \<Rightarrow> pause s2
           | (Some Recv_failed, s2) \<Rightarrow> pause s2))"

definition tcp_left :: "tcp \<Rightarrow> nat" where
  "tcp_left s = length (connects s) + net_size (arrivals s) + length (sleeps s)"

lemma writeAll_frame:
  "writeAll data s = (ok, s') \<Longrightarrow> same_link s s' \<and> arrivals s' = arrivals s \<and> dispatched s' = dispatched s"
  by (auto simp add: writeAll_def same_link_def Let_def split: prod.splits)

lemma parseResponse_frame: "parseResponse resp s = (ok, s') \<Longrightarrow> same_link s s' \<and> arrivals s' = arrivals s"
  by (auto simp add: parseResponse_def same_link_def dispatchDataCallbacks_def Let_def split: option.splits if_splits)

lemma onConnected_frame:
  assumes "onConnected c s = (r, s')"
  shows "same_link s s' \<and> net_size (arrivals s') \<le> net_size (arrivals s)"
proof (cases "c = Loopback")
  case True
  with assms show ?thesis by (simp add: onConnected_def)
next
  case False
  obtain ok s1 where w: "writeAll (request c) s = (ok, s1)" by fastforce
  note f1 = writeAll_frame [OF w]
  obtain x s2 where u: "readUntil CRLF2 kMaxNtripHeaderBytes [] s1 = (x, s2)" by fastforce
  note f2 = readUntil_frame [OF u]
  show ?thesis
  proof (cases "\<not> ok \<or> x = None \<or> (\<exists>resp. x = Some (True, resp))")
    case True
    with assms False w u f1 f2 show ?thesis
      by (auto simp add: onConnected_def split: prod.splits if_splits
          dest!: parseResponse_frame intro: same_link_trans)
  next
    case False': False
    then obtain resp where x: "x = Some (False, resp)" by (cases x) auto
    obtain y s3 where v: "readUntil LF2 kMaxNtripHeaderBytes resp s2 = (y, s3)" by fastforce
    note f3 = readUntil_frame [OF v]
    from f1 f2 f3 have f: "same_link s s3" "net_size (arrivals s3) \<le> net_size (arrivals s)"
      by (auto intro: same_link_trans)
    from assms False False' w u x v f show ?thesis
      by (auto simp add: onConnected_def split: prod.splits if_splits option.splits
          dest!: parseResponse_frame intro: same_link_trans)
  qed
qed

lemma notify_frame [simp]:
  "connects (notifyConnectionState b s) = connects s" "arrivals (notifyConnectionState b s) = arrivals s"
  "sleeps (notifyConnectionState b s) = sleeps s" "dispatched (notifyConnectionState b s) = dispatched s"
  "tcp_running (notifyConnectionState b s) = tcp_running s" "socket_open (notifyConnectionState b s) = socket_open s"
  "tcp_shutting_down (notifyConnectionState b s) = tcp_shutting_down s"
  "connection_active (notifyConnectionState b s) = b"
  by (simp_all add: notifyConnectionState_def)

lemma close_frame [simp]:
  "connects (closeSocket s) = connects s" "arrivals (closeSocket s) = arrivals s"
  "sleeps (closeSocket s) = sleeps s" "dispatched (closeSocket s) = dispatched s"
  "tcp_running (closeSocket s) = tcp_running s" "\<not> socket_open (closeSocket s)"
  "tcp_shutting_down (closeSocket s) = tcp_shutting_down s"
  by (simp_all add: closeSocket_def)

lemma tcp_connect_left:
  "tcp_connect c s = (Some ok, s') \<Longrightarrow>
     socket_open s \<and> s' = s \<and> ok
     \<or> \<not> socket_open s \<and> length (connects s') < length (connects s) \<and> sleeps s' = sleeps s
         \<and> net_size (arrivals s') \<le> net_size (arrivals s)"
  by (auto simp add: tcp_connect_def openConnection_def same_link_def split: if_splits list.splits prod.splits option.splits
      dest!: onConnected_frame)

lemma sleep_left:
  "sleepInterruptibly s = (Some e, s') \<Longrightarrow> length (sleeps s') < length (sleeps s)
     \<and> connects s' = connects s \<and> arrivals s' = arrivals s"
  by (auto simp add: sleepInterruptibly_def split: list.splits)

lemma tcp_turn_left:
  assumes "tcp_turn c n s = (Some True, s')"
  shows "tcp_left s' < tcp_left s"
proof -
  obtain ok s1 where c: "tcp_connect c s = (Some ok, s1)"
    using assms by (auto simp add: tcp_turn_def split: prod.splits option.splits)
  note l = tcp_connect_left [OF c]
  show ?thesis
  proof (cases ok)
    case False
    with assms c l show ?thesis
      by (auto simp add: tcp_turn_def tcp_left_def split: if_splits dest: sleep_left)
  next
    case True
    obtain w s2 where w: "wait_recv n s1 = (w, s2)" by fastforce
    with wait_recv_frame [OF w] have f: "length (connects s2) = length (connects s1)" "sleeps s2 = sleeps s1"
      by (auto simp add: same_link_def)
    note z = wait_recv_size [of n s1, unfolded w]
    have t: "tcp_turn c n s = (case w of
        None \<Rightarrow> (None, s2)
      | Some Wait_failed \<Rightarrow> if \<not> tcp_running s2 \<or> tcp_shutting_down s2 then (Some False, s2) else pause s2
      | Some (Got bs) \<Rightarrow> (Some True, dispatchDataCallbacks bs s2)
      | Some Recv_again \<Rightarrow> (Some True, s2)
      | Some Eof \<Rightarrow> pause s2 | Some Recv_failed \<Rightarrow> pause s2)"
      using True c w by (simp add: tcp_turn_def split: option.splits)
    from assms t have "(\<exists>bs. s' = dispatchDataCallbacks bs s2 \<and> w = Some (Got bs)) \<or> s' = s2 \<and> w = Some Recv_again
        \<or> pause s2 = (Some True, s')"
      by (cases w) (auto split: recv_result.splits if_splits)
    then show ?thesis
      using l f z
      by (elim disjE exE conjE) (auto simp add: tcp_left_def dispatchDataCallbacks_def pause_def dest!: sleep_left)
  qed
qed

function readLoop :: "client \<Rightarrow> nat \<Rightarrow> tcp \<Rightarrow> unit call" where
  "readLoop c buf_size s =
     (if \<not> tcp_running s then (Some (), closeSocket s)
      else case tcp_turn c buf_size s of
        (None, s1) \<Rightarrow> (None, s1)
      | (Some go_on, s1) \<Rightarrow>
          if go_on then readLoop c buf_size s1 else (Some (), closeSocket s1))"
  by pat_completeness auto
termination
  by (relation "measure (\<lambda>(c, n, s). tcp_left s)") (auto dest!: tcp_turn_left [OF sym])

declare readLoop.simps [simp del]

section \<open>Reports of the connection state\<close>

text \<open>The callbacks are told up, down, up, down, ..., the last word being the state the client is in.\<close>

definition reports_ok :: "tcp \<Rightarrow> bool" where
  "reports_ok s \<longleftrightarrow> notified s = map even [0..<length (notified s)]
     \<and> (connection_active s \<longleftrightarrow> odd (length (notified s))) \<and> (connection_active s \<longrightarrow> socket_open s)"

lemma reports_same_link: "same_link s s' \<Longrightarrow> reports_ok s' \<longleftrightarrow> reports_ok s"
  by (simp add: reports_ok_def same_link_def)

lemma reports_notify: "reports_ok s \<Longrightarrow> socket_open s \<Longrightarrow> reports_ok (notifyConnectionState True s)"
  by (auto simp add: reports_ok_def notifyConnectionState_def)

lemma reports_close: "reports_ok s \<Longrightarrow> reports_ok (closeSocket s)"
  by (auto simp add: reports_ok_def notifyConnectionState_def closeSocket_def)

lemma reports_sleep: "sleepInterruptibly s = (e, s') \<Longrightarrow> reports_ok s \<Longrightarrow> reports_ok s'"
  by (auto simp add: sleepInterruptibly_def reports_ok_def split: list.splits)

lemma reports_dispatch: "reports_ok (dispatchDataCallbacks bs s) \<longleftrightarrow> reports_ok s"
  by (simp add: reports_ok_def dispatchDataCallbacks_def)

lemma reports_open: "openConnection s = (r, s') \<Longrightarrow> \<not> socket_open s \<Longrightarrow> reports_ok s \<Longrightarrow> reports_ok s'"
  by (auto simp add: openConnection_def reports_ok_def split: list.splits)

lemma openConnection_open: "openConnection s = (Some True, s') \<Longrightarrow> socket_open s'"
  by (auto simp add: openConnection_def split: list.splits)

lemma reports_connect: "tcp_connect c s = (r, s') \<Longrightarrow> reports_ok s \<Longrightarrow> reports_ok s'"
proof -
  assume c: "tcp_connect c s = (r, s')" and ok: "reports_ok s"
  show "reports_ok s'"
  proof (cases "socket_open s")
    case True
    with c ok show ?thesis by (simp add: tcp_connect_def)
  next
    case False
    obtain x s1 where x: "openConnection s = (x, s1)" by fastforce
    note ok1 = reports_open [OF x False ok]
    show ?thesis
    proof (cases "x = Some True")
      case True
      obtain y s2 where y: "onConnected c s1 = (y, s2)" by fastforce
      then have "same_link s1 s2" by (auto dest: onConnected_frame)
      then have "reports_ok s2" "socket_open s2"
        using ok1 openConnection_open x True by (auto simp add: reports_same_link) (simp add: same_link_def)
      with c False x y True show ?thesis
        by (auto simp add: tcp_connect_def reports_notify reports_close split: option.splits if_splits)
    next
      case not_up: False
      with c False x ok1 show ?thesis
        by (cases x) (auto simp add: tcp_connect_def)
    qed
  qed
qed

lemma reports_turn: "tcp_turn c n s = (r, s') \<Longrightarrow> reports_ok s \<Longrightarrow> reports_ok s'"
proof -
  assume t: "tcp_turn c n s = (r, s')" and ok: "reports_ok s"
  obtain x s1 where x: "tcp_connect c s = (x, s1)" by fastforce
  note ok1 = reports_connect [OF x ok]
  obtain w s2 where w: "wait_recv n s1 = (w, s2)" by fastforce
  have ok2: "reports_ok s2"
    using wait_recv_frame [OF w] ok1 reports_same_link by blast
  show "reports_ok s'"
  proof (cases "x = Some True")
    case True
    with t x w have "s' = s2 \<or> (\<exists>bs. s' = dispatchDataCallbacks bs s2) \<or> (\<exists>e. sleepInterruptibly (closeSocket s2) = (e, s'))"
      by (auto simp add: tcp_turn_def pause_def split: option.splits recv_result.splits if_splits)
    with ok2 show ?thesis
      by (auto simp add: reports_dispatch dest: reports_sleep reports_close)
  next
    case False
    with t x ok1 show ?thesis
      by (auto simp add: tcp_turn_def dest: reports_sleep split: option.splits if_splits)
  qed
qed

lemma readLoop_reports:
  "readLoop c n s = (r, s') \<Longrightarrow> reports_ok s \<Longrightarrow> reports_ok s' \<and> (r \<noteq> None \<longrightarrow> \<not> socket_open s')"
proof (induction c n s rule: readLoop.induct)
  case (1 c n s)
  obtain x s1 where x: "tcp_turn c n s = (x, s1)" by fastforce
  note ok1 = reports_turn [OF x "1.prems"(2)]
  show ?case
  proof (cases "tcp_running s \<and> x = Some True")
    case True
    with "1.IH" [OF _ x [symmetric]] ok1 "1.prems"(1) x show ?thesis
      by (auto simp add: readLoop.simps [of c n s])
  next
    case False
    with "1.prems" ok1 x show ?thesis
      by (auto simp add: readLoop.simps [of c n s] reports_close split: if_splits option.splits)
  qed
qed

section \<open>The client does not give up\<close>

definition persistent :: "tcp \<Rightarrow> bool" where
  "persistent s \<longleftrightarrow> tcp_running s \<and> \<not> tcp_shutting_down s \<and> Closing \<notin> set (arrivals s) \<and> False \<notin> set (sleeps s)"

lemma persistent_same_link:
  "same_link s s' \<Longrightarrow> persistent s \<Longrightarrow> set (arrivals s') \<subseteq> set (arrivals s) \<union> range Arrive \<Longrightarrow> tcp_running s'
     \<Longrightarrow> persistent s'"
  by (auto simp add: persistent_def same_link_def)

text \<open>Reading takes answers away; what it puts back is octets.\<close>

lemma wait_recv_arrivals:
  "wait_recv len s = (r, s') \<Longrightarrow> set (arrivals s') \<subseteq> set (arrivals s) \<union> range Arrive
     \<and> (Closing \<notin> set (arrivals s) \<longrightarrow> tcp_running s' = tcp_running s)"
  by (auto simp add: wait_recv_def split: list.splits net_event.splits if_splits)

lemma wait_recv_persistent: "wait_recv len s = (r, s') \<Longrightarrow> persistent s \<Longrightarrow> persistent s'"
  using wait_recv_arrivals [of len s r s'] wait_recv_frame [of len s r s']
  by (auto simp add: persistent_def same_link_def)

lemma readUntil_persistent: "readUntil d m buf s = (r, s') \<Longrightarrow> persistent s \<Longrightarrow> persistent s'"
proof (induction d m buf s rule: readUntil.induct)
  case (1 d m buf s)
  obtain w s1 where w: "wait_recv 1024 s = (w, s1)" by fastforce
  note p1 = wait_recv_persistent [OF w "1.prems"(2)]
  show ?case
  proof (cases "find_sub d buf \<noteq> None \<or> m \<le> length buf")
    case True
    with "1.prems" show ?thesis by (auto simp add: readUntil.simps [of d m buf s] split: if_splits)
  next
    case False
    with "1.prems"(1) "1.IH" w p1 show ?thesis
      by (auto simp add: readUntil.simps [of d m buf s] split: option.splits recv_result.splits)
  qed
qed

lemma persistent_frame:
  "persistent (dispatchDataCallbacks bs s) \<longleftrightarrow> persistent s" "persistent (closeSocket s) \<longleftrightarrow> persistent s"
  "persistent (notifyConnectionState b s) \<longleftrightarrow> persistent s"
  by (simp_all add: persistent_def dispatchDataCallbacks_def)

lemma writeAll_persistent: "writeAll data s = (ok, s') \<Longrightarrow> persistent s \<Longrightarrow> persistent s'"
  by (auto simp add: writeAll_def persistent_def Let_def split: prod.splits)

lemma parseResponse_persistent: "parseResponse resp s = (ok, s') \<Longrightarrow> persistent s \<Longrightarrow> persistent s'"
  by (auto simp add: parseResponse_def persistent_frame Let_def split: option.splits if_splits)

lemma onConnected_persistent: "onConnected c s = (r, s') \<Longrightarrow> persistent s \<Longrightarrow> persistent s'"
  by (auto simp add: onConnected_def Let_def split: if_splits prod.splits option.splits
      dest!: writeAll_persistent readUntil_persistent parseResponse_persistent)

lemma connect_persistent: "tcp_connect c s = (r, s') \<Longrightarrow> persistent s \<Longrightarrow> persistent s'"
  by (auto simp add: tcp_connect_def openConnection_def persistent_frame split: if_splits prod.splits option.splits list.splits
      dest!: onConnected_persistent) (auto simp add: persistent_def)

lemma sleep_persistent:
  "sleepInterruptibly s = (e, s') \<Longrightarrow> persistent s \<Longrightarrow> persistent s' \<and> e \<noteq> Some False"
  by (auto simp add: sleepInterruptibly_def persistent_def split: list.splits)

lemma turn_persistent: "tcp_turn c n s = (r, s') \<Longrightarrow> persistent s \<Longrightarrow> persistent s' \<and> r \<noteq> Some False"
proof -
  assume t: "tcp_turn c n s = (r, s')" and p: "persistent s"
  obtain x s1 where x: "tcp_connect c s = (x, s1)" by fastforce
  note p1 = connect_persistent [OF x p]
  obtain w s2 where w: "wait_recv n s1 = (w, s2)" by fastforce
  note p2 = wait_recv_persistent [OF w p1]
  have run: "tcp_running s1" "\<not> tcp_shutting_down s1" "tcp_running s2" "\<not> tcp_shutting_down s2"
    using p1 p2 by (simp_all add: persistent_def)
  show ?thesis
  proof (cases x)
    case None
    with t x p1 show ?thesis by (simp add: tcp_turn_def)
  next
    case (Some up)
    show ?thesis
    proof (cases up)
      case True
      with t x w Some run p2 show ?thesis
        by (cases w) (auto simp add: tcp_turn_def pause_def persistent_frame
            dest: sleep_persistent split: recv_result.splits)
    next
      case False
      with t x Some run p1 show ?thesis
        by (auto simp add: tcp_turn_def dest: sleep_persistent)
    qed
  qed
qed

lemma readLoop_persistent: "persistent s \<Longrightarrow> fst (readLoop c n s) = None"
proof (induction c n s rule: readLoop.induct)
  case (1 c n s)
  obtain x s1 where x: "tcp_turn c n s = (x, s1)" by fastforce
  note p = turn_persistent [OF x "1.prems"]
  have run: "tcp_running s" using "1.prems" by (simp add: persistent_def)
  show ?case
  proof (cases x)
    case None
    with x run show ?thesis by (simp add: readLoop.simps [of c n s])
  next
    case (Some go_on)
    with p have go_on: "go_on" by simp
    with "1.IH" [of "Some go_on" s1 go_on] x run p Some show ?thesis
      by (simp add: readLoop.simps [of c n s])
  qed
qed

end
