(* ===== verification/Ntrip_Stream.thy ===== *)
theory Ntrip_Stream
  imports Tcp_Client Rtcm_Stream
begin

text \<open>
  From the caster to the RTCM monitor: the connection of \<open>NtripClient\<close>, the handshake that may have read
  into the stream already, and the frames that \<open>logRtcmFrames\<close> cuts out of what the callbacks get.
\<close>

section \<open>A network that only delivers\<close>

definition quiet_net :: "net_event list \<Rightarrow> bool" where
  "quiet_net evs \<longleftrightarrow> list_all (\<lambda>e. case e of Arrive bs \<Rightarrow> bs \<noteq> [] | Later \<Rightarrow> True | _ \<Rightarrow> False) evs"

fun net_octets :: "net_event list \<Rightarrow> bytes" where
  "net_octets [] = []"
| "net_octets (Arrive bs # evs) = bs @ net_octets evs"
| "net_octets (e # evs) = net_octets evs"

lemma quiet_net_simps [simp]:
  "quiet_net []" "quiet_net (Arrive bs # evs) \<longleftrightarrow> bs \<noteq> [] \<and> quiet_net evs" "quiet_net (Later # evs) \<longleftrightarrow> quiet_net evs"
  "\<not> quiet_net (Lost # evs)" "\<not> quiet_net (Closing # evs)" "\<not> quiet_net (Recv_error # evs)"
  by (simp_all add: quiet_net_def)

lemma wait_recv_quiet:
  assumes "wait_recv len s = (r, s')" and "quiet_net (arrivals s)" and "socket_open s" and "0 < len"
  shows "quiet_net (arrivals s') \<and> tcp_running s' = tcp_running s \<and>
    (case r of
       None \<Rightarrow> s' = s \<and> net_octets (arrivals s) = []
     | Some (Got bs) \<Rightarrow> net_octets (arrivals s) = bs @ net_octets (arrivals s')
     | Some Recv_again \<Rightarrow> net_octets (arrivals s) = net_octets (arrivals s')
     | Some _ \<Rightarrow> False)"
  using assms
  by (auto simp add: wait_recv_def split: list.splits net_event.splits if_splits)

lemma find_sub_front:
  assumes "find_sub d (b @ x) = Some i" and "i + length d \<le> length b"
  shows "find_sub d b = Some i"
proof (cases "find_sub d b")
  case None
  have "starts_with (drop i b) d"
    using find_sub_Some [OF assms(1)] assms(2) by (simp add: starts_with_def)
  moreover have "d \<noteq> []"
    using None by (cases b) (auto simp add: starts_with_def)
  ultimately show ?thesis using find_sub_None [OF _ None] by blast
next
  case (Some j)
  with find_sub_append [OF this, of x] assms(1) show ?thesis by simp
qed

lemma readUntil_finds:
  assumes "find_sub d (buf @ net_octets (arrivals s)) = Some i" and "i + length d \<le> m"
    and "quiet_net (arrivals s)" and "socket_open s"
  shows "\<exists>buf' s'. readUntil d m buf s = (Some (True, buf'), s') \<and> find_sub d buf' = Some i
    \<and> buf' @ net_octets (arrivals s') = buf @ net_octets (arrivals s)
    \<and> quiet_net (arrivals s') \<and> tcp_running s' = tcp_running s"
  using assms
proof (induction d m buf s rule: readUntil.induct)
  case (1 d m buf s)
  show ?case
  proof (cases "find_sub d buf")
    case (Some j)
    then have "find_sub d (buf @ net_octets (arrivals s)) = Some j" by (rule find_sub_append)
    with "1.prems" Some show ?thesis by (auto simp add: readUntil.simps [of d m buf s])
  next
    case None
    with find_sub_front [OF "1.prems"(1)] have l: "length buf < i + length d" by fastforce
    then have short: "\<not> m \<le> length buf" using "1.prems"(2) by simp
    obtain w s1 where w: "wait_recv 1024 s = (w, s1)" by fastforce
    note q = wait_recv_quiet [OF w "1.prems"(3,4)]
    have open1: "socket_open s1" using wait_recv_frame [OF w] "1.prems"(4) by (simp add: same_link_def)
    show ?thesis
    proof (cases w)
      case None
      with q \<open>find_sub d buf = None\<close> "1.prems"(1) show ?thesis by simp
    next
      case (Some r)
      then consider (got) bs where "r = Got bs" | (again) "r = Recv_again" using q by (cases r) auto
      then show ?thesis
      proof cases
        case got
        have "readUntil d m buf s = readUntil d m (buf @ bs) s1"
          using None short w Some got by (simp add: readUntil.simps [of d m buf s])
        with "1.IH"(1) [OF _ short w [symmetric] Some got] None q Some got "1.prems"(1,2) open1 show ?thesis
          by simp
      next
        case again
        have "readUntil d m buf s = readUntil d m buf s1"
          using None short w Some again by (simp add: readUntil.simps [of d m buf s])
        with "1.IH"(2) [OF _ short w [symmetric] Some again] None q Some again "1.prems"(1,2) open1 show ?thesis
          by simp
      qed
    qed
  qed
qed

section \<open>Connected\<close>

lemma readLoop_connected:
  assumes "socket_open s" and "tcp_running s" and "quiet_net (arrivals s)" and "0 < n"
  shows "fst (readLoop c n s) = None
    \<and> concat (dispatched (snd (readLoop c n s))) = concat (dispatched s) @ net_octets (arrivals s)
    \<and> notified (snd (readLoop c n s)) = notified s"
  using assms
proof (induction c n s rule: readLoop.induct)
  case (1 c n s)
  obtain w s1 where w: "wait_recv n s = (w, s1)" by fastforce
  note q = wait_recv_quiet [OF w "1.prems"(3,1,4)]
  have f: "socket_open s1" "notified s1 = notified s" "dispatched s1 = dispatched s"
    using wait_recv_frame [OF w] "1.prems"(1) by (simp_all add: same_link_def)
  have con: "tcp_connect c s = (Some True, s)" using "1.prems"(1) by (simp add: tcp_connect_def)
  show ?case
  proof (cases w)
    case None
    with q w con "1.prems"(2) show ?thesis
      by (simp add: readLoop.simps [of c n s] tcp_turn_def)
  next
    case (Some r)
    then consider (got) bs where "r = Got bs" | (again) "r = Recv_again" using q by (cases r) auto
    then show ?thesis
    proof cases
      case got
      let ?s = "dispatchDataCallbacks bs s1"
      have t: "tcp_turn c n s = (Some True, ?s)" using con w Some got by (simp add: tcp_turn_def)
      then have "readLoop c n s = readLoop c n ?s"
        using "1.prems"(2) by (simp add: readLoop.simps [of c n s])
      with "1.IH" [OF _ t [symmetric] refl TrueI] q f Some got "1.prems"(2,4) show ?thesis
        by (simp add: dispatchDataCallbacks_def)
    next
      case again
      have t: "tcp_turn c n s = (Some True, s1)" using con w Some again by (simp add: tcp_turn_def)
      then have "readLoop c n s = readLoop c n s1"
        using "1.prems"(2) by (simp add: readLoop.simps [of c n s])
      with "1.IH" [OF _ t [symmetric] refl TrueI] q f Some again "1.prems"(2,4) show ?thesis by simp
    qed
  qed
qed

lemma readLoop_connect:
  assumes "tcp_connect c s = (Some True, s1)" and "socket_open s1" and "tcp_running s" and "tcp_running s1"
  shows "readLoop c n s = readLoop c n s1"
proof -
  have "tcp_connect c s1 = (Some True, s1)" using assms(2) by (simp add: tcp_connect_def)
  with assms(1) have "tcp_turn c n s = tcp_turn c n s1" by (simp add: tcp_turn_def)
  with assms(3,4) show ?thesis by (simp add: readLoop.simps [of c n s] readLoop.simps [of c n s1])
qed

section \<open>A session with the caster\<close>

text \<open>
  The client is started, the first connection attempt reaches an address, the request is written, and the
  caster's octets arrive in any pieces.
\<close>

definition startReading :: "tcp \<Rightarrow> tcp" where
  "startReading s = (if tcp_running s then s else s\<lparr>tcp_running := True\<rparr>)"

definition session :: "bool list \<Rightarrow> write_event list \<Rightarrow> net_event list \<Rightarrow> tcp" where
  "session addresses ws evs = startReading (tcp_init [addresses] [ws] evs [])"

text \<open>What the caster sends: an accepted header of at most 8192 octets, then the stream.\<close>

definition caster_stream :: "bytes \<Rightarrow> nat \<Rightarrow> bool" where
  "caster_stream stream i \<longleftrightarrow>
     find_sub CRLF2 stream = Some i \<and> i + 4 \<le> kMaxNtripHeaderBytes \<and> status_accepted (take i stream)"

lemma onConnected_caster:
  assumes "caster_stream (net_octets (arrivals s)) i" and "quiet_net (arrivals s)" and "socket_open s"
    and "fst (writeAll (request (Ntrip mount user pass)) s)" and "dispatched s = []"
  shows "\<exists>s'. onConnected (Ntrip mount user pass) s = (Some True, s')
    \<and> concat (dispatched s') @ net_octets (arrivals s') = drop (i + 4) (net_octets (arrivals s))
    \<and> quiet_net (arrivals s') \<and> socket_open s' \<and> tcp_running s' = tcp_running s \<and> notified s' = notified s
    \<and> connection_active s' = connection_active s"
proof -
  let ?c = "Ntrip mount user pass" and ?o = "net_octets (arrivals s)"
  obtain s1 where w: "writeAll (request ?c) s = (True, s1)" using assms(4) by (cases "writeAll (request ?c) s") auto
  have f1: "same_link s s1" "arrivals s1 = arrivals s" "dispatched s1 = []" "tcp_running s1 = tcp_running s"
    using writeAll_frame [OF w] w assms(5) by (auto simp add: writeAll_def Let_def split: prod.splits)
  have h: "find_sub CRLF2 ([] @ net_octets (arrivals s1)) = Some i" "i + length CRLF2 \<le> kMaxNtripHeaderBytes"
    using assms(1) f1(2) by (simp_all add: caster_stream_def CRLF2_def)
  have o1: "socket_open s1" using f1(1) assms(3) by (simp add: same_link_def)
  obtain resp s2 where u: "readUntil CRLF2 kMaxNtripHeaderBytes [] s1 = (Some (True, resp), s2)"
    "find_sub CRLF2 resp = Some i" "resp @ net_octets (arrivals s2) = ?o" "quiet_net (arrivals s2)"
    "tcp_running s2 = tcp_running s"
    using readUntil_finds [OF h _ o1] assms(2) f1(2,4) by auto
  have f2: "same_link s s2" "dispatched s2 = []"
    using readUntil_frame [OF u(1)] f1 same_link_trans by auto
  have i: "i + 4 \<le> length resp" using find_sub_Some [OF u(2)] by (simp add: CRLF2_def)
  then have "take i resp = take i ?o" and d: "drop (i + 4) resp @ net_octets (arrivals s2) = drop (i + 4) ?o"
    by (simp_all flip: u(3))
  then have p: "parseResponse resp s2 =
      (True, if drop (i + 4) resp \<noteq> [] then dispatchDataCallbacks (drop (i + 4) resp) s2 else s2)"
    using assms(1) u(2) by (simp add: parseResponse_def header_end_def caster_stream_def Let_def)
  then have c: "onConnected ?c s =
      (Some True, if drop (i + 4) resp \<noteq> [] then dispatchDataCallbacks (drop (i + 4) resp) s2 else s2)"
    using w u(1) by (simp add: onConnected_def)
  show ?thesis
    using c d u(4,5) f2 assms(3)
    by (intro exI [of _ "if drop (i + 4) resp \<noteq> [] then dispatchDataCallbacks (drop (i + 4) resp) s2 else s2"])
      (auto simp add: dispatchDataCallbacks_def same_link_def)
qed

lemma session_result:
  assumes "caster_stream (net_octets evs) i" and "quiet_net evs" and "try_addresses addresses"
    and "fst (write_all (request (Ntrip mount user pass)) ws)" and "0 < n"
  defines "r \<equiv> readLoop (Ntrip mount user pass) n (session addresses ws evs)"
  shows "fst r = None \<and> concat (dispatched (snd r)) = drop (i + 4) (net_octets evs) \<and> notified (snd r) = [True]"
proof -
  let ?c = "Ntrip mount user pass" and ?s = "session addresses ws evs"
  let ?up = "?s\<lparr>connects := [], socket_open := True\<rparr>"
  have o: "openConnection ?s = (Some True, ?up)" and s: "\<not> socket_open ?s" "tcp_running ?s"
    using assms(3) by (simp_all add: openConnection_def session_def startReading_def tcp_init_def)
  have "fst (writeAll (request ?c) ?up)"
    using assms(4) by (auto simp add: writeAll_def session_def startReading_def tcp_init_def Let_def split: prod.splits)
  moreover have "caster_stream (net_octets (arrivals ?up)) i" "quiet_net (arrivals ?up)" "dispatched ?up = []"
    using assms(1,2) by (simp_all add: session_def startReading_def tcp_init_def)
  ultimately obtain s1 where s1: "onConnected ?c ?up = (Some True, s1)"
    "concat (dispatched s1) @ net_octets (arrivals s1) = drop (i + 4) (net_octets evs)"
    "quiet_net (arrivals s1)" "socket_open s1" "tcp_running s1" "notified s1 = []" "\<not> connection_active s1"
    using onConnected_caster [of ?up i mount user pass] by (auto simp add: session_def startReading_def tcp_init_def)
  let ?s1 = "notifyConnectionState True s1"
  have "tcp_connect ?c ?s = (Some True, ?s1)"
    using o s s1(1) by (simp add: tcp_connect_def)
  then have "r = readLoop ?c n ?s1"
    using s s1(4,5) by (simp add: r_def readLoop_connect)
  with readLoop_connected [of ?s1 n ?c] s1 assms(5) show ?thesis
    by (simp add: notifyConnectionState_def)
qed

text \<open>
  From the caster to the monitor nothing is lost and nothing is added: whatever pieces the answer
  to the request and the correction stream arrive in, and however far the handshake read into the stream, the
  callbacks get exactly the octets behind the header, in order, so that the monitor publishes the frames of
  that stream.  The connection is reported once and stays up.
\<close>

lemma ntrip_stream_complete:
  assumes "caster_stream (net_octets evs) i" and "quiet_net evs" and "try_addresses addresses"
    and "fst (write_all (request (Ntrip mount user pass)) ws)" and "0 < n"
    and "readLoop (Ntrip mount user pass) n (session addresses ws evs) = (r, s')"
  shows "r = None \<and> notified s' = [True] \<and> concat (dispatched s') = drop (i + 4) (net_octets evs)
    \<and> rtcm_same (logRtcmChunks m (dispatched s')) (logRtcmFrames m (drop (i + 4) (net_octets evs)))"
  using session_result [OF assms(1-5)] assms(6) rtcm_chunks_same [of m "dispatched s'"] by simp

definition caster_evs :: "net_event list" where
  "caster_evs = [Arrive (octets_of ''ICY 200 OK'' @ [0x0D]), Later, Arrive [0x0A, 0x0D, 0x0A, 0xD3, 0x00],
     Arrive [0x13, 0x3E]]"

lemma caster_evs_stream: "caster_stream (net_octets caster_evs) 10"
proof -
  have "find_sub CRLF2 (net_octets caster_evs) = Some 10" by code_simp
  moreover have "status_accepted (take 10 (net_octets caster_evs))" by code_simp
  ultimately show ?thesis by (simp add: caster_stream_def kMaxNtripHeaderBytes_def)
qed

lemma ntrip_stream_complete_witness:
  "concat (dispatched (snd (readLoop (Ntrip ''RTCM'' ''u'' ''p'') 1024 (session [False, True] [Accept 1000] caster_evs))))
     = [0xD3, 0x00, 0x13, 0x3E]"
proof -
  have "length (request (Ntrip ''RTCM'' ''u'' ''p'')) \<le> 1000" by (simp add: buildRequest_def CRLF_def octets_of_def Base64Encode_rfc4648)
  then have "fst (write_all (request (Ntrip ''RTCM'' ''u'' ''p'')) [Accept 1000])"
    by (rule write_all_at_once) simp
  moreover have "quiet_net caster_evs" by (simp add: caster_evs_def)
  ultimately show ?thesis
    using ntrip_stream_complete [OF caster_evs_stream, of "[False, True]" "''RTCM''" "''u''" "''p''" "[Accept 1000]" 1024,
        OF _ _ _ _ surjective_pairing]
    by (simp add: caster_evs_def octets_of_def)
qed

text \<open>
  Claim C27.  Once started, the client neither gives up nor misreports: as long as it is not closed and its
  sleeps are not broken off, the reading loop never returns, whatever addresses fail, handshakes are refused
  and connections are lost; and at every moment the callbacks have been told up, down, up, down, ..., the
  last report being the state the client is in.
\<close>

theorem tcp_client_persistent:
  assumes "Closing \<notin> set evs" and "False \<notin> set zs"
    and "readLoop c n (startReading (tcp_init cs ws evs zs)) = (r, s')"
  shows "r = None \<and> notified s' = map even [0..<length (notified s')]
    \<and> (connection_active s' \<longleftrightarrow> odd (length (notified s'))) \<and> (connection_active s' \<longrightarrow> socket_open s')"
proof -
  let ?s = "startReading (tcp_init cs ws evs zs)"
  have "persistent ?s" using assms(1,2) by (simp add: persistent_def startReading_def tcp_init_def)
  then have "r = None" using readLoop_persistent [of ?s c n] assms(3) by simp
  moreover have "reports_ok ?s" by (simp add: reports_ok_def startReading_def tcp_init_def)
  then have "reports_ok s'" using readLoop_reports [OF assms(3)] by simp
  ultimately show ?thesis by (simp add: reports_ok_def)
qed

theorem tcp_client_persistent_witness:
  "fst (readLoop Loopback 64 (startReading (tcp_init [[False], [True], [True]] [] [Arrive [1], Lost, Arrive []] [True, True, True])))
     = None"
  using tcp_client_persistent [of "[Arrive [1], Lost, Arrive []]" "[True, True, True]" Loopback 64
      "[[False], [True], [True]]" "[]", OF _ _ surjective_pairing] by simp

end
