(* ===== verification/Cxx_Float.thy ===== *)
theory Cxx_Float
  imports Complex_Main Float64 Cxx_Text
begin

text \<open>
  Doubles as text: what the streams and \<open>printf\<close> print in fixed notation, and how close it is to the double.
\<close>

section \<open>Numbers in text\<close>

definition dec_int :: "int \<Rightarrow> string" where
  "dec_int n = (if n < 0 then CHR ''-'' # dec (nat (- n)) else dec (nat n))"

definition dec_point :: "nat \<Rightarrow> nat \<Rightarrow> string" where
  "dec_point p n = dec (n div 10 ^ p) @ CHR ''.'' # setw p CHR ''0'' (dec (n mod 10 ^ p))"

text \<open>
  The insertion of a double after \<open>std::fixed\<close> and \<open>std::setprecision(p)\<close>, \<open>p > 0\<close>: the exact value,
  rounded to even.  (The sign of a zero and of a NaN, which the library would print, is not in the model.)
\<close>

fun fixed :: "nat \<Rightarrow> f64 \<Rightarrow> string" where
  "fixed p (Fin m e) =
     (let n = nat (if 0 \<le> e then \<bar>m\<bar> * 2 ^ nat e * 10 ^ p else rne (\<bar>m\<bar> * 10 ^ p) (nat (- e)))
      in (if m < 0 then [CHR ''-''] else []) @ dec_point p n)"
| "fixed p (Inf neg) = (if neg then ''-inf'' else ''inf'')"
| "fixed p NaN = ''nan''"

fun fabs64 :: "f64 \<Rightarrow> f64" where
  "fabs64 (Fin m e) = Fin \<bar>m\<bar> e"
| "fabs64 (Inf neg) = Inf False"
| "fabs64 NaN = NaN"

section \<open>The double as a real number\<close>

definition f64_real :: "f64 \<Rightarrow> real" where
  "f64_real x = (case x of Fin m e \<Rightarrow> of_int m * 2 powi e | _ \<Rightarrow> 0)"

lemma rne_real: "\<bar>real_of_int (rne m k) - of_int m / 2 ^ k\<bar> \<le> 1 / 2"
proof -
  define p :: int where "p = 2 ^ k"
  have p: "0 < real_of_int p" "0 < p" by (simp_all add: p_def)
  let ?q = "m div p" and ?r = "m mod p"
  have "real_of_int m / of_int p = of_int ?q + of_int ?r / of_int p"
    by (rule of_int_div_aux)
  moreover have "0 \<le> real_of_int ?r / of_int p" "real_of_int ?r / of_int p < 1"
    using p by simp_all
  moreover have "2 * ?r > p \<longleftrightarrow> real_of_int ?r / of_int p > 1 / 2"
    using p of_int_less_iff [of p "2 * ?r", where 'a = real] by (simp add: field_simps)
  moreover have "2 * ?r = p \<longleftrightarrow> real_of_int ?r / of_int p = 1 / 2"
    using p of_int_eq_iff [of p "2 * ?r", where 'a = real] by (auto simp add: field_simps)
  moreover have "rne m k = (if 2 * ?r > p \<or> (2 * ?r = p \<and> odd ?q) then ?q + 1 else ?q)"
    by (simp add: rne_def p_def Let_def)
  moreover have "real_of_int m / 2 ^ k = real_of_int m / of_int p" by (simp add: p_def)
  ultimately show ?thesis by (auto simp add: abs_le_iff)
qed

lemma rne_nonneg: "0 \<le> m \<Longrightarrow> 0 \<le> rne m k"
  by (simp add: rne_def Let_def pos_imp_zdiv_nonneg_iff)

lemma two_powi: "(2 :: real) powi e = (if 0 \<le> e then 2 ^ nat e else 1 / 2 ^ nat (- e))"
  by (simp add: power_int_def inverse_eq_divide power_one_over)

lemma two_powi_add: "(2 :: real) powi (a + b) = 2 powi a * 2 powi b"
  by (simp add: power_int_add)

text \<open>The rounding of \<open>f64_of\<close> is off by at most half a unit in the last place.\<close>

lemma f64_of_real:
  assumes "0 \<le> m" and "max (e + int (blen m) - 53) (- 1074) \<le> u" and "u \<le> 970"
  shows "\<exists>q e'. f64_of m e = Fin q e' \<and> 0 \<le> q \<and> \<bar>of_int q * 2 powi e' - of_int m * 2 powi e\<bar> \<le> (2 :: real) powi (u - 1)"
proof (cases "m = 0")
  case False
  define e1 where "e1 = max (e + int (blen \<bar>m\<bar>) - 53) (- 1074)"
  define q where "q = (if e1 \<le> e then m * 2 ^ nat (e - e1) else rne m (nat (e1 - e)))"
  have e1: "e1 \<le> u" "e1 \<le> 970" and q0: "0 \<le> q"
    using assms by (simp_all add: e1_def q_def rne_nonneg)
  have f: "f64_of m e = f64_pack (m < 0) q e1"
    using False by (simp add: f64_of_def Let_def q_def e1_def)
  have "\<bar>of_int q * 2 powi e1 - of_int m * 2 powi e\<bar> \<le> (2 :: real) powi (e1 - 1)"
  proof (cases "e1 \<le> e")
    case True
    then have "(2 :: real) powi e = 2 ^ nat (e - e1) * 2 powi e1"
      using two_powi_add [of "e - e1" e1] by (simp add: two_powi [of "e - e1"])
    with True show ?thesis by (simp add: q_def)
  next
    case lt: False
    define k where "k = nat (e1 - e)"
    have "(2 :: real) powi e = 2 powi e1 / 2 ^ k"
      using two_powi_add [of e "e1 - e"] lt by (simp add: two_powi [of "e1 - e"] k_def)
    then have "of_int q * 2 powi e1 - of_int m * 2 powi e = (of_int (rne m k) - of_int m / 2 ^ k) * (2 :: real) powi e1"
      using lt by (simp add: q_def k_def algebra_simps)
    also have "\<bar>\<dots>\<bar> \<le> 1 / 2 * 2 powi e1"
      unfolding abs_mult using rne_real [of m k] by (intro mult_mono) simp_all
    also have "\<dots> = 2 powi (e1 - 1)" using two_powi_add [of "e1 - 1" 1] by simp
    finally show ?thesis .
  qed
  also have "(2 :: real) powi (e1 - 1) \<le> 2 powi (u - 1)" using e1(1) by (simp add: power_int_increasing)
  finally have b: "\<bar>of_int q * 2 powi e1 - of_int m * 2 powi e\<bar> \<le> (2 :: real) powi (u - 1)" .
  consider (top) "q = 2 ^ 53" | (zero) "q = 0" | (in_range) "q \<noteq> 2 ^ 53" "q \<noteq> 0" by blast
  then show ?thesis
  proof cases
    case top
    with f e1(2) b show ?thesis
      using two_powi_add [of e1 1] by (simp add: f64_pack_def)
  next
    case zero
    with f b show ?thesis by (simp add: f64_pack_def)
  next
    case in_range
    with f e1(2) b q0 show ?thesis by (simp add: f64_pack_def)
  qed
qed simp

section \<open>The digits\<close>

text \<open>What a text in fixed notation denotes.\<close>

definition decimal_val :: "string \<Rightarrow> real" where
  "decimal_val s =
     (let a = takeWhile is_digit s; b = drop (Suc (length a)) s
      in real (digits_val a) + real (digits_val b) / 10 ^ length b)"

lemma fixed_real:
  assumes "0 \<le> q"
  shows "\<exists>n. fixed p (Fin q e) = dec_point p n \<and> \<bar>real n / 10 ^ p - of_int q * 2 powi e\<bar> \<le> 1 / 2 / 10 ^ p"
proof (cases "0 \<le> e")
  case True
  with assms show ?thesis by (intro exI [of _ "nat (q * 2 ^ nat e * 10 ^ p)"]) (simp add: two_powi)
next
  case False
  define n where "n = rne (q * 10 ^ p) (nat (- e))"
  have n: "0 \<le> n" using assms by (simp add: n_def rne_nonneg)
  have "\<bar>real_of_int n - of_int (q * 10 ^ p) / 2 ^ nat (- e)\<bar> \<le> 1 / 2"
    unfolding n_def by (rule rne_real)
  then have "\<bar>(real_of_int n - of_int (q * 10 ^ p) / 2 ^ nat (- e)) / 10 ^ p\<bar> \<le> 1 / 2 / 10 ^ p"
    unfolding abs_divide by (simp add: divide_right_mono del: divide_divide_eq_left)
  moreover have "(real_of_int n - of_int (q * 10 ^ p) / 2 ^ nat (- e)) / 10 ^ p = real (nat n) / 10 ^ p - of_int q * 2 powi e"
    using n False by (simp add: two_powi diff_divide_distrib)
  ultimately have "\<bar>real (nat n) / 10 ^ p - of_int q * 2 powi e\<bar> \<le> 1 / 2 / 10 ^ p" by (simp only:)
  then show ?thesis
    using False assms by (intro exI [of _ "nat n"] conjI) (simp_all add: n_def)
qed

lemma length_dec: "n < 10 ^ k \<Longrightarrow> 0 < k \<Longrightarrow> length (dec n) \<le> k"
proof (induction n arbitrary: k rule: dec_digits.induct)
  case (1 n)
  show ?case
  proof (cases "n < 10")
    case False
    with "1.prems" obtain j where k: "k = Suc j" "0 < j" by (cases k; cases "k - 1") auto
    have "length (dec (n div 10)) \<le> j" using "1.IH" [OF False, of j] "1.prems" k by simp
    with False k show ?thesis by (simp add: dec_def dec_digits.simps [of n])
  qed (use "1.prems" in \<open>simp add: dec_def dec_digits.simps [of n]\<close>)
qed

lemma setw_digits: "digits_val (setw k CHR ''0'' s) = digits_val s"
  by (simp add: setw_def digits_val_zeros)

lemma length_setw: "length s \<le> k \<Longrightarrow> length (setw k c s) = k"
  by (simp add: setw_def)

lemma setw_append: "\<exists>j. setw k c (s @ t) = replicate j c @ s @ t"
  by (auto simp add: setw_def)

lemma decimal_val_point: "0 < p \<Longrightarrow> decimal_val (setw k CHR ''0'' (dec_point p n)) = real n / 10 ^ p"
proof -
  assume p: "0 < p"
  let ?a = "dec (n div 10 ^ p)" and ?b = "setw p CHR ''0'' (dec (n mod 10 ^ p))"
  obtain j where j: "setw k CHR ''0'' (dec_point p n) = (replicate j CHR ''0'' @ ?a) @ CHR ''.'' # ?b"
    using setw_append [of k "CHR ''0''" ?a "CHR ''.'' # ?b"] by (auto simp add: dec_point_def)
  have dig: "\<forall>c \<in> set (replicate j CHR ''0'' @ ?a). is_digit c" "\<not> is_digit CHR ''.''"
    by (auto simp add: dec_all_digits) (simp_all add: is_digit_def)
  have l: "length ?b = p" by (rule length_setw) (rule length_dec, simp_all add: p)
  have "takeWhile is_digit ((replicate j CHR ''0'' @ ?a) @ CHR ''.'' # ?b) = replicate j CHR ''0'' @ ?a"
    using dig by (subst takeWhile_append2) auto
  then have "decimal_val (setw k CHR ''0'' (dec_point p n))
      = real (digits_val (replicate j CHR ''0'' @ ?a)) + real (digits_val ?b) / 10 ^ length ?b"
    by (simp add: j decimal_val_def Let_def)
  also have "\<dots> = real (n div 10 ^ p) + real (n mod 10 ^ p) / 10 ^ p"
    by (simp only: digits_val_zeros digits_val_dec setw_digits l)
  also have "\<dots> = real n / 10 ^ p"
  proof -
    define d :: nat where "d = 10 ^ p"
    have "real n = real (n div d * d + n mod d)" by simp
    also have "\<dots> = real (n div d) * d + real (n mod d)" by (simp only: of_nat_add of_nat_mult)
    finally have "real n / real d = real (n div d) + real (n mod d) / real d"
      by (simp add: d_def add_divide_distrib)
    then show ?thesis by (simp add: d_def)
  qed
  finally show ?thesis .
qed

section \<open>Reading a decimal back\<close>

lemma fixed_sign: "fixed p (Fin m e) = (if m < 0 then [CHR ''-''] else []) @ fixed p (Fin \<bar>m\<bar> e)"
  by (simp add: Let_def)

lemma rne_bounds: "m div 2 ^ k \<le> rne m k \<and> rne m k \<le> m div 2 ^ k + 1"
  by (simp add: rne_def Let_def)

text \<open>A number of at least 53 digits keeps 53 of them.\<close>

lemma f64_of_normal:
  assumes "2 ^ 53 \<le> m" and "- 1074 \<le> e" and "f64_of m e = Fin q e'"
  shows "2 ^ 52 \<le> q"
proof -
  define b where "b = blen m"
  have m0: "0 < m" using assms(1) by (simp add: less_le_trans)
  have b: "54 \<le> b" using blen_le_iff [of m 53] m0 assms(1) by (simp add: b_def not_le)
  define k where "k = b - 53"
  have e1: "max (e + int b - 53) (- 1074) = e + int k" "\<not> e + int k \<le> e" using b assms(2) by (simp_all add: k_def)
  have mb: "2 ^ (52 + k) \<le> m" "m < 2 ^ (53 + k)"
    using blen_ge [OF m0] blen_le_iff [of m b] m0 b by (simp_all add: b_def k_def flip: b_def)
  have "2 ^ 52 * 2 ^ k \<le> m" using mb(1) by (simp add: power_add)
  then have "2 ^ 52 \<le> m div 2 ^ k"
    using zdiv_mono1 [of "2 ^ 52 * 2 ^ k" m "2 ^ k"] by simp
  then have r: "2 ^ 52 \<le> rne m k" using rne_bounds [of m k] by linarith
  have "f64_of m e = f64_pack False (rne m k) (e + int k)"
    using m0 e1 by (simp add: f64_of_def Let_def flip: b_def)
  with assms(3) r show ?thesis
    by (auto simp add: f64_pack_def Let_def split: if_splits)
qed

lemma abs_div_pow: "\<bar>x\<bar> \<le> 1 \<Longrightarrow> \<bar>x / 2 ^ k :: real\<bar> \<le> 1 / 2 ^ k"
  by (simp add: abs_divide divide_right_mono)

lemma f64_dec_milli:
  assumes "n < 10 ^ 12"
  shows "\<exists>q e. f64_dec (int n) (- 3) = Fin q e \<and> (n = 0 \<and> q = 0 \<and> e = 0 \<or> 2 ^ 52 \<le> q)
    \<and> \<bar>of_int q * 2 powi e - real n / 1000\<bar> \<le> 1 / 1000000"
proof (cases "n = 0")
  case True
  then show ?thesis by (simp add: f64_dec_def)
next
  case False
  define N :: int where "N = int n * 2 ^ 70"
  define M where "M = 2 * (N div 1000) + (if N mod 1000 = 0 then 0 else 1)"
  have "blen 1000 = 10" by code_simp
  then have d: "f64_dec (int n) (- 3) = f64_of M (- 71)"
    by (simp add: f64_dec_def Let_def M_def N_def)
  have "2 ^ 70 \<le> N" "N < 10 ^ 12 * 2 ^ 70" using False assms by (simp_all add: N_def)
  note N = this
  define D where "D = N div 1000"
  define R where "R = N mod 1000"
  have R: "N = 1000 * D + R" "0 \<le> R" "R < 1000" by (simp_all add: D_def R_def)
  have "1000 * 2 ^ 60 + 1000 \<le> (2 :: int) ^ 70" "10 ^ 12 * 2 ^ 70 \<le> 1000 * (2 :: int) ^ 101" by simp_all
  with N R have D: "2 ^ 60 \<le> D" "D < 2 ^ 101" by linarith+
  have MD: "M = 2 * D \<or> M = 2 * D + 1" by (simp add: M_def D_def)
  moreover have "(2 :: int) ^ 53 \<le> 2 * 2 ^ 60" "2 * 2 ^ 101 + 1 \<le> (2 :: int) ^ 103" by simp_all
  ultimately have M: "2 ^ 53 \<le> M" "M < 2 ^ 103" using D by linarith+
  have b: "blen M \<le> 103" using blen_le_iff [of M 103] M by simp
  obtain q e where q: "f64_of M (- 71) = Fin q e" "0 \<le> q" "\<bar>of_int q * 2 powi e - of_int M * 2 powi - 71\<bar> \<le> (2 :: real) powi (- 21 - 1)"
    using f64_of_real [of M "- 71" "- 21"] M b by auto
  have "\<bar>real_of_int M / 2 - of_int N / 1000\<bar> \<le> 1"
  proof -
    have "real_of_int N = 1000 * of_int D + of_int R" by (simp add: R(1))
    moreover have "0 \<le> real_of_int R" "real_of_int R < 1000" using R(2,3) by simp_all
    moreover have "real_of_int M = 2 * of_int D \<or> real_of_int M = 2 * of_int D + 1" using MD by auto
    ultimately show ?thesis unfolding abs_le_iff by (intro conjI; linarith)
  qed
  moreover have "real_of_int M * 2 powi - 71 - real n / 1000 = (real_of_int M / 2 - of_int N / 1000) / 2 ^ 70"
    by (simp add: two_powi N_def diff_divide_distrib)
  ultimately have "\<bar>real_of_int M * 2 powi - 71 - real n / 1000\<bar> \<le> 1 / 2 ^ 70"
    using abs_div_pow [of "real_of_int M / 2 - of_int N / 1000" 70] by (simp only:)
  moreover have "(2 :: real) powi (- 21 - 1) + 1 / 2 ^ 70 \<le> 1 / 1000000" by (simp add: two_powi)
  ultimately have "\<bar>of_int q * 2 powi e - real n / 1000\<bar> \<le> 1 / 1000000" using q(3) by linarith
  moreover have "2 ^ 52 \<le> q" using f64_of_normal [OF M(1) _ q(1)] by simp
  ultimately show ?thesis using d q(1) by auto
qed

text \<open>Comparisons of finite doubles compare the numbers.\<close>

lemma fle_real: "fle (Fin a e) (Fin b f) \<longleftrightarrow> f64_real (Fin a e) \<le> f64_real (Fin b f)"
proof -
  define g where "g = min e f"
  have s: "of_int x * 2 powi h = of_int (x * 2 ^ nat (h - g)) * (2 :: real) powi g" if "g \<le> h" for x h
    using that two_powi_add [of "h - g" g] by (simp add: two_powi [of "h - g"])
  have "f64_real (Fin a e) \<le> f64_real (Fin b f)
      \<longleftrightarrow> of_int (a * 2 ^ nat (e - g)) * (2 :: real) powi g \<le> of_int (b * 2 ^ nat (f - g)) * 2 powi g"
    unfolding f64_real_def f64.case using s [of e a] s [of f b] by (simp only: g_def min.cobounded1 min.cobounded2)
  also have "\<dots> \<longleftrightarrow> a * 2 ^ nat (e - g) \<le> b * 2 ^ nat (f - g)"
    using zero_less_power_int [of "2 :: real" g] by (simp only: mult_le_cancel_right_pos of_int_le_iff)
  finally show ?thesis by (auto simp add: fle_def g_def Let_def)
qed

end
