(* ===== verification/Nmea_Gga.thy ===== *)
theory Nmea_Gga
  imports Gnss_Msg Cxx_Float Cxx_Strings
begin

text \<open>
  The position reports the driver sends to the NTRIP caster (\<open>ublox_driver.cpp\<close>): \<open>buildNmeaGgaSentence\<close>
  and its helpers.  The lemmas show that a sentence is framed and checksummed correctly and how
  precisely the caster can read the position back.
\<close>

section \<open>The sentence\<close>

definition GetNmeaFixQuality :: "pvt_solution \<Rightarrow> int" where
  "GetNmeaFixQuality p =
     (if \<not> pvt_valid_fix p \<or> pvt_fix_type p < 2 then 0
      else if pvt_carr_soln p = 2 then 4
      else if pvt_carr_soln p = 1 then 5
      else if pvt_diff_soln p then 2
      else 1)"

definition FormatNmeaDegrees :: "f64 \<Rightarrow> bool \<Rightarrow> string" where
  "FormatNmeaDegrees val is_latitude =
     (let abs_value = fabs64 val;
          degrees = to_i32 abs_value;
          minutes = fmul (fsub abs_value (f64_int degrees)) (f64_int 60)
      in setw (if is_latitude then 2 else 3) CHR ''0'' (dec_int degrees)
           @ setw 8 CHR ''0'' (fixed 5 minutes))"

definition AppendNmeaChecksum :: "string \<Rightarrow> string" where
  "AppendNmeaChecksum sentence_body =
     (let checksum = foldl (\<lambda>c ch. c XOR of_char ch) (0 :: u8) sentence_body
      in CHR ''$'' # sentence_body @ CHR ''*'' # hex2 checksum @ [CHR 0x0D, CHR 0x0A])"

definition gga_body :: "pvt_solution \<Rightarrow> string" where
  "gga_body p =
     (let epoch = time2epoch (gpst2utc (pvt_time p));
          geoid_separation = fsub (pvt_hgt p) (pvt_hgt_msl p)
      in ''GPGGA,'' @ setw 2 CHR ''0'' (dec_int (to_i32 (epoch ! 3)))
           @ setw 2 CHR ''0'' (dec_int (to_i32 (epoch ! 4))) @ setw 6 CHR ''0'' (fixed 3 (epoch ! 5))
         @ '','' @ FormatNmeaDegrees (pvt_lat p) True
         @ '','' @ (if fle f0 (pvt_lat p) then ''N'' else ''S'')
         @ '','' @ FormatNmeaDegrees (pvt_lon p) False
         @ '','' @ (if fle f0 (pvt_lon p) then ''E'' else ''W'')
         @ '','' @ dec_int (GetNmeaFixQuality p)
         @ '','' @ setw 2 CHR ''0'' (dec_int (uint (pvt_num_sv p)))
         @ '','' @ fixed 1 (if flt f0 (pvt_p_dop p) then pvt_p_dop p else f0)
         @ '','' @ fixed 3 (pvt_hgt_msl p)
         @ '',M,'' @ fixed 3 geoid_separation @ '',M,,'')"

definition buildNmeaGgaSentence :: "pvt_solution \<Rightarrow> string" where
  "buildNmeaGgaSentence p = (if GetNmeaFixQuality p = 0 then [] else AppendNmeaChecksum (gga_body p))"

section \<open>Framing\<close>

text \<open>The letters of a number: none of them is reserved in a sentence.\<close>

definition number_char :: "char \<Rightarrow> bool" where
  "number_char c \<longleftrightarrow> is_digit c \<or> c \<in> set ''-.infa''"

definition reserved :: "char \<Rightarrow> bool" where
  "reserved c \<longleftrightarrow> c \<in> set [CHR ''$'', CHR ''*'', CHR '','', CHR 0x0D, CHR 0x0A]"

lemma reserved_no_number: "list_all (\<lambda>c. \<not> number_char c) [CHR ''$'', CHR ''*'', CHR '','', CHR 0x0D, CHR 0x0A]"
  by code_simp

lemma number_char_free: "number_char c \<Longrightarrow> \<not> reserved c"
  using reserved_no_number unfolding reserved_def list_all_iff by blast

lemma dec_number: "c \<in> set (dec n) \<Longrightarrow> number_char c"
  using dec_all_digits [of c n] by (simp add: number_char_def)

text \<open>A text made of them only, a field of the sentence.\<close>

definition field :: "string \<Rightarrow> bool" where
  "field s \<longleftrightarrow> list_all number_char s"

lemma field_append [simp]: "field (s @ t) \<longleftrightarrow> field s \<and> field t"
  and field_Nil [simp]: "field []"
  and field_Cons [simp]: "field (c # s) \<longleftrightarrow> number_char c \<and> field s"
  by (simp_all add: field_def)

lemma number_chars [simp]: "number_char CHR ''-''" "number_char CHR ''.''" "number_char CHR ''0''"
  "number_char CHR ''i''" "number_char CHR ''n''" "number_char CHR ''f''" "number_char CHR ''a''"
  by code_simp+

lemma field_dec [simp]: "field (dec n)"
  by (simp add: field_def list_all_iff number_char_def dec_all_digits)

lemma field_dec_int [simp]: "field (dec_int n)"
  by (simp add: dec_int_def)

lemma field_zeros [simp]: "field (replicate n CHR ''0'')"
  by (induction n) simp_all

lemma field_setw [simp]: "field s \<Longrightarrow> field (setw k CHR ''0'' s)"
  by (simp add: setw_def)

lemma field_fixed [simp]: "field (fixed p x)"
  by (cases x) (simp_all add: dec_point_def Let_def)

lemma field_degrees [simp]: "field (FormatNmeaDegrees x lat)"
  by (simp add: FormatNmeaDegrees_def Let_def)

section \<open>Reading a sentence\<close>

text \<open>
  What a receiver of NMEA sentences checks and returns: the frame, the checksum over the octets between
  the dollar sign and the star, and the fields between the commas.
\<close>

fun split_commas :: "string \<Rightarrow> string list" where
  "split_commas [] = [[]]"
| "split_commas (c # s) =
     (if c = CHR '','' then [] # split_commas s
      else case split_commas s of [] \<Rightarrow> [[c]] | f # fs \<Rightarrow> (c # f) # fs)"

definition nmea_sum :: "string \<Rightarrow> u8" where
  "nmea_sum body = fold (\<lambda>ch c. c XOR of_char ch) body 0"

definition nmea_read :: "string \<Rightarrow> string list option" where
  "nmea_read s =
     (let body = takeWhile (\<lambda>c. c \<noteq> CHR ''*'') (tl s); rest = drop (length body + 2) s in
      if s \<noteq> [] \<and> hd s = CHR ''$'' \<and> length rest = 4 \<and> drop 2 rest = [CHR 0x0D, CHR 0x0A]
        \<and> stoul16 (take 2 rest) = Inr (unat (nmea_sum body))
      then Some (split_commas body) else None)"

lemma split_commas_field: "CHR '','' \<notin> set f \<Longrightarrow> split_commas (f @ CHR '','' # s) = f # split_commas s"
  by (induction f) auto

lemma split_commas_last: "CHR '','' \<notin> set f \<Longrightarrow> split_commas f = [f]"
  by (induction f) auto

lemma hex2_two: "length (hex2 w) = 2"
  by (simp add: hex2_def)

lemma nmea_read_append:
  assumes "CHR ''*'' \<notin> set body"
  shows "nmea_read (AppendNmeaChecksum body) = Some (split_commas body)"
proof -
  have "takeWhile (\<lambda>c. c \<noteq> CHR ''*'') (body @ CHR ''*'' # x) = body" for x
    using assms by (induction body) auto
  moreover have "foldl (\<lambda>c ch. c XOR of_char ch) 0 body = nmea_sum body"
    by (simp add: nmea_sum_def foldl_conv_fold)
  ultimately show ?thesis
    by (simp add: nmea_read_def AppendNmeaChecksum_def Let_def stoul16_hex2 hex2_two)
qed

lemma field_free: "field f \<Longrightarrow> reserved c \<Longrightarrow> c \<notin> set f"
  using number_char_free by (auto simp add: field_def list_all_iff)

lemma reserved_chars: "reserved CHR '',''" "reserved CHR ''*''"
  by (simp_all add: reserved_def)

lemmas field_no_comma [simp] = field_free [OF _ reserved_chars(1)]
lemmas field_no_star [simp] = field_free [OF _ reserved_chars(2)]

definition gga_time :: "gtime \<Rightarrow> string" where
  "gga_time t =
     (let epoch = time2epoch (gpst2utc t)
      in setw 2 CHR ''0'' (dec_int (to_i32 (epoch ! 3)))
           @ setw 2 CHR ''0'' (dec_int (to_i32 (epoch ! 4))) @ setw 6 CHR ''0'' (fixed 3 (epoch ! 5)))"

definition gga_fields :: "pvt_solution \<Rightarrow> string list" where
  "gga_fields p =
     [''GPGGA'', gga_time (pvt_time p),
      FormatNmeaDegrees (pvt_lat p) True, if fle f0 (pvt_lat p) then ''N'' else ''S'',
      FormatNmeaDegrees (pvt_lon p) False, if fle f0 (pvt_lon p) then ''E'' else ''W'',
      dec_int (GetNmeaFixQuality p), setw 2 CHR ''0'' (dec_int (uint (pvt_num_sv p))),
      fixed 1 (if flt f0 (pvt_p_dop p) then pvt_p_dop p else f0),
      fixed 3 (pvt_hgt_msl p), ''M'', fixed 3 (fsub (pvt_hgt p) (pvt_hgt_msl p)), ''M'', [], []]"

lemma gga_time_field [simp]: "field (gga_time t)"
  by (simp add: gga_time_def Let_def)

lemma gga_body_alt:
  "gga_body p = ''GPGGA'' @ CHR '','' # gga_time (pvt_time p)
     @ CHR '','' # FormatNmeaDegrees (pvt_lat p) True
     @ CHR '','' # (if fle f0 (pvt_lat p) then ''N'' else ''S'')
     @ CHR '','' # FormatNmeaDegrees (pvt_lon p) False
     @ CHR '','' # (if fle f0 (pvt_lon p) then ''E'' else ''W'')
     @ CHR '','' # dec_int (GetNmeaFixQuality p)
     @ CHR '','' # setw 2 CHR ''0'' (dec_int (uint (pvt_num_sv p)))
     @ CHR '','' # fixed 1 (if flt f0 (pvt_p_dop p) then pvt_p_dop p else f0)
     @ CHR '','' # fixed 3 (pvt_hgt_msl p)
     @ CHR '','' # ''M'' @ CHR '','' # fixed 3 (fsub (pvt_hgt p) (pvt_hgt_msl p))
     @ CHR '','' # ''M'' @ CHR '','' # [] @ CHR '','' # []"
  by (simp add: gga_body_def gga_time_def Let_def)

lemma gga_body_split: "split_commas (gga_body p) = gga_fields p"
  unfolding gga_body_alt gga_fields_def
  by (simp add: split_commas_field del: split_commas.simps(2) append_Cons append_Nil)

lemma gga_body_no_star: "CHR ''*'' \<notin> set (gga_body p)"
  unfolding gga_body_alt by (auto simp del: append_Cons append_Nil)

lemma gga_read:
  "(buildNmeaGgaSentence p = [] \<longleftrightarrow> \<not> (pvt_valid_fix p \<and> 2 \<le> pvt_fix_type p))
   \<and> (buildNmeaGgaSentence p = [] \<or> nmea_read (buildNmeaGgaSentence p) = Some (gga_fields p))"
  using nmea_read_append [OF gga_body_no_star, of p]
  by (auto simp add: buildNmeaGgaSentence_def gga_body_split GetNmeaFixQuality_def AppendNmeaChecksum_def Let_def
      linorder_not_less)

text \<open>
  Claim C28.  The sentence sent to the caster is empty exactly without a fix of dimension 2 or more, and
  otherwise a receiver that checks frame and checksum accepts it and reads exactly the fifteen fields the
  driver put in, whatever the numbers are (infinities and values that are not numbers included).
\<close>

theorem gga_sentence_read:
  "(buildNmeaGgaSentence p = [] \<longleftrightarrow> \<not> (pvt_valid_fix p \<and> 2 \<le> pvt_fix_type p))
   \<and> (buildNmeaGgaSentence p = [] \<or> nmea_read (buildNmeaGgaSentence p) = Some (gga_fields p))"
  by (rule gga_read)

section \<open>Precision of the position\<close>

text \<open>What the degrees field denotes: the first digits are degrees, the rest decimal minutes.\<close>

definition nmea_degrees :: "nat \<Rightarrow> string \<Rightarrow> real" where
  "nmea_degrees k s = real (digits_val (take k s)) + decimal_val (drop k s) / 60"

text \<open>The minutes computed from a position are within \<open>2 powi - 48\<close> of the exact ones.\<close>

lemma minutes_real:
  assumes "f64_wf (Fin a e)" and "0 \<le> a" and "f64_floor (Fin a e) = Some d" and "d < 2 ^ 31"
  shows "\<exists>q e'. fmul (fsub (Fin a e) (f64_int d)) (f64_int 60) = Fin q e' \<and> 0 \<le> q
    \<and> \<bar>of_int q * 2 powi e' - 60 * (of_int a * 2 powi e - of_int d)\<bar> \<le> (2 :: real) powi - 48
    \<and> of_int a * 2 powi e - of_int d < (1 :: real)"
proof -
  have d0: "0 \<le> d" using assms(2,3) by (auto simp add: pos_imp_zdiv_nonneg_iff split: if_splits)
  have a: "exact53 a e" "Fin a e = f64_of a e" "exact53 d 0" "exact53 60 0"
    using assms(1,4) d0 by (simp_all add: f64_wf_exact53 f64_of_wf) (simp_all add: exact53_def)
  show ?thesis
  proof (cases "0 \<le> e")
    case True
    then have d: "d = a * 2 ^ nat e" using assms(3) by simp
    have "fsub (Fin a e) (f64_int d) = f64_of 0 0"
      using fsub_exact [OF a(1,3), of 0] True d a(2) by (simp add: f64_int_def)
    then have "fmul (fsub (Fin a e) (f64_int d)) (f64_int 60) = Fin 0 0"
      using fmul_exact [of 0 0 60 0] a(4) by (simp add: exact53_def f64_int_def)
    with True d show ?thesis by (simp add: two_powi)
  next
    case False
    define p :: int where "p = 2 ^ nat (- e)"
    define r where "r = a - d * p"
    have p: "0 < p" "(2 :: real) powi e = 1 / of_int p" using False by (simp_all add: p_def two_powi)
    have d: "d = a div p" using assms(3) False by (simp add: p_def)
    then have r: "r = a mod p" by (simp add: r_def minus_div_mult_eq_mod)
    have r1: "0 \<le> r" "r < p" "r \<le> a" using p(1) assms(2) by (simp_all add: r zmod_le_nonneg_dividend)
    have rx: "exact53 r e" using a(1) r1 by (simp add: exact53_def)
    have "fsub (Fin a e) (f64_int d) = f64_of r e"
      using fsub_exact [OF a(1,3), of e] False a(2) by (simp add: f64_int_def r_def p_def)
    then have f: "fmul (fsub (Fin a e) (f64_int d)) (f64_int 60) = f64_of (r * 60) e"
      using fmul_exact [OF rx a(4)] by (simp add: f64_int_def)
    have "r * 60 < 64 * p" using r1 by linarith
    then have "r * 60 < 2 ^ (6 + nat (- e))" by (simp add: p_def power_add)
    then have "blen (r * 60) \<le> 6 + nat (- e)" using blen_le_iff [of "r * 60" "6 + nat (- e)"] r1(1) by simp
    then have "max (e + int (blen (r * 60)) - 53) (- 1074) \<le> - 47" using False by simp
    from f64_of_real [OF _ this] r1(1) obtain q e' where q: "f64_of (r * 60) e = Fin q e'" "0 \<le> q"
      "\<bar>of_int q * 2 powi e' - of_int (r * 60) * 2 powi e\<bar> \<le> (2 :: real) powi (- 47 - 1)"
      by auto
    have v: "of_int a * 2 powi e - of_int d = (of_int r :: real) / of_int p"
      using p by (simp add: r_def field_simps)
    have "of_int (r * 60) * 2 powi e = 60 * ((of_int r :: real) / of_int p)" using p(2) by simp
    with q f v r1(2) p(1) show ?thesis by (simp add: divide_less_eq)
  qed
qed

section \<open>The position\<close>

definition degree_digits :: "bool \<Rightarrow> nat" where
  "degree_digits is_latitude = (if is_latitude then 2 else 3)"

lemma minutes_error:
  fixes a b c d :: real
  assumes "\<bar>a - 60 * (b - d)\<bar> \<le> 1 / 200000" and "\<bar>c - a\<bar> \<le> 1 / 200000"
  shows "\<bar>d + c / 60 - b\<bar> \<le> 1 / 6000000"
proof -
  have "a - 60 * (b - d) \<le> 1 / 200000" "- (a - 60 * (b - d)) \<le> 1 / 200000"
    "c - a \<le> 1 / 200000" "- (c - a) \<le> 1 / 200000"
    using assms by (simp_all only: abs_le_iff)
  then show ?thesis by (intro abs_leI) (simp_all add: field_simps)
qed

lemma degrees_read:
  assumes "f64_wf x" and "flt (fabs64 x) (f64_int (10 ^ degree_digits lat))"
  shows "\<bar>nmea_degrees (degree_digits lat) (FormatNmeaDegrees x lat) - \<bar>f64_real x\<bar>\<bar> \<le> 1 / 6000000"
proof -
  let ?k = "degree_digits lat"
  have k: "0 < ?k" "(10 :: int) ^ ?k \<le> 1000" by (simp_all add: degree_digits_def)
  obtain m e where x: "x = Fin m e"
    using assms(2) by (cases x) (auto simp add: f64_int_def f64_of_def f64_pack_def Let_def split: if_splits)
  have wf: "f64_wf (Fin \<bar>m\<bar> e)" using assms(1) by (auto simp add: f64_wf_def x)
  obtain d where d: "f64_floor (Fin \<bar>m\<bar> e) = Some d" by simp
  have d0: "0 \<le> d" using d by (auto simp add: pos_imp_zdiv_nonneg_iff split: if_splits)
  have d1: "d < 10 ^ ?k"
    using flt_int_right [OF d, of "10 ^ ?k"] assms(2) k(2) by (simp add: x)
  then have d31: "d < 2 ^ 31" using k(2) by simp
  have deg: "to_i32 (fabs64 x) = d" using to_i32_floor [OF d d0 d31] by (simp add: x)
  obtain q e' where q: "fmul (fsub (Fin \<bar>m\<bar> e) (f64_int d)) (f64_int 60) = Fin q e'" "0 \<le> q"
    "\<bar>of_int q * 2 powi e' - 60 * (of_int \<bar>m\<bar> * 2 powi e - of_int d)\<bar> \<le> (2 :: real) powi - 48"
    using minutes_real [OF wf _ d d31] by auto
  obtain n where n: "fixed 5 (Fin q e') = dec_point 5 n" "\<bar>real n / 10 ^ 5 - of_int q * 2 powi e'\<bar> \<le> 1 / 2 / 10 ^ 5"
    using fixed_real [OF q(2), of 5 e'] by blast
  have t: "FormatNmeaDegrees x lat = setw ?k CHR ''0'' (dec (nat d)) @ setw 8 CHR ''0'' (dec_point 5 n)"
    using q(1) n(1) d0 by (simp add: FormatNmeaDegrees_def Let_def deg degree_digits_def dec_int_def)
      (simp add: x)
  have "nat d < 10 ^ ?k" using d0 d1 by (simp add: nat_less_iff)
  then have l: "length (setw ?k CHR ''0'' (dec (nat d))) = ?k" using k(1) by (simp add: length_setw length_dec)
  have "nmea_degrees ?k (FormatNmeaDegrees x lat) = of_int d + real n / 10 ^ 5 / 60"
    unfolding t nmea_degrees_def using d0 l by (simp add: setw_digits digits_val_dec decimal_val_point)
  moreover have "\<bar>f64_real x\<bar> = of_int \<bar>m\<bar> * 2 powi e" by (simp add: x f64_real_def abs_mult)
  moreover have "\<bar>of_int q * 2 powi e' - 60 * (of_int \<bar>m\<bar> * 2 powi e - of_int d)\<bar> \<le> (1 :: real) / 200000"
    by (rule order_trans [OF q(3)]) (simp add: two_powi)
  from minutes_error [OF this, of "real n / 10 ^ 5"] n(2)
  have "\<bar>of_int d + real n / 10 ^ 5 / 60 - of_int \<bar>m\<bar> * 2 powi e\<bar> \<le> 1 / 6000000" by simp
  ultimately show ?thesis by (simp only:)
qed

text \<open>The signed position that two fields of the sentence denote.\<close>

definition signed_degrees :: "nat \<Rightarrow> string \<Rightarrow> string \<Rightarrow> string \<Rightarrow> real" where
  "signed_degrees k positive hemisphere s =
     (if hemisphere = positive then nmea_degrees k s else - nmea_degrees k s)"

lemma f64_real_sign: "f64_wf x \<Longrightarrow> flt (fabs64 x) b \<Longrightarrow> fle f0 x \<longleftrightarrow> 0 \<le> f64_real x"
proof (cases x)
  case (Fin m e)
  have "fle f0 x \<longleftrightarrow> 0 < m * 2 ^ nat (e - min 0 e) \<or> 0 = m * 2 ^ nat (e - min 0 e)"
    by (simp add: fle_def f0_def Fin Let_def)
  also have "\<dots> \<longleftrightarrow> 0 \<le> m * 2 ^ nat (e - min 0 e)" by (rule order_le_less [symmetric])
  also have "\<dots> \<longleftrightarrow> 0 \<le> m" by (simp add: zero_le_mult_iff)
  finally have "fle f0 x \<longleftrightarrow> 0 \<le> m" .
  moreover have "\<not> (2 :: real) powi e \<le> 0" by (simp add: not_le)
  ultimately show ?thesis by (simp add: Fin f64_real_def zero_le_mult_iff)
qed (cases b; auto)+

lemma signed_read:
  assumes "f64_wf x" and "flt (fabs64 x) (f64_int (10 ^ degree_digits lat))" and "u \<noteq> v"
  shows "\<bar>signed_degrees (degree_digits lat) u (if fle f0 x then u else v) (FormatNmeaDegrees x lat) - f64_real x\<bar> \<le> 1 / 6000000"
proof -
  have "\<bar>- a - b\<bar> = \<bar>a + b\<bar>" for a b :: real by arith
  then show ?thesis
    using degrees_read [OF assms(1,2)] f64_real_sign [OF assms(1,2)] assms(3)
    by (cases "fle f0 x") (simp_all add: signed_degrees_def)
qed

text \<open>
  Claim C29.  The caster reads the position to within a hundred-thousandth of a minute, about two
  centimetres: latitude and longitude as printed (also when the minutes are printed as 60.00000), with the
  sign their hemisphere letter gives.
\<close>

theorem gga_position_precise:
  assumes "f64_wf (pvt_lat p)" and "flt (fabs64 (pvt_lat p)) (f64_int 100)"
    and "f64_wf (pvt_lon p)" and "flt (fabs64 (pvt_lon p)) (f64_int 1000)"
  shows "\<bar>signed_degrees 2 ''N'' (gga_fields p ! 3) (gga_fields p ! 2) - f64_real (pvt_lat p)\<bar> \<le> 1 / 6000000
    \<and> \<bar>signed_degrees 3 ''E'' (gga_fields p ! 5) (gga_fields p ! 4) - f64_real (pvt_lon p)\<bar> \<le> 1 / 6000000"
  using signed_read [OF assms(1), of True "''N''" "''S''"] signed_read [OF assms(3), of False "''E''" "''W''"] assms(2,4)
  by (simp add: gga_fields_def degree_digits_def)

definition demo_pvt :: pvt_solution where
  "demo_pvt =
     \<lparr>pvt_time = \<lparr>gt_time = 1700000000, gt_sec = f0\<rparr>, pvt_fix_type = 3, pvt_valid_fix = True, pvt_diff_soln = False,
      pvt_carr_soln = 0, pvt_num_sv = 12, pvt_lat = Fin 8790576112664471 (- 48), pvt_lon = Fin (- 8547951719614303) (- 46),
      pvt_hgt = f0, pvt_hgt_msl = f0, pvt_h_acc = f0, pvt_v_acc = f0, pvt_p_dop = f0, pvt_vel_n = f0, pvt_vel_e = f0,
      pvt_vel_d = f0, pvt_vel_acc = f0\<rparr>"

theorem gga_position_precise_witness:
  "\<bar>signed_degrees 2 ''N'' (gga_fields demo_pvt ! 3) (gga_fields demo_pvt ! 2) - 8790576112664471 / 2 ^ 48\<bar> \<le> 1 / 6000000
    \<and> \<bar>signed_degrees 3 ''E'' (gga_fields demo_pvt ! 5) (gga_fields demo_pvt ! 4) + 8547951719614303 / 2 ^ 46\<bar> \<le> 1 / 6000000"
proof -
  have wf: "f64_wf (pvt_lat demo_pvt)" "f64_wf (pvt_lon demo_pvt)"
    by (simp_all add: demo_pvt_def f64_wf_def)
  have range: "flt (fabs64 (pvt_lat demo_pvt)) (f64_int 100)" "flt (fabs64 (pvt_lon demo_pvt)) (f64_int 1000)"
    by code_simp+
  have r: "f64_real (pvt_lat demo_pvt) = 8790576112664471 / 2 ^ 48"
    "f64_real (pvt_lon demo_pvt) = - (8547951719614303 / 2 ^ 46)"
    by (simp_all add: demo_pvt_def f64_real_def two_powi)
  show ?thesis
    using gga_position_precise [OF wf(1) range(1) wf(2) range(2)] by (simp only: r diff_minus_eq_add)
qed

text \<open>The minutes of a position just below a full degree are printed as 60.00000: here 31.9999999999.\<close>

lemma sixty_minutes: "FormatNmeaDegrees (Fin 9007199254712845 (- 48)) True = ''3160.00000''"
proof -
  have a: "fabs64 (Fin 9007199254712845 (- 48)) = Fin 9007199254712845 (- 48)" by simp
  have d: "to_i32 (Fin 9007199254712845 (- 48)) = 31" by code_simp
  have m: "fmul (fsub (Fin 9007199254712845 (- 48)) (f64_int 31)) (f64_int 60) = Fin 8444249300475270 (- 47)"
    by code_simp
  have t: "fixed 5 (Fin 8444249300475270 (- 47)) = ''60.00000''"
    by (simp add: rne_def dec_point_def dec_def dec_digits.simps digit_char_def setw_def) code_simp
  have "dec_int 31 = ''31''"
    by (simp add: dec_int_def dec_def dec_digits.simps digit_char_def) code_simp
  then show ?thesis
    unfolding FormatNmeaDegrees_def Let_def a d m t by (simp add: setw_def)
qed

end
