(* ===== verification/Driver.thy ===== *)
theory Driver
  imports Driver_Startup Ubx_Safety Ntrip_Stream Nmea_Gga
begin

text \<open>
  The running \<open>GNSSDriverManager\<close> (\<open>ublox_driver.cpp\<close>): what it does with each serial message, each chunk of
  corrections and each tick of the position timer, and how the pieces are put together.
\<close>

section \<open>The state\<close>

text \<open>
  The members of the manager that change while it runs, and its effects so far: what was published (with the
  calls of the position callback), what was written to the receiver, and what was sent to the caster.
\<close>

record manager =
  ublox_message_processor :: ubx_state
  ros_side :: ros_handler
  rtcm_log :: rtcm_state
  ntrip_enabled :: bool
  latest_pvt :: "pvt_solution option"
  ntrip_gga_send_count :: u64
  ntrip_gga_skip_count :: u64
  published :: "publication list"
  to_receiver :: bytes
  to_caster :: "string list"

text \<open>The constructor: the handler gets the two masks and the position callback.\<close>

definition GNSSDriverManager :: "UbloxDriverParams \<Rightarrow> manager" where
  "GNSSDriverManager p =
     \<lparr>ublox_message_processor = ubx_init,
      ros_side = registerPvtCallback
        \<lparr>raw_observation_system_mask = UbloxDriverParams.raw_observation_system_mask p,
         ephemeris_system_mask = UbloxDriverParams.ephemeris_system_mask p, pvt_callbacks = 0\<rparr>,
      rtcm_log = rtcm_init, ntrip_enabled = enable_ntrip_rtcm p, latest_pvt = None,
      ntrip_gga_send_count = 0, ntrip_gga_skip_count = 0, published = [], to_receiver = [], to_caster = []\<rparr>"

text \<open>
  \<open>setupRtcmPipeline\<close>: which client is started, if any, and whether the position timer runs.
\<close>

definition setupRtcmPipeline :: "UbloxDriverParams \<Rightarrow> link option \<Rightarrow> client option \<times> bool" where
  "setupRtcmPipeline p serial =
     (if \<not> enable_rtcm_tcp_loopback p \<and> \<not> enable_ntrip_rtcm p then (None, False)
      else case serial of
        None \<Rightarrow> (None, False)
      | Some l \<Rightarrow>
          if \<not> fd_open l then (None, False)
          else (Some (if enable_rtcm_tcp_loopback p then Loopback
                      else Ntrip (ntrip_mountpoint p) (ntrip_username p) (ntrip_password p)),
                enable_ntrip_rtcm p))"

section \<open>What it reacts to\<close>

text \<open>The callback of the constructor keeps a copy of the last solution.\<close>

fun keep_pvt :: "pvt_solution option \<Rightarrow> publication \<Rightarrow> pvt_solution option" where
  "keep_pvt old (Pvt_callback i s) = Some s"
| "keep_pvt old _ = old"

text \<open>A serial message, handed to the message parser.\<close>

definition on_serial_message :: "bytes \<Rightarrow> nat \<Rightarrow> manager \<Rightarrow> crash + manager" where
  "on_serial_message data len m =
     (case process_data (ublox_message_processor m) (Some (ros_side m)) data len of
        Inl c \<Rightarrow> Inl c
      | Inr (st, out) \<Rightarrow>
          Inr (m\<lparr>ublox_message_processor := st, latest_pvt := foldl keep_pvt (latest_pvt m) out,
                 published := published m @ out\<rparr>))"

text \<open>
  A chunk from the correction client: the monitor cuts and publishes frames, then the chunk goes to the
  receiver as far as the device takes it (the answers \<open>evs\<close>).
\<close>

definition on_rtcm_chunk :: "int \<Rightarrow> bytes \<Rightarrow> write_event list \<Rightarrow> manager \<Rightarrow> manager" where
  "on_rtcm_chunk now data evs m =
     (let (log', frames) = logRtcmFrames (rtcm_log m) data;
          out = concat (map (\<lambda>f. publishRtcm now (rtcm_data f) (rtcm_frame_length f) (rtcm_message_type f)
                  (rtcm_payload_length f)) frames);
          (ok, w) = write_all data evs
      in m\<lparr>rtcm_log := log', published := published m @ out, to_receiver := to_receiver m @ w\<rparr>)"

text \<open>A tick: \<open>is_open\<close> says whether the client has a connection, \<open>wrote\<close> whether its write succeeds.\<close>

definition sendNtripGga :: "bool \<Rightarrow> bool \<Rightarrow> manager \<Rightarrow> manager" where
  "sendNtripGga is_open wrote m =
     (if \<not> ntrip_enabled m \<or> \<not> is_open then m
      else case latest_pvt m of
        None \<Rightarrow> m\<lparr>ntrip_gga_skip_count := ntrip_gga_skip_count m + 1\<rparr>
      | Some s \<Rightarrow>
          if gt_time (pvt_time s) = 0 then m\<lparr>ntrip_gga_skip_count := ntrip_gga_skip_count m + 1\<rparr>
          else let gga_sentence = buildNmeaGgaSentence s in
          if gga_sentence = [] then m\<lparr>ntrip_gga_skip_count := ntrip_gga_skip_count m + 1\<rparr>
          else if \<not> wrote then m
          else m\<lparr>to_caster := to_caster m @ [gga_sentence],
                 ntrip_gga_send_count := ntrip_gga_send_count m + 1\<rparr>)"

datatype driver_event = Serial_message bytes nat | Rtcm_chunk int bytes "write_event list" | Gga_tick bool bool

fun handle_event :: "driver_event \<Rightarrow> manager \<Rightarrow> crash + manager" where
  "handle_event (Serial_message data len) m = on_serial_message data len m"
| "handle_event (Rtcm_chunk now data evs) m = Inr (on_rtcm_chunk now data evs m)"
| "handle_event (Gga_tick is_open wrote) m = Inr (sendNtripGga is_open wrote m)"

inductive driver_run :: "UbloxDriverParams \<Rightarrow> manager \<Rightarrow> bool" for p where
  initial: "driver_run p (GNSSDriverManager p)"
| event: "driver_run p m \<Longrightarrow> handle_event e m = Inr m' \<Longrightarrow> driver_run p m'"

section \<open>What holds at every moment\<close>

text \<open>What may be published, corrections included.\<close>

definition output_ok :: "ros_handler \<Rightarrow> publication \<Rightarrow> bool" where
  "output_ok h out \<longleftrightarrow> publication_ok h out \<or> (\<exists>now f. out = Rtcm_topic now f \<and> rtcm_frame_ok f)"

text \<open>A report to the caster: a readable sentence of a published solution with a fix.\<close>

definition report_ok :: "publication list \<Rightarrow> string \<Rightarrow> bool" where
  "report_ok pubs sentence \<longleftrightarrow>
     (\<exists>s i. Pvt_callback i s \<in> set pubs \<and> gt_time (pvt_time s) \<noteq> 0 \<and> pvt_valid_fix s \<and> 2 \<le> pvt_fix_type s
        \<and> nmea_read sentence = Some (gga_fields s))"

definition driver_inv :: "UbloxDriverParams \<Rightarrow> manager \<Rightarrow> bool" where
  "driver_inv p m \<longleftrightarrow> ubx_inv (ublox_message_processor m) \<and> ros_side m = ros_side (GNSSDriverManager p)
     \<and> ntrip_enabled m = enable_ntrip_rtcm p
     \<and> (\<forall>out \<in> set (published m). output_ok (ros_side m) out)
     \<and> (\<forall>s. latest_pvt m = Some s \<longrightarrow> (\<exists>i. Pvt_callback i s \<in> set (published m)))
     \<and> (\<forall>sentence \<in> set (to_caster m). report_ok (published m) sentence)
     \<and> ntrip_gga_send_count m = of_nat (length (to_caster m))
     \<and> (\<not> enable_ntrip_rtcm p \<longrightarrow> to_caster m = [])"

lemma keep_pvt_kept:
  "foldl keep_pvt old out = Some s \<Longrightarrow> old = Some s \<or> (\<exists>i. Pvt_callback i s \<in> set out)"
proof (induction out arbitrary: old)
  case (Cons x out)
  then show ?case by (cases x) fastforce+
qed simp

lemma report_ok_more: "report_ok pubs sentence \<Longrightarrow> report_ok (pubs @ out) sentence"
  by (auto simp add: report_ok_def)

lemma inv_serial:
  assumes "driver_inv p m" and "on_serial_message data len m = Inr m'"
  shows "driver_inv p m'"
proof -
  obtain st out where o: "process_data (ublox_message_processor m) (Some (ros_side m)) data len = Inr (st, out)"
    "m' = m\<lparr>ublox_message_processor := st, latest_pvt := foldl keep_pvt (latest_pvt m) out,
            published := published m @ out\<rparr>"
    using assms(2) by (auto simp add: on_serial_message_def split: sum.splits)
  have "ubx_inv st \<and> (\<forall>x \<in> set out. output_ok (ros_side m) x)"
    using process_data_ok [OF o(1)] assms(1) by (auto simp add: driver_inv_def output_ok_def)
  with assms(1) o(2) show ?thesis
    by (auto simp add: driver_inv_def report_ok_more dest!: keep_pvt_kept)
qed

lemma rtcm_frames_ok: "logRtcmFrames s data = (s', ms) \<Longrightarrow> f \<in> set ms \<Longrightarrow> rtcm_frame_ok f"
  using rtcm_run_sound [of "rtcm_log_buffer s @ data"]
  by (cases "data = []") (auto simp add: logRtcmFrames_run, simp add: logRtcmFrames_def)

lemma inv_rtcm:
  assumes "driver_inv p m"
  shows "driver_inv p (on_rtcm_chunk now data evs m)"
proof -
  obtain log' frames where l: "logRtcmFrames (rtcm_log m) data = (log', frames)" by fastforce
  obtain ok w where w: "write_all data evs = (ok, w)" by fastforce
  let ?pub = "\<lambda>f. publishRtcm now (rtcm_data f) (rtcm_frame_length f) (rtcm_message_type f) (rtcm_payload_length f)"
  have "output_ok h x" if "f \<in> set frames" "x \<in> set (?pub f)" for f x h
  proof -
    have f: "rtcm_frame_ok f" using rtcm_frames_ok [OF l that(1)] .
    then have "x = Rtcm_topic now f" using that(2) by (auto simp add: publishRtcm_def rtcm_frame_ok_def split: if_splits)
    with f show ?thesis by (auto simp add: output_ok_def)
  qed
  with assms show ?thesis
    by (auto simp add: on_rtcm_chunk_def l w driver_inv_def report_ok_more)
qed

lemma inv_gga: "driver_inv p m \<Longrightarrow> driver_inv p (sendNtripGga is_open wrote m)"
proof -
  assume inv: "driver_inv p m"
  show ?thesis
  proof (cases "ntrip_enabled m \<and> is_open \<and> wrote \<and> (\<exists>s. latest_pvt m = Some s \<and> gt_time (pvt_time s) \<noteq> 0
      \<and> buildNmeaGgaSentence s \<noteq> [])")
    case True
    then obtain s where s: "latest_pvt m = Some s" "gt_time (pvt_time s) \<noteq> 0" "buildNmeaGgaSentence s \<noteq> []" by blast
    then have "report_ok (published m) (buildNmeaGgaSentence s)"
      using gga_read [of s] inv by (auto simp add: report_ok_def driver_inv_def)
    with True s inv show ?thesis by (auto simp add: sendNtripGga_def Let_def driver_inv_def)
  next
    case False
    with inv show ?thesis
      by (auto simp add: sendNtripGga_def Let_def driver_inv_def split: option.splits)
  qed
qed

lemma driver_run_inv: "driver_run p m \<Longrightarrow> driver_inv p m"
proof (induction rule: driver_run.induct)
  case initial
  then show ?case by (simp add: driver_inv_def GNSSDriverManager_def ubx_inv_init)
next
  case (event m e m')
  then show ?case by (cases e) (auto intro: inv_serial inv_rtcm inv_gga)
qed

text \<open>
  Claim C32.  In every history of serial messages, correction chunks and timer ticks, in any order and with
  any content: everything published is sound (on the correction topic, complete frames with a matching CRC);
  every sentence sent to the caster is a readable report of a solution that was published before, with a time
  and a fix; nothing is sent when NTRIP is off; and the counter of sent reports is right.
\<close>

theorem driver_run_sound:
  assumes "driver_run p m"
  shows "(\<forall>out \<in> set (published m). output_ok (ros_side m) out)
    \<and> (\<forall>sentence \<in> set (to_caster m). report_ok (published m) sentence)
    \<and> (enable_ntrip_rtcm p \<or> to_caster m = [])
    \<and> ntrip_gga_send_count m = of_nat (length (to_caster m))"
  using driver_run_inv [OF assms] by (auto simp add: driver_inv_def)

section \<open>The corrections, end to end\<close>

text \<open>The chunks a client dispatches, each with the time and the answers of the serial device.\<close>

definition relay :: "(int \<times> bytes \<times> write_event list) list \<Rightarrow> manager \<Rightarrow> manager" where
  "relay chunks m = foldl (\<lambda>m (now, data, evs). on_rtcm_chunk now data evs m) m chunks"

fun rtcm_frames :: "publication list \<Rightarrow> rtcm_msg list" where
  "rtcm_frames [] = []"
| "rtcm_frames (Rtcm_topic now f # ps) = f # rtcm_frames ps"
| "rtcm_frames (p # ps) = rtcm_frames ps"

lemma rtcm_frames_append: "rtcm_frames (ps @ qs) = rtcm_frames ps @ rtcm_frames qs"
  by (induction ps rule: rtcm_frames.induct) simp_all

lemma publishRtcm_ok:
  "rtcm_frame_ok f \<Longrightarrow> publishRtcm now (rtcm_data f) (rtcm_frame_length f) (rtcm_message_type f)
     (rtcm_payload_length f) = [Rtcm_topic now f]"
  by (auto simp add: publishRtcm_def rtcm_frame_ok_def)

lemma published_frames:
  assumes "\<forall>f \<in> set fs. rtcm_frame_ok f"
  shows "rtcm_frames (concat (map (\<lambda>f. publishRtcm now (rtcm_data f) (rtcm_frame_length f) (rtcm_message_type f)
    (rtcm_payload_length f)) fs)) = fs"
  using assms by (induction fs) (simp_all add: publishRtcm_ok)

lemma on_rtcm_chunk_taken:
  assumes "fst (write_all data evs)"
  shows "to_receiver (on_rtcm_chunk now data evs m) = to_receiver m @ data"
    and "rtcm_log (on_rtcm_chunk now data evs m) = fst (logRtcmFrames (rtcm_log m) data)"
    and "rtcm_frames (published (on_rtcm_chunk now data evs m))
      = rtcm_frames (published m) @ snd (logRtcmFrames (rtcm_log m) data)"
proof -
  obtain log' fs where l: "logRtcmFrames (rtcm_log m) data = (log', fs)" by fastforce
  obtain w where w: "write_all data evs = (True, w)" using assms by (cases "write_all data evs") simp
  have "w = data" using write_all_prefix [OF w] by simp
  moreover have "\<forall>f \<in> set fs. rtcm_frame_ok f" using rtcm_frames_ok [OF l] by blast
  ultimately show "to_receiver (on_rtcm_chunk now data evs m) = to_receiver m @ data"
    "rtcm_log (on_rtcm_chunk now data evs m) = fst (logRtcmFrames (rtcm_log m) data)"
    "rtcm_frames (published (on_rtcm_chunk now data evs m))
      = rtcm_frames (published m) @ snd (logRtcmFrames (rtcm_log m) data)"
    by (simp_all add: on_rtcm_chunk_def l w rtcm_frames_append published_frames)
qed

lemma relay_taken:
  assumes "list_all (\<lambda>(now, data, evs). fst (write_all data evs)) chunks"
  shows "to_receiver (relay chunks m) = to_receiver m @ concat (map (fst \<circ> snd) chunks)
    \<and> rtcm_frames (published (relay chunks m))
      = rtcm_frames (published m) @ snd (logRtcmChunks (rtcm_log m) (map (fst \<circ> snd) chunks))"
  using assms
proof (induction chunks arbitrary: m)
  case (Cons c chunks)
  obtain now data evs where c: "c = (now, data, evs)" by (cases c)
  with Cons.prems have t: "fst (write_all data evs)" "list_all (\<lambda>(now, data, evs). fst (write_all data evs)) chunks"
    by auto
  have "relay (c # chunks) m = relay chunks (on_rtcm_chunk now data evs m)" by (simp add: relay_def c)
  with Cons.IH [OF t(2), of "on_rtcm_chunk now data evs m"] on_rtcm_chunk_taken [OF t(1), of now m]
  show ?case by (simp add: c split_beta)
qed (simp add: relay_def)

text \<open>
  Claim C33.  From the caster to the receiver nothing is lost, added or reordered: whatever pieces the answer
  to the request and the correction stream arrive in, and however far the handshake read into the stream,
  the receiver gets exactly the octets behind the caster's header, and the frames published are those of that
  stream, provided the serial device takes what it is given.
\<close>

theorem corrections_relayed:
  assumes "caster_stream (net_octets evs) i" and "quiet_net evs" and "try_addresses addresses"
    and "fst (write_all (request (Ntrip mount user pass)) ws)" and "0 < n"
    and "readLoop (Ntrip mount user pass) n (session addresses ws evs) = (r, s')"
    and "map (fst \<circ> snd) chunks = dispatched s'"
    and "list_all (\<lambda>(now, data, evs). fst (write_all data evs)) chunks"
  shows "to_receiver (relay chunks m) = to_receiver m @ drop (i + 4) (net_octets evs)
    \<and> rtcm_frames (published (relay chunks m))
      = rtcm_frames (published m) @ snd (logRtcmFrames (rtcm_log m) (drop (i + 4) (net_octets evs)))"
proof -
  have c: "concat (dispatched s') = drop (i + 4) (net_octets evs)"
    using session_result [OF assms(1-5)] assms(6) by simp
  then have "rtcm_same (logRtcmChunks (rtcm_log m) (dispatched s')) (logRtcmFrames (rtcm_log m) (drop (i + 4) (net_octets evs)))"
    using rtcm_chunks_same [of "rtcm_log m" "dispatched s'"] by simp
  then show ?thesis
    using relay_taken [OF assms(8), of m] assms(7) c by (simp add: rtcm_same_def)
qed

section \<open>Witnesses\<close>

theorem corrections_relayed_witness:
  "to_receiver (relay (map (\<lambda>c. (0, c, [Accept (Suc (length c))]))
      (dispatched (snd (readLoop (Ntrip ''RTCM'' ''u'' ''p'') 1024 (session [False, True] [Accept 1000] caster_evs)))))
      (GNSSDriverManager default_params))
    = [0xD3, 0x00, 0x13, 0x3E]"
proof -
  let ?cs = "dispatched (snd (readLoop (Ntrip ''RTCM'' ''u'' ''p'') 1024 (session [False, True] [Accept 1000] caster_evs)))"
  have "length (request (Ntrip ''RTCM'' ''u'' ''p'')) \<le> 1000"
    by (simp add: buildRequest_def CRLF_def octets_of_def Base64Encode_rfc4648)
  then have w: "fst (write_all (request (Ntrip ''RTCM'' ''u'' ''p'')) [Accept 1000])"
    by (rule write_all_at_once) simp
  have q: "quiet_net caster_evs" "try_addresses [False, True]" by (simp_all add: caster_evs_def)
  have a: "list_all (\<lambda>(now, data, evs). fst (write_all data evs)) (map (\<lambda>c. (0, c, [Accept (Suc (length c))])) ?cs)"
    by (simp add: list_all_iff write_all_at_once)
  show ?thesis
    using corrections_relayed [where m = "GNSSDriverManager default_params", OF caster_evs_stream q w _ surjective_pairing _ a]
    by (simp add: comp_def caster_evs_def octets_of_def GNSSDriverManager_def)
qed

lemma demo_run:
  "driver_run default_params (on_rtcm_chunk 7 (rtcm_encode []) [] (GNSSDriverManager default_params))"
  by (rule driver_run.event [OF driver_run.initial, of "Rtcm_chunk 7 (rtcm_encode []) []"]) simp

theorem driver_run_sound_witness:
  "\<exists>out. published (on_rtcm_chunk 7 (rtcm_encode []) [] (GNSSDriverManager default_params)) = [out]
    \<and> output_ok (ros_side (on_rtcm_chunk 7 (rtcm_encode []) [] (GNSSDriverManager default_params))) out"
proof -
  let ?m = "GNSSDriverManager default_params"
  have "rtcm_encode [] \<noteq> []"
    by (metis add_is_0 length_rtcm_encode list.size(3) zero_neq_numeral)
  then have "length (snd (logRtcmFrames rtcm_init (rtcm_encode []))) = 1"
    using rtcm_run_encoded [of "[([], [])]"]
    by (simp add: logRtcmFrames_run rtcm_init_def) (metis length_Cons length_map list.size(3) One_nat_def)
  then obtain log' f where l: "logRtcmFrames rtcm_init (rtcm_encode []) = (log', [f])"
    by (cases "logRtcmFrames rtcm_init (rtcm_encode [])") (auto simp add: length_Suc_conv)
  then have "published (on_rtcm_chunk 7 (rtcm_encode []) [] ?m) = [Rtcm_topic 7 f]"
    using rtcm_frames_ok [OF l, of f] by (simp add: on_rtcm_chunk_def GNSSDriverManager_def split_beta publishRtcm_ok)
  then show ?thesis using driver_run_sound [OF demo_run] by simp
qed

end
