(* ===== verification/Cxx_Map.thy ===== *)
theory Cxx_Map
  imports Prelude
begin

text \<open>
  A \<open>std::map\<close> is a list of pairs in the order of its keys.  The locale \<open>ordered_map\<close> states what the code
  relies on; the registry and the RINEX reader use its facts.
\<close>

fun map_put :: "'k :: linorder \<Rightarrow> 'v \<Rightarrow> ('k \<times> 'v) list \<Rightarrow> ('k \<times> 'v) list" where
  "map_put k v [] = [(k, v)]"
| "map_put k v ((k', v') # m) =
     (if k < k' then (k, v) # (k', v') # m
      else if k = k' then (k, v) # m else (k', v') # map_put k v m)"

definition sorted_map :: "('k :: linorder \<times> 'v) list \<Rightarrow> bool" where
  "sorted_map m \<longleftrightarrow> sorted_wrt (<) (map fst m)"

text \<open>\<open>m[k]\<close>: a missing entry is made with a default value.\<close>

definition map_fetch :: "'v \<Rightarrow> 'k :: linorder \<Rightarrow> ('k \<times> 'v) list \<Rightarrow> ('k \<times> 'v) list" where
  "map_fetch dflt k m = (case map_of m k of None \<Rightarrow> map_put k dflt m | Some v \<Rightarrow> m)"

locale ordered_map =
  fixes lookup :: "'m \<Rightarrow> 'k \<Rightarrow> 'v option"
    and put :: "'k \<Rightarrow> 'v \<Rightarrow> 'm \<Rightarrow> 'm"
    and fetch :: "'v \<Rightarrow> 'k \<Rightarrow> 'm \<Rightarrow> 'm"
    and valid :: "'m \<Rightarrow> bool"
  assumes lookup_put: "valid m \<Longrightarrow> lookup (put k v m) k' = (if k' = k then Some v else lookup m k')"
    and valid_put: "valid m \<Longrightarrow> valid (put k v m)"
    and fetch_cases: "fetch d k m = (case lookup m k of None \<Rightarrow> put k d m | Some v \<Rightarrow> m)"
begin

lemma valid_fetch: "valid m \<Longrightarrow> valid (fetch d k m)"
  by (simp add: fetch_cases valid_put split: option.split)

lemma lookup_fetch:
  "valid m \<Longrightarrow> lookup (fetch d k m) k'
     = (if k' = k then Some (case lookup m k of None \<Rightarrow> d | Some v \<Rightarrow> v) else lookup m k')"
  by (auto simp add: fetch_cases lookup_put split: option.split)

end

lemma map_put_keys: "set (map fst (map_put k v m)) = insert k (set (map fst m))"
  by (induction k v m rule: map_put.induct) (simp_all add: insert_commute)

lemma sorted_map_Cons: "sorted_map ((k, v) # m) \<longleftrightarrow> (\<forall>k' \<in> set (map fst m). k < k') \<and> sorted_map m"
  by (simp add: sorted_map_def)

interpretation cxx_map: ordered_map "\<lambda>m. map_of m" map_put map_fetch sorted_map
proof
  fix m :: "('a :: linorder \<times> 'b) list" and k v k'
  assume "sorted_map m"
  then show "map_of (map_put k v m) k' = (if k' = k then Some v else map_of m k')"
  proof (induction m)
    case (Cons p m)
    then show ?case by (cases p) (auto simp add: sorted_map_Cons)
  qed simp
  from \<open>sorted_map m\<close> show "sorted_map (map_put k v m)"
  proof (induction m)
    case (Cons p m)
    obtain a b where p: "p = (a, b)" by (cases p)
    have "a < x" if "k \<noteq> a" "\<not> k < a" "x \<in> set (map fst (map_put k v m))" for x
      using that Cons.prems unfolding map_put_keys p sorted_map_Cons by auto
    with Cons show ?case by (auto simp add: p sorted_map_Cons simp del: set_map)
  qed (simp add: sorted_map_def)
qed (rule map_fetch_def)

end
