(* ===== verification/State_Registry.thy ===== *)
theory State_Registry
  imports Cxx_Strings Cxx_Map "HOL-Library.Char_ord" "HOL-Library.List_Lexorder"
begin

text \<open>
  \<open>StateMachineRegistry\<close> (\<open>state_machine_registry.cpp\<close>): named two-state machines that are activated by events and
  deactivated by a time-out.  Each operation holds the mutex, so it is one step.
\<close>

section \<open>The registry\<close>

datatype machine_state = Deactive | Active

text \<open>Times are nanoseconds of the steady clock, time-outs milliseconds.\<close>

record machine_definition =
  definition_id :: string
  display_name :: string
  deactivate_timeout :: int

record machine_instance =
  machine_state :: machine_state
  active_count :: u64
  last_event_time :: int
  last_transition_time :: int
  last_detail :: string

record registry =
  definitions :: "(string \<times> machine_definition) list"
  instances :: "(string \<times> machine_instance) list"

definition empty_registry :: registry where
  "empty_registry = \<lparr>definitions = [], instances = []\<rparr>"

definition new_instance :: machine_instance where
  "new_instance =
     \<lparr>machine_state = Deactive, active_count = 0, last_event_time = 0, last_transition_time = 0, last_detail = []\<rparr>"

text \<open>The two exceptions, both \<open>std::invalid_argument\<close>.\<close>

datatype registry_error = Empty_id | Unknown_id string

definition composeInstanceId :: "string \<Rightarrow> string \<Rightarrow> string" where
  "composeInstanceId d key = (if key = [] then d else d @ CHR '':'' # key)"

text \<open>The identifier of the instance, and the registry in which it exists.\<close>

definition ensureInstanceLocked :: "string \<Rightarrow> string \<Rightarrow> registry \<Rightarrow> registry_error + string \<times> registry" where
  "ensureInstanceLocked d key r =
     (if map_of (definitions r) d = None then Inl (Unknown_id d)
      else let k = composeInstanceId d key
        in Inr (k, r\<lparr>instances := map_fetch new_instance k (instances r)\<rparr>))"

definition setStateLocked :: "machine_state \<Rightarrow> string \<Rightarrow> int \<Rightarrow> machine_instance \<Rightarrow> bool \<times> machine_instance" where
  "setStateLocked new_state detail now i =
     (let changed = (machine_state i \<noteq> new_state); i1 = i\<lparr>machine_state := new_state, last_detail := detail\<rparr>
      in (changed, if changed then i1\<lparr>last_transition_time := now\<rparr> else i1))"

text \<open>An operation on one instance.\<close>

definition on_instance ::
    "(machine_instance \<Rightarrow> bool \<times> machine_instance) \<Rightarrow> string \<Rightarrow> string \<Rightarrow> registry \<Rightarrow> registry_error + bool \<times> registry" where
  "on_instance f d key r =
     (case ensureInstanceLocked d key r of
        Inl e \<Rightarrow> Inl e
      | Inr (k, r1) \<Rightarrow>
          (let (changed, i) = f (the (map_of (instances r1) k))
           in Inr (changed, r1\<lparr>instances := map_put k i (instances r1)\<rparr>)))"

definition reportEvent :: "int \<Rightarrow> string \<Rightarrow> string \<Rightarrow> string \<Rightarrow> registry \<Rightarrow> registry_error + bool \<times> registry" where
  "reportEvent now d key detail =
     on_instance (\<lambda>i. setStateLocked Active detail now (i\<lparr>active_count := active_count i + 1, last_event_time := now\<rparr>)) d key"

definition setActive :: "int \<Rightarrow> string \<Rightarrow> string \<Rightarrow> string \<Rightarrow> registry \<Rightarrow> registry_error + bool \<times> registry" where
  "setActive now d key detail = on_instance (\<lambda>i. setStateLocked Active detail now (i\<lparr>last_event_time := now\<rparr>)) d key"

definition setDeactive :: "int \<Rightarrow> string \<Rightarrow> string \<Rightarrow> string \<Rightarrow> registry \<Rightarrow> registry_error + bool \<times> registry" where
  "setDeactive now d key detail = on_instance (setStateLocked Deactive detail now) d key"

definition registerDefinition :: "machine_definition \<Rightarrow> registry \<Rightarrow> registry_error + registry" where
  "registerDefinition d r =
     (if definition_id d = [] then Inl Empty_id
      else let d1 = (if display_name d = [] then d\<lparr>display_name := definition_id d\<rparr> else d)
        in case ensureInstanceLocked (definition_id d1) [] (r\<lparr>definitions := map_put (definition_id d1) d1 (definitions r)\<rparr>) of
             Inl e \<Rightarrow> Inl e
           | Inr (k, r1) \<Rightarrow> Inr r1)"

text \<open>
  One instance under one definition of \<open>tick\<close>.  The test on the identifier is whether it begins with that of
  the definition.
\<close>

definition tick_instance :: "int \<Rightarrow> machine_definition \<Rightarrow> string \<times> machine_instance \<Rightarrow> bool \<times> (string \<times> machine_instance)" where
  "tick_instance now d ki =
     (case ki of (k, i) \<Rightarrow>
        if \<not> starts_with k (definition_id d) then (False, ki)
        else if machine_state i \<noteq> Active then (False, ki)
        else if now - last_event_time i < deactivate_timeout d * 1000000 then (False, ki)
        else (let (changed, i1) = setStateLocked Deactive ''timeout'' now i in (changed, (k, i1))))"

definition tick_definition :: "int \<Rightarrow> machine_definition \<Rightarrow> bool \<times> registry \<Rightarrow> bool \<times> registry" where
  "tick_definition now d cr =
     (if deactivate_timeout d \<le> 0 then cr
      else let out = map (tick_instance now d) (instances (snd cr))
        in (fst cr \<or> list_ex fst out, (snd cr)\<lparr>instances := map snd out\<rparr>))"

definition tick :: "int \<Rightarrow> registry \<Rightarrow> bool \<times> registry" where
  "tick now r = fold (tick_definition now \<circ> snd) (definitions r) (False, r)"

definition stateLabel :: "machine_state \<Rightarrow> string" where
  "stateLabel s = (if s = Active then ''ACTIVE'' else ''DEACTIVE'')"

definition stateColor :: "machine_state \<Rightarrow> string" where
  "stateColor s = CHR 0x1B # (if s = Active then ''[31m'' else ''[32m'')"

text \<open>\<open>std::left\<close> with \<open>setw\<close> pads with blanks on the right.\<close>

definition render_instance :: "machine_definition \<Rightarrow> string \<times> machine_instance \<Rightarrow> string" where
  "render_instance d ki =
     (case ki of (k, i) \<Rightarrow>
        if \<not> starts_with k (definition_id d) then []
        else let label = stateLabel (machine_state i) in
          CHR 0x0A # ''  '' @ stateColor (machine_state i) @ ''['' @ label @ replicate (8 - length label) CHR '' ''
          @ '']'' @ '' '' @ display_name d
          @ (if length k > length (definition_id d) + 1 then '' key='' @ drop (length (definition_id d) + 1) k else [])
          @ '' count='' @ dec (unat (active_count i))
          @ (if last_detail i \<noteq> [] then '' detail='' @ last_detail i else [])
          @ CHR 0x1B # ''[0m'')"

definition renderStatusList :: "registry \<Rightarrow> string" where
  "renderStatusList r =
     ''State Machine List:'' @ concat (map (\<lambda>(n, d). concat (map (render_instance d) (instances r))) (definitions r))"

section \<open>Time-outs\<close>

text \<open>An instance is due when some definition whose identifier begins its own has timed out.\<close>

definition due :: "int \<Rightarrow> (string \<times> machine_definition) list \<Rightarrow> string \<times> machine_instance \<Rightarrow> bool" where
  "due now ds ki \<longleftrightarrow> machine_state (snd ki) = Active
     \<and> (\<exists>(n, d) \<in> set ds. 0 < deactivate_timeout d \<and> starts_with (fst ki) (definition_id d)
          \<and> deactivate_timeout d * 1000000 \<le> now - last_event_time (snd ki))"

definition timed_out :: "int \<Rightarrow> machine_instance \<Rightarrow> machine_instance" where
  "timed_out now i = i\<lparr>machine_state := Deactive, last_detail := ''timeout'', last_transition_time := now\<rparr>"

definition after_tick :: "int \<Rightarrow> (string \<times> machine_definition) list \<Rightarrow> string \<times> machine_instance \<Rightarrow> string \<times> machine_instance" where
  "after_tick now ds ki = (if due now ds ki then (fst ki, timed_out now (snd ki)) else ki)"

lemma tick_instance_due:
  "0 < deactivate_timeout d \<Longrightarrow> tick_instance now d ki = (due now [(n, d)] ki, after_tick now [(n, d)] ki)"
  by (cases ki) (auto simp add: tick_instance_def due_def after_tick_def timed_out_def setStateLocked_def Let_def)

lemma tick_definition_spec:
  "tick_definition now d (c, r) = (c \<or> list_ex (due now [(n, d)]) (instances r),
     r\<lparr>instances := map (after_tick now [(n, d)]) (instances r)\<rparr>)"
proof (cases "0 < deactivate_timeout d")
  case True
  then show ?thesis
    by (simp add: tick_definition_def tick_instance_due [where n = n] Let_def comp_def list_ex_iff)
next
  case False
  then have n: "\<not> due now [(n, d)] ki" for ki by (simp add: due_def)
  then have "after_tick now [(n, d)] = (\<lambda>ki. ki)" by (intro ext) (simp add: after_tick_def)
  with False n show ?thesis by (simp add: tick_definition_def list_ex_iff)
qed

lemma due_Cons: "due now (p # ds) ki \<longleftrightarrow> due now [p] ki \<or> due now ds ki"
  by (auto simp add: due_def)

lemma after_tick_Cons: "after_tick now (p # ds) ki = after_tick now ds (after_tick now [p] ki)"
proof (cases "due now [p] ki")
  case True
  then have "\<not> due now ds (after_tick now [p] ki)" by (simp add: after_tick_def due_def timed_out_def)
  with True show ?thesis by (simp add: after_tick_def [of now "p # ds"] due_Cons [of now p ds]) (simp add: after_tick_def)
next
  case False
  then show ?thesis by (simp add: after_tick_def due_Cons [of now p ds])
qed

lemma due_after: "due now ds (after_tick now [p] ki) \<longleftrightarrow> due now ds ki \<and> \<not> due now [p] ki"
  by (auto simp add: after_tick_def due_def timed_out_def)

lemma fold_tick:
  "fold (tick_definition now \<circ> snd) ds (c, r)
     = (c \<or> list_ex (due now ds) (instances r), r\<lparr>instances := map (after_tick now ds) (instances r)\<rparr>)"
proof (induction ds arbitrary: c r)
  case Nil
  have "\<not> due now [] ki" for ki by (simp add: due_def)
  then show ?case by (simp add: after_tick_def list_ex_iff)
next
  case (Cons p ds)
  obtain n d where p: "p = (n, d)" by (cases p)
  have s: "after_tick now (p # ds) = after_tick now ds \<circ> after_tick now [p]"
    by (rule ext) (simp add: after_tick_Cons [of now p ds])
  have "fold (tick_definition now \<circ> snd) (p # ds) (c, r)
      = fold (tick_definition now \<circ> snd) ds (c \<or> list_ex (due now [p]) (instances r),
          r\<lparr>instances := map (after_tick now [p]) (instances r)\<rparr>)"
    by (simp add: p tick_definition_spec [where n = n])
  also have "\<dots> = ((c \<or> list_ex (due now [p]) (instances r)) \<or> list_ex (due now ds) (map (after_tick now [p]) (instances r)),
      r\<lparr>instances := map (after_tick now ds) (map (after_tick now [p]) (instances r))\<rparr>)"
    by (simp add: Cons.IH)
  also have "(c \<or> list_ex (due now [p]) (instances r)) \<or> list_ex (due now ds) (map (after_tick now [p]) (instances r))
      \<longleftrightarrow> c \<or> list_ex (due now (p # ds)) (instances r)"
    using due_Cons [of now p ds] due_after [of now ds p] by (auto simp add: list_ex_iff)
  finally show ?case by (simp add: s)
qed

lemma tick_due:
  "tick now r = (list_ex (due now (definitions r)) (instances r),
     r\<lparr>instances := map (after_tick now (definitions r)) (instances r)\<rparr>)"
  by (simp add: tick_def fold_tick)

section \<open>Histories\<close>

datatype registry_call =
    Register machine_definition
  | Report int string string string
  | Set_active int string string string
  | Set_deactive int string string string
  | Tick int

fun call_registry :: "registry_call \<Rightarrow> registry \<Rightarrow> registry_error + bool \<times> registry" where
  "call_registry (Register d) r = (case registerDefinition d r of Inl e \<Rightarrow> Inl e | Inr r' \<Rightarrow> Inr (False, r'))"
| "call_registry (Report now d key detail) r = reportEvent now d key detail r"
| "call_registry (Set_active now d key detail) r = setActive now d key detail r"
| "call_registry (Set_deactive now d key detail) r = setDeactive now d key detail r"
| "call_registry (Tick now) r = Inr (tick now r)"

inductive registry_run :: "registry \<Rightarrow> bool" where
  fresh: "registry_run empty_registry"
| call: "registry_run r \<Longrightarrow> call_registry c r = Inr (changed, r') \<Longrightarrow> registry_run r'"

definition registry_inv :: "registry \<Rightarrow> bool" where
  "registry_inv r \<longleftrightarrow> sorted_map (definitions r) \<and> sorted_map (instances r)
     \<and> (\<forall>d m. map_of (definitions r) d = Some m \<longrightarrow> definition_id m = d \<and> d \<noteq> [] \<and> display_name m \<noteq> [])
     \<and> (\<forall>k i. map_of (instances r) k = Some i \<longrightarrow>
          (\<exists>d key. map_of (definitions r) d \<noteq> None \<and> k = composeInstanceId d key))"

lemma map_of_after_tick:
  "map_of (map (after_tick now ds) m) k = map_option (\<lambda>i. snd (after_tick now ds (k, i))) (map_of m k)"
  by (induction m) (auto simp add: after_tick_def split_beta)

lemma keys_after_tick: "map (fst \<circ> after_tick now ds) m = map fst m"
  by (simp add: after_tick_def comp_def)

lemma ensure_inv:
  assumes "registry_inv r" and "ensureInstanceLocked d key r = Inr (k, r1)"
  shows "registry_inv r1 \<and> map_of (instances r1) k \<noteq> None \<and> definitions r1 = definitions r
    \<and> map_of (definitions r) d \<noteq> None \<and> k = composeInstanceId d key"
proof -
  from assms have s: "sorted_map (instances r)" "map_of (definitions r) d \<noteq> None" "k = composeInstanceId d key"
    "r1 = r\<lparr>instances := map_fetch new_instance k (instances r)\<rparr>"
    by (auto simp add: ensureInstanceLocked_def registry_inv_def Let_def split: if_splits)
  with assms(1) cxx_map.valid_fetch [OF s(1)] cxx_map.lookup_fetch [OF s(1)] show ?thesis
    by (auto simp add: registry_inv_def split: if_splits)
qed

lemma on_instance_inv:
  assumes "registry_inv r" and "on_instance f d key r = Inr (c, r')"
  shows "registry_inv r'"
proof -
  obtain k r1 where e: "ensureInstanceLocked d key r = Inr (k, r1)"
    using assms(2) by (auto simp add: on_instance_def split: sum.splits)
  note inv = ensure_inv [OF assms(1) e]
  then have s: "sorted_map (instances r1)" by (simp add: registry_inv_def)
  obtain i where "r' = r1\<lparr>instances := map_put k i (instances r1)\<rparr>"
    using assms(2) e by (auto simp add: on_instance_def split: prod.splits)
  with inv cxx_map.lookup_put [OF s] cxx_map.valid_put [OF s] show ?thesis
    by (auto simp add: registry_inv_def split: if_splits)
qed

lemma register_inv:
  assumes "registry_inv r" and "registerDefinition d r = Inr r'"
  shows "registry_inv r'"
proof -
  define d1 where "d1 = (if display_name d = [] then d\<lparr>display_name := definition_id d\<rparr> else d)"
  let ?r = "r\<lparr>definitions := map_put (definition_id d1) d1 (definitions r)\<rparr>"
  have d: "definition_id d \<noteq> []" "definition_id d1 = definition_id d" "display_name d1 \<noteq> []"
    using assms(2) by (auto simp add: registerDefinition_def d1_def split: if_splits)
  have s: "sorted_map (definitions r)" using assms(1) by (simp add: registry_inv_def)
  have "registry_inv ?r"
    using assms(1) d cxx_map.lookup_put [OF s] cxx_map.valid_put [OF s]
    by (auto simp add: registry_inv_def) metis
  moreover obtain k where "ensureInstanceLocked (definition_id d1) [] ?r = Inr (k, r')"
    using assms(2) by (auto simp add: registerDefinition_def Let_def d1_def [symmetric] split: if_splits sum.splits)
  ultimately show ?thesis using ensure_inv by blast
qed

lemma tick_inv: "registry_inv r \<Longrightarrow> registry_inv (snd (tick now r))"
  by (auto simp add: registry_inv_def tick_due map_of_after_tick sorted_map_def keys_after_tick)

lemma tick_inv_eq: "registry_inv r \<Longrightarrow> tick now r = (c, r') \<Longrightarrow> registry_inv r'"
  using tick_inv [of r now] by simp

lemma registry_run_inv: "registry_run r \<Longrightarrow> registry_inv r"
proof (induction rule: registry_run.induct)
  case fresh
  then show ?case by (simp add: registry_inv_def empty_registry_def sorted_map_def)
next
  case (call r c changed r')
  then show ?case
    by (cases c) (auto simp add: reportEvent_def setActive_def setDeactive_def
        intro: on_instance_inv register_inv tick_inv_eq split: sum.splits)
qed


text \<open>A machine without a time-out of its own is stopped by that of a machine whose name begins its name.\<close>

definition two_machines :: registry where
  "two_machines =
     \<lparr>definitions =
        [(''RTCM'', \<lparr>definition_id = ''RTCM'', display_name = ''r'', deactivate_timeout = 5\<rparr>),
         (''RTCM_STREAM'', \<lparr>definition_id = ''RTCM_STREAM'', display_name = ''s'', deactivate_timeout = 0\<rparr>)],
      instances =
        [(''RTCM'', new_instance),
         (''RTCM_STREAM'', \<lparr>machine_state = Active, active_count = 1, last_event_time = 0, last_transition_time = 0,
            last_detail = []\<rparr>)]\<rparr>"

lemma two_machines_run: "registry_run two_machines"
proof -
  let ?calls = "[Register \<lparr>definition_id = ''RTCM'', display_name = ''r'', deactivate_timeout = 5\<rparr>,
     Register \<lparr>definition_id = ''RTCM_STREAM'', display_name = ''s'', deactivate_timeout = 0\<rparr>,
     Report 0 ''RTCM_STREAM'' [] []]"
  define run where "run = foldl (\<lambda>x c. case x of Inl e \<Rightarrow> Inl e | Inr r \<Rightarrow>
      (case call_registry c r of Inl e \<Rightarrow> Inl e | Inr (_, r') \<Rightarrow> Inr r'))"
  have "registry_run r'" if "run (Inr r) cs = Inr r'" "registry_run r" for r r' cs
    using that
  proof (induction cs arbitrary: r)
    case (Cons c cs)
    have "run (Inl e) cs \<noteq> Inr r'" for e by (induction cs) (simp_all add: run_def)
    with Cons show ?case
      by (cases "call_registry c r") (auto simp add: run_def intro: registry_run.call)
  qed (simp add: run_def)
  moreover have "run (Inr empty_registry) ?calls = Inr two_machines"
    unfolding run_def by code_simp
  ultimately show ?thesis using registry_run.fresh by blast
qed


end
