(* ===== verification/Rinex_Text.thy ===== *)
theory Rinex_Text
  imports Cxx_Float Cxx_Strings
begin

text \<open>
  What \<open>rinex_helper.cpp\<close> uses of the standard library: \<open>std::getline\<close> on a file, \<open>substr\<close> and \<open>at\<close> with their
  exceptions, \<open>std::stoi\<close>, \<open>std::stod\<close>, and the conversions of \<open>fprintf\<close>.
\<close>

section \<open>Outcomes\<close>

text \<open>\<open>LOG(FATAL)\<close> ends the process, an exception is not caught; an access behind the end of a
  vector and output to a file that could not be opened are undefined.\<close>

datatype rinex_error = Fatal | Thrown cxx_error | Overrun | Null_file

abbreviation out_of_range :: "rinex_error + 'a" where
  "out_of_range \<equiv> Inl (Thrown Out_of_range)"

fun thrown :: "cxx_error + 'a \<Rightarrow> rinex_error + 'a" where
  "thrown (Inl e) = Inl (Thrown e)"
| "thrown (Inr x) = Inr x"

lemma thrown_Inr [simp]: "thrown m = Inr x \<longleftrightarrow> m = Inr x"
  by (cases m) simp_all

definition substr :: "string \<Rightarrow> nat \<Rightarrow> nat \<Rightarrow> rinex_error + string" where
  "substr s pos n = (if length s < pos then out_of_range else Inr (take n (drop pos s)))"

definition char_at :: "string \<Rightarrow> nat \<Rightarrow> rinex_error + char" where
  "char_at s i = (if i < length s then Inr (s ! i) else out_of_range)"

text \<open>\<open>s.find(p) != npos\<close>.\<close>

definition contains :: "string \<Rightarrow> string \<Rightarrow> bool" where
  "contains s p \<longleftrightarrow> find_sub p s \<noteq> None"

section \<open>Files\<close>

text \<open>
  An input file: what has not been read, and whether the stream is still good.  A file that could not be opened
  is not good.  The call of \<open>getline\<close> that meets the end of the file leaves the stream not good, with the text
  before the end as its line when there is one; a call on a stream that is not good leaves the line as it was.
\<close>

record istream =
  unread :: string
  good :: bool

definition not_newline :: "char \<Rightarrow> bool" where
  "not_newline c \<longleftrightarrow> c \<noteq> CHR 0x0A"

definition getline :: "istream \<Rightarrow> string \<Rightarrow> bool \<times> string \<times> istream" where
  "getline f line =
     (if \<not> good f then (False, line, f)
      else let l = takeWhile not_newline (unread f); r = drop (length l) (unread f) in
        if r \<noteq> [] then (True, l, f\<lparr>unread := tl r\<rparr>)
        else (l \<noteq> [], l, f\<lparr>unread := [], good := False\<rparr>))"

definition file_size :: "istream \<Rightarrow> nat" where
  "file_size f = length (unread f)"

lemma getline_size_le: "getline f line = (ok, line', f') \<Longrightarrow> file_size f' \<le> file_size f"
  by (auto simp add: getline_def file_size_def Let_def split: if_splits)

lemma getline_size: "getline f line = (True, line', f') \<Longrightarrow> file_size f' < file_size f"
  by (auto simp add: getline_def file_size_def Let_def split: if_splits)

text \<open>A line followed by more text.\<close>

lemma getline_line:
  assumes "good f" and "unread f = l @ CHR 0x0A # r" and "CHR 0x0A \<notin> set l"
  shows "getline f line = (True, l, f\<lparr>unread := r\<rparr>)"
proof -
  have "takeWhile not_newline (l @ CHR 0x0A # r) = l"
    using assms(3) by (subst takeWhile_append2) (auto simp add: not_newline_def)
  with assms show ?thesis by (simp add: getline_def)
qed

lemma getline_end: "unread f = [] \<Longrightarrow> fst (getline f line) = False"
  by (simp add: getline_def)

section \<open>Numbers\<close>

text \<open>The value of a run of digits, as a number that is not unary when it is computed.\<close>

definition digits_int :: "string \<Rightarrow> int" where
  "digits_int ds = foldl (\<lambda>n c. 10 * n + int (digit_val c)) 0 ds"

definition hex_int :: "string \<Rightarrow> int" where
  "hex_int ds = foldl (\<lambda>n c. 16 * n + int (the (hex_val c))) 0 ds"

lemma digits_int: "digits_int ds = int (digits_val ds)"
proof -
  have "foldl (\<lambda>n c. 10 * n + int (digit_val c)) (int k) ds = int (foldl (\<lambda>n c. 10 * n + digit_val c) k ds)" for k
  proof (induction ds arbitrary: k)
    case (Cons c ds)
    from Cons.IH [of "10 * k + digit_val c"] show ?case by simp
  qed simp
  from this [of 0] show ?thesis by (simp add: digits_int_def digits_val_def)
qed

definition stoi :: "string \<Rightarrow> cxx_error + int" where
  "stoi s =
     (let (neg, t) = split_sign s; ds = takeWhile is_digit t; n = (if neg then - digits_int ds else digits_int ds)
      in if ds = [] then Inl Invalid_argument
         else if - (2 ^ 31) \<le> n \<and> n < 2 ^ 31 then Inr n else Inl Out_of_range)"

text \<open>The optional exponent of a number: a letter, a sign, and at least one digit.\<close>

definition exponent :: "char list \<Rightarrow> string \<Rightarrow> int" where
  "exponent letters s =
     (case s of
        [] \<Rightarrow> 0
      | c # cs \<Rightarrow>
          if c \<notin> set letters then 0
          else let (neg, t) = (case cs of [] \<Rightarrow> (False, [])
                 | d # ds \<Rightarrow> if d = CHR ''-'' then (True, ds) else if d = CHR ''+'' then (False, ds) else (False, cs));
                 n = digits_int (takeWhile is_digit t)
            in if neg then - n else n)"

text \<open>Digits, an optional point with more digits, and the rest of the text.\<close>

definition mantissa :: "(char \<Rightarrow> bool) \<Rightarrow> string \<Rightarrow> string \<times> string \<times> string" where
  "mantissa digit s =
     (let a = takeWhile digit s; r = dropWhile digit s
      in case r of
           [] \<Rightarrow> (a, [], [])
         | c # cs \<Rightarrow> if c = CHR ''.'' then (a, takeWhile digit cs, dropWhile digit cs) else (a, [], r))"

text \<open>
  \<open>strtod\<close> sets \<open>ERANGE\<close> when the number is too large, and when it is not zero but its double is, or is
  not exact and below the normal range.
\<close>

fun underflow :: "f64 \<Rightarrow> (int \<Rightarrow> int \<Rightarrow> bool) \<Rightarrow> bool" where
  "underflow (Fin m e) exact = (\<bar>m\<bar> < 2 ^ 52 \<and> \<not> exact m e)"
| "underflow x exact = False"

definition ranged :: "bool \<Rightarrow> f64 \<Rightarrow> (int \<Rightarrow> int \<Rightarrow> bool) \<Rightarrow> cxx_error + f64" where
  "ranged neg x exact =
     (if x = Inf False \<or> underflow x exact then Inl Out_of_range else Inr (if neg then fneg x else x))"

definition stod_dec :: "bool \<Rightarrow> string \<Rightarrow> cxx_error + f64" where
  "stod_dec neg s =
     (let (a, b, r) = mantissa is_digit s; d = digits_int (a @ b); k = exponent ''eE'' r - int (length b)
      in if a = [] \<and> b = [] then Inl Invalid_argument
         else ranged neg (f64_dec d k)
                (\<lambda>m e. m * 2 ^ nat e * 10 ^ nat (- k) = d * 2 ^ nat (- e) * 10 ^ nat k))"

definition stod_hex :: "bool \<Rightarrow> string \<Rightarrow> cxx_error + f64" where
  "stod_hex neg s =
     (let (a, b, r) = mantissa is_hex s; h = hex_int (a @ b); k = exponent ''pP'' r - 4 * int (length b)
      in ranged neg (f64_of h k) (\<lambda>m e. m * 2 ^ nat (e - min e k) = h * 2 ^ nat (k - min e k)))"

definition hex_prefix :: "string \<Rightarrow> bool" where
  "hex_prefix s \<longleftrightarrow> map to_lower_char (take 2 s) = ''0x''
     \<and> (case drop 2 s of [] \<Rightarrow> False | c # cs \<Rightarrow> is_hex c \<or> c = CHR ''.'' \<and> cs \<noteq> [] \<and> is_hex (hd cs))"

definition stod :: "string \<Rightarrow> cxx_error + f64" where
  "stod s =
     (let (neg, t) = split_sign s
      in if map to_lower_char (take 3 t) = ''inf'' then Inr (Inf neg)
         else if map to_lower_char (take 3 t) = ''nan'' then Inr NaN
         else if hex_prefix t then stod_hex neg (drop 2 t)
         else stod_dec neg t)"

section \<open>Formatted output\<close>

text \<open>\<open>%<w>s\<close>, \<open>%-<w>s\<close>, \<open>%-<w>.<w>s\<close>, \<open>%<w>d\<close>, \<open>%<w>.<p>f\<close>, \<open>%0<w>.0f\<close>.\<close>

definition pad :: "nat \<Rightarrow> string \<Rightarrow> string" where
  "pad w s = setw w CHR '' '' s"

definition padr :: "nat \<Rightarrow> string \<Rightarrow> string" where
  "padr w s = s @ replicate (w - length s) CHR '' ''"

definition padcut :: "nat \<Rightarrow> string \<Rightarrow> string" where
  "padcut w s = padr w (take w s)"

definition pad_int :: "nat \<Rightarrow> int \<Rightarrow> string" where
  "pad_int w n = pad w (dec_int n)"

fun whole :: "f64 \<Rightarrow> bool \<times> string" where
  "whole (Fin m e) = (m < 0, dec (nat (if 0 \<le> e then \<bar>m\<bar> * 2 ^ nat e else rne \<bar>m\<bar> (nat (- e)))))"
| "whole (Inf neg) = (neg, ''inf'')"
| "whole NaN = (False, ''nan'')"

definition pad_f64 :: "nat \<Rightarrow> nat \<Rightarrow> f64 \<Rightarrow> string" where
  "pad_f64 w p x =
     pad w (if p = 0 then (if fst (whole x) then CHR ''-'' # snd (whole x) else snd (whole x)) else fixed p x)"

definition zero_pad_f64 :: "nat \<Rightarrow> f64 \<Rightarrow> string" where
  "zero_pad_f64 w x =
     (case x of
        Fin m e \<Rightarrow> (let (neg, s) = whole x; sign = (if neg then ''-'' else []) in sign @ setw (w - length sign) CHR ''0'' s)
      | _ \<Rightarrow> pad_f64 w 0 x)"

section \<open>Reading what was printed\<close>

text \<open>The characters of a number in fixed notation.\<close>

definition plain_char :: "char \<Rightarrow> bool" where
  "plain_char c \<longleftrightarrow> is_digit c \<or> c = CHR ''.''"

lemma plain_lower: "plain_char c \<Longrightarrow> to_lower_char c = c \<and> c \<noteq> CHR ''x''"
  by (auto simp add: plain_char_def is_digit_def to_lower_char_def)

lemma dec_point_plain: "c \<in> set (dec_point p n) \<Longrightarrow> plain_char c"
  by (auto simp add: dec_point_def plain_char_def setw_def is_digit_def dest: dec_all_digits)

lemma dec_point_hd: "\<exists>c cs. dec_point p n = c # cs \<and> is_digit c"
  using dec_all_digits [of _ "n div 10 ^ p"] by (cases "dec (n div 10 ^ p)") (auto simp add: dec_point_def)

lemma digits_val_append: "digits_val (a @ b) = digits_val a * 10 ^ length b + digits_val b"
proof (induction b rule: rev_induct)
  case (snoc c b)
  show ?case by (simp only: append_assoc [symmetric] digits_val_snoc snoc length_append_singleton) simp
qed simp

lemma stod_dec_point:
  assumes "0 < p"
  shows "stod_dec neg (dec_point p n) = ranged neg (f64_dec (int n) (- int p))
    (\<lambda>m e. m * 2 ^ nat e * 10 ^ p = int n * 2 ^ nat (- e))"
proof -
  let ?a = "dec (n div 10 ^ p)" and ?b = "setw p CHR ''0'' (dec (n mod 10 ^ p))"
  have d: "\<forall>c \<in> set ?a. is_digit c" "\<forall>c \<in> set ?b. is_digit c" "\<not> is_digit CHR ''.''"
    using setw_zero_digits by (auto simp add: dec_all_digits) (simp add: is_digit_def)
  have l: "length ?b = p" by (rule length_setw) (rule length_dec, simp_all add: assms)
  have m: "mantissa is_digit (dec_point p n) = (?a, ?b, [])"
  proof -
    have "takeWhile is_digit (?a @ CHR ''.'' # ?b) = ?a" "dropWhile is_digit (?a @ CHR ''.'' # ?b) = CHR ''.'' # ?b"
      "takeWhile is_digit ?b = ?b" "dropWhile is_digit ?b = []"
      using d by (simp_all add: takeWhile_tail dropWhile_append takeWhile_eq_all_conv)
    then show ?thesis by (simp add: mantissa_def dec_point_def Let_def)
  qed
  have "digits_val (?a @ ?b) = n"
    by (simp only: digits_val_append l setw_digits digits_val_dec div_mult_mod_eq)
  then have v: "digits_int (?a @ ?b) = int n" by (simp only: digits_int)
  show ?thesis unfolding stod_dec_def m prod.case Let_def v l by (simp add: exponent_def)
qed

lemma stod_plain:
  assumes "0 < p"
  shows "stod (replicate j CHR '' '' @ (if neg then ''-'' else []) @ dec_point p n) = stod_dec neg (dec_point p n)"
proof -
  obtain c cs where h: "dec_point p n = c # cs" "is_digit c" using dec_point_hd by blast
  have sp: "is_space CHR '' ''" "\<not> is_space CHR ''-''" by (simp_all add: is_space_def)
  have "dropWhile is_space (replicate j CHR '' '' @ t) = dropWhile is_space t" for t
    by (induction j) (simp_all add: sp)
  then have s: "split_sign (replicate j CHR '' '' @ (if neg then ''-'' else []) @ dec_point p n) = (neg, dec_point p n)"
    using h digit_not_sign [OF h(2)] sp by (auto simp add: split_sign_def)
  have pl: "\<forall>c \<in> set (take k (dec_point p n)). to_lower_char c = c \<and> c \<noteq> CHR ''x''" for k
    using plain_lower dec_point_plain by (blast dest: in_set_takeD)
  then have m: "map to_lower_char (take k (dec_point p n)) = take k (dec_point p n)" for k
    by (intro map_idI) blast
  have "c \<noteq> CHR ''i'' \<and> c \<noteq> CHR ''n''" using h(2) by (auto simp add: is_digit_def)
  then have 1: "take 3 (dec_point p n) \<noteq> ''inf''" "take 3 (dec_point p n) \<noteq> ''nan''" by (simp_all add: h)
  have "CHR ''x'' \<notin> set (take 2 (dec_point p n))" using pl by blast
  then have "take 2 (dec_point p n) \<noteq> ''0x''" by auto
  then have 2: "\<not> hex_prefix (dec_point p n)" by (simp add: hex_prefix_def m)
  show ?thesis unfolding stod_def s Let_def prod.case m using 1 2 by simp
qed

text \<open>A field of \<open>%14.3f\<close> is 14 wide, not blank, and read to within \<open>0.000501\<close>.\<close>

lemma value_read:
  assumes "x = Fin m e" and "\<bar>f64_real x\<bar> \<le> 999999999"
  shows "length (pad_f64 14 3 x) = 14 \<and> \<not> list_all (\<lambda>c. c = CHR '' '') (pad_f64 14 3 x)
    \<and> (\<exists>v. stod (pad_f64 14 3 x) = Inr v \<and> \<bar>f64_real v - f64_real x\<bar> \<le> 501 / 1000000)"
proof -
  obtain n where n: "fixed 3 (Fin \<bar>m\<bar> e) = dec_point 3 n"
    "\<bar>real n / 1000 - \<bar>of_int m\<bar> * 2 powi e\<bar> \<le> 1 / 2000"
    using fixed_real [of "\<bar>m\<bar>" 3 e] by auto
  have a: "\<bar>f64_real x\<bar> = \<bar>of_int m\<bar> * 2 powi e" by (simp add: assms(1) f64_real_def abs_mult)
  have "real n / 1000 \<le> 1 / 2000 + 999999999" using abs_le_D1 [OF n(2)] assms(2) a by linarith
  then have nb: "n < 10 ^ 12" by simp
  let ?s = "(if m < 0 then ''-'' else []) @ dec_point 3 n"
  have f: "fixed 3 x = ?s" unfolding assms(1) fixed_sign [of 3 m e] n(1) by (rule refl)
  have "n < 10 ^ 9 * 10 ^ 3" using nb by simp
  then have "n div 10 ^ 3 < 10 ^ 9" by (rule less_mult_imp_div_less)
  then have "length (dec (n div 10 ^ 3)) \<le> 9" by (rule length_dec) simp
  moreover have "length (setw 3 CHR ''0'' (dec (n mod 10 ^ 3))) = 3" by (rule length_setw) (rule length_dec, simp_all)
  ultimately have l: "length ?s \<le> 14" by (simp add: dec_point_def)
  have p: "pad_f64 14 3 x = replicate (14 - length ?s) CHR '' '' @ ?s" by (simp add: pad_f64_def pad_def setw_def f)
  have len: "length (pad_f64 14 3 x) = 14" unfolding pad_f64_def pad_def by (subst length_setw) (use l f in simp_all)
  have "CHR ''.'' \<in> set (pad_f64 14 3 x)" unfolding p by (simp add: dec_point_def)
  then have blank: "\<not> list_all (\<lambda>c. c = CHR '' '') (pad_f64 14 3 x)" by (auto simp add: list_all_iff)
  obtain q e' where q: "f64_dec (int n) (- 3) = Fin q e'" "n = 0 \<and> q = 0 \<and> e' = 0 \<or> 2 ^ 52 \<le> q"
    "\<bar>of_int q * 2 powi e' - real n / 1000\<bar> \<le> 1 / 1000000"
    using f64_dec_milli [OF nb] by blast
  define v where "v = (if m < 0 then fneg (Fin q e') else Fin q e')"
  have "stod (pad_f64 14 3 x) = stod_dec (m < 0) (dec_point 3 n)" unfolding p by (rule stod_plain) simp
  also have "\<dots> = Inr v" using q by (auto simp add: stod_dec_point ranged_def v_def)
  finally have "stod (pad_f64 14 3 x) = Inr v" .
  moreover have "\<bar>f64_real v - f64_real x\<bar> = \<bar>of_int q * 2 powi e' - \<bar>of_int m\<bar> * 2 powi e\<bar>"
    by (simp add: v_def assms(1) f64_real_def abs_minus_commute add.commute)
  moreover have "\<bar>of_int q * 2 powi e' - \<bar>of_int m\<bar> * 2 powi e\<bar> \<le> 1 / 2000 + 1 / (1000000 :: real)"
    using n(2) q(3) by linarith
  ultimately show ?thesis using len blank by simp
qed

end
