(* ===== verification/Rinex_Nav.thy ===== *)
theory Rinex_Nav
  imports Rinex_Text Cxx_Map Nav_BDS
begin

text \<open>
  The reader of RINEX navigation files in \<open>rinex_helper.cpp\<close>: \<open>rinex2ephems\<close> with its two record decoders, and
  \<open>rinex2iono_params\<close>.
\<close>

section \<open>Fields\<close>

definition str2double :: "string \<Rightarrow> rinex_error + f64" where
  "str2double num_str =
     thrown (stod (case find_sub ''D'' num_str of
       None \<Rightarrow> num_str
     | Some i \<Rightarrow> take i num_str @ CHR ''e'' # drop (Suc i) num_str))"

text \<open>\<open>str2double(line.substr(pos, n))\<close> and \<open>std::stoi(line.substr(pos, n))\<close>.\<close>

definition double_field :: "string \<Rightarrow> nat \<Rightarrow> nat \<Rightarrow> rinex_error + f64" where
  "double_field line pos n = bind_res (substr line pos n) str2double"

definition int_field :: "string \<Rightarrow> nat \<Rightarrow> nat \<Rightarrow> rinex_error + int" where
  "int_field line pos n = bind_res (substr line pos n) (\<lambda>s. thrown (stoi s))"

text \<open>The fields are 19 columns wide.\<close>

abbreviation num :: "string \<Rightarrow> nat \<Rightarrow> (f64 \<Rightarrow> rinex_error + 'b) \<Rightarrow> rinex_error + 'b" where
  "num line pos f \<equiv> bind_res (double_field line pos 19) f"

text \<open>The calendar date of a record.\<close>

definition record_epoch :: "string \<Rightarrow> rinex_error + f64 list" where
  "record_epoch line =
     bind_res (int_field line 4 4) (\<lambda>y.
     bind_res (int_field line 9 2) (\<lambda>mo.
     bind_res (int_field line 12 2) (\<lambda>d.
     bind_res (int_field line 15 2) (\<lambda>h.
     bind_res (int_field line 18 2) (\<lambda>mi.
     bind_res (int_field line 21 2) (\<lambda>s.
       Inr (map f64_int [y, mo, d, h, mi, s])))))))"

definition record_prn :: "string \<Rightarrow> rinex_error + u32" where
  "record_prn line = bind_res (int_field line 1 2) (\<lambda>n. Inr (word_of_int n))"

definition later :: "int \<Rightarrow> gtime \<Rightarrow> gtime" where
  "later s t = t\<lparr>gt_time := gt_time t + s\<rparr>"

section \<open>A GLONASS record\<close>

definition new_glo_ephem :: "u32 \<Rightarrow> glo_ephem" where
  "new_glo_ephem sat =
     \<lparr>eph_sat = sat, ttr = gtime0, toe = gtime0, health = 0, ura = f0, iode = 0, freqo = 0, glo_age = 0,
      glo_pos = [f0, f0, f0], glo_vel = [f0, f0, f0], glo_acc = [f0, f0, f0], tau_n = f0, gamma = f0, delta_tau_n = f0\<rparr>"

text \<open>The lines two to four: position, velocity and acceleration in one direction, in km, and one more number.\<close>

definition axis_line :: "nat \<Rightarrow> string \<Rightarrow> glo_ephem \<Rightarrow> (f64 \<Rightarrow> glo_ephem \<Rightarrow> glo_ephem) \<Rightarrow> rinex_error + glo_ephem" where
  "axis_line i line g last_field =
     num line 4 (\<lambda>p. num line 23 (\<lambda>v. num line 42 (\<lambda>a. num line 61 (\<lambda>x.
       Inr (last_field x (g\<lparr>glo_pos := (glo_pos g)[i := fmul p (f64_int 1000)],
         glo_vel := (glo_vel g)[i := fmul v (f64_int 1000)], glo_acc := (glo_acc g)[i := fmul a (f64_int 1000)]\<rparr>))))))"

definition rinex_line2glo_ephem :: "string list \<Rightarrow> u32 \<Rightarrow> rinex_error + glo_ephem" where
  "rinex_line2glo_ephem ephem_lines gpst_leap_seconds =
     (if length ephem_lines \<noteq> 4 then Inl Fatal
      else bind_res (char_at (ephem_lines ! 0) 0) (\<lambda>c. if c \<noteq> CHR ''R'' then Inl Fatal
      else bind_res (record_prn (ephem_lines ! 0)) (\<lambda>prn.
      bind_res (record_epoch (ephem_lines ! 0)) (\<lambda>epoch.
      num (ephem_lines ! 0) 23 (\<lambda>t. num (ephem_lines ! 0) 42 (\<lambda>gam.
      bind_res (axis_line 0 (ephem_lines ! 1)
          ((new_glo_ephem (sat_no SYS_GLO prn))\<lparr>toe := later (uint gpst_leap_seconds) (epoch2time epoch),
             tau_n := fmul (f64_int (- 1)) t, gamma := gam\<rparr>) (\<lambda>x g. g\<lparr>health := to_u32 x\<rparr>)) (\<lambda>g1.
      bind_res (axis_line 1 (ephem_lines ! 2) g1 (\<lambda>x g. g\<lparr>freqo := to_i32 x\<rparr>)) (\<lambda>g2.
      axis_line 2 (ephem_lines ! 3) g2 (\<lambda>x g. g\<lparr>glo_age := to_u32 x\<rparr>)))))))))"

section \<open>A GPS, BeiDou or Galileo record\<close>

definition record_sys :: "char \<Rightarrow> u32" where
  "record_sys c =
     (if c = CHR ''G'' then SYS_GPS else if c = CHR ''C'' then SYS_BDS else if c = CHR ''E'' then SYS_GAL else SYS_NONE)"

definition clock_line :: "u32 \<Rightarrow> string \<Rightarrow> rinex_error + ephem" where
  "clock_line sat_sys line =
     bind_res (record_prn line) (\<lambda>prn. bind_res (record_epoch line) (\<lambda>epoch.
     num line 23 (\<lambda>a0. num line 42 (\<lambda>a1. num line 61 (\<lambda>a2.
       Inr ((new_ephem (sat_no sat_sys prn))
         \<lparr>toc := (if sat_sys = SYS_BDS then later 14 (epoch2time epoch) else epoch2time epoch),
          af0 := a0, af1 := a1, af2 := a2\<rparr>))))))"

definition orbit_line_1 :: "u32 \<Rightarrow> string \<Rightarrow> ephem \<Rightarrow> rinex_error + ephem" where
  "orbit_line_1 sat_sys line e =
     bind_res (if sat_sys = SYS_GPS then num line 4 (\<lambda>x. Inr (e\<lparr>iode := to_u32 x\<rparr>)) else Inr e) (\<lambda>e1.
     num line 23 (\<lambda>a. num line 42 (\<lambda>b. num line 61 (\<lambda>c. Inr (e1\<lparr>crs := a, delta_n := b, m0 := c\<rparr>)))))"

definition orbit_line_2 :: "string \<Rightarrow> ephem \<Rightarrow> rinex_error + ephem" where
  "orbit_line_2 line e =
     num line 4 (\<lambda>a. num line 23 (\<lambda>b. num line 42 (\<lambda>c. num line 61 (\<lambda>sqrt_A.
       Inr (e\<lparr>cuc := a, eph_e := b, cus := c, eph_a := fmul sqrt_A sqrt_A\<rparr>)))))"

definition orbit_line_3 :: "string \<Rightarrow> ephem \<Rightarrow> rinex_error + ephem" where
  "orbit_line_3 line e =
     num line 4 (\<lambda>a. num line 23 (\<lambda>b. num line 42 (\<lambda>c. num line 61 (\<lambda>d.
       Inr (e\<lparr>toe_tow := a, cic := b, omg0 := c, cis := d\<rparr>)))))"

definition orbit_line_4 :: "string \<Rightarrow> ephem \<Rightarrow> rinex_error + ephem" where
  "orbit_line_4 line e =
     num line 4 (\<lambda>a. num line 23 (\<lambda>b. num line 42 (\<lambda>c. num line 61 (\<lambda>d.
       Inr (e\<lparr>i0 := a, eph_crc := b, omg := c, omg_dot := d\<rparr>)))))"

text \<open>True stands for the early return: a Galileo record that does not come from the I/NAV message on E1.\<close>

definition orbit_line_5 :: "u32 \<Rightarrow> string \<Rightarrow> ephem \<Rightarrow> rinex_error + bool \<times> ephem" where
  "orbit_line_5 sat_sys line e =
     num line 4 (\<lambda>a.
     let e1 = e\<lparr>i_dot := a\<rparr> in
     bind_res (if sat_sys = SYS_GAL then num line 23 (\<lambda>x. Inr (to_u32 x AND 1 = 0)) else Inr False) (\<lambda>stop.
     if stop then Inr (True, e1)
     else num line 42 (\<lambda>w.
       let e2 = e1\<lparr>week := to_u32 w\<rparr>
       in Inr (False, e2\<lparr>toe :=
            (if sat_sys = SYS_GPS \<or> sat_sys = SYS_GAL then gpst2time (week e2) (toe_tow e2)
             else bdt2time (sint (week e2)) (fadd (toe_tow e2) (f64_int 14)))\<rparr>))))"

definition orbit_line_6 :: "u32 \<Rightarrow> string \<Rightarrow> ephem \<Rightarrow> rinex_error + ephem" where
  "orbit_line_6 sat_sys line e =
     num line 4 (\<lambda>a. num line 23 (\<lambda>b. num line 42 (\<lambda>c. num line 61 (\<lambda>d.
       let e1 = e\<lparr>ura := a, health := to_u32 b, tgd0 := c\<rparr>
       in Inr (if sat_sys = SYS_GPS then e1\<lparr>iodc := to_u32 d\<rparr> else e1\<lparr>tgd1 := d\<rparr>)))))"

definition orbit_line_7 :: "u32 \<Rightarrow> string \<Rightarrow> ephem \<Rightarrow> rinex_error + ephem" where
  "orbit_line_7 sat_sys line e =
     num line 4 (\<lambda>ttr_tow.
       Inr (if sat_sys = SYS_BDS
         then let (w, tow) = time2gpst (toe e)
           in e\<lparr>ttr := bdt2time (sint (week e)) ttr_tow, toe_tow := tow, week := w\<rparr>
         else e\<lparr>ttr := gpst2time (week e) ttr_tow\<rparr>))"

definition rinex_line2ephem :: "string list \<Rightarrow> rinex_error + ephem" where
  "rinex_line2ephem ephem_lines =
     (if length ephem_lines \<noteq> 8 then Inl Fatal
      else bind_res (char_at (ephem_lines ! 0) 0) (\<lambda>c.
        let sat_sys = record_sys c in if sat_sys = SYS_NONE then Inl Fatal
      else bind_res (clock_line sat_sys (ephem_lines ! 0)) (\<lambda>e0.
      bind_res (orbit_line_1 sat_sys (ephem_lines ! 1) e0) (\<lambda>e1.
      bind_res (orbit_line_2 (ephem_lines ! 2) e1) (\<lambda>e2.
      bind_res (orbit_line_3 (ephem_lines ! 3) e2) (\<lambda>e3.
      bind_res (orbit_line_4 (ephem_lines ! 4) e3) (\<lambda>e4.
      bind_res (orbit_line_5 sat_sys (ephem_lines ! 5) e4) (\<lambda>(stop, e5).
      if stop then Inr e5
      else bind_res (orbit_line_6 sat_sys (ephem_lines ! 6) e5)
        (orbit_line_7 sat_sys (ephem_lines ! 7))))))))))"

section \<open>The file\<close>

text \<open>An \<open>EphemBasePtr\<close>, and the map from satellites to their ephemerides.\<close>

datatype rinex_ephem = Eph ephem | Glo glo_ephem

fun base_sat :: "rinex_ephem \<Rightarrow> u32" where
  "base_sat (Eph e) = eph_sat e"
| "base_sat (Glo g) = eph_sat g"

type_synonym ephem_map = "(u32 \<times> rinex_ephem list) list"

definition push_ephem :: "rinex_ephem \<Rightarrow> ephem_map \<Rightarrow> ephem_map" where
  "push_ephem e m =
     (let k = base_sat e; m1 = map_fetch [] k m in map_put k (the (map_of m1 k) @ [e]) m1)"

text \<open>None: the version is not supported.\<close>

function nav_header :: "u32 \<Rightarrow> istream \<Rightarrow> rinex_error + (u32 \<times> istream) option" where
  "nav_header gpst_leap_seconds f =
     (case getline f [] of (ok, line, f1) \<Rightarrow>
        if \<not> ok then Inr (Some (gpst_leap_seconds, f1))
        else if contains line ''RINEX VERSION / TYPE'' \<and> \<not> contains line ''3.04'' then Inr None
        else if contains line ''LEAP SECONDS'' \<and> \<not> contains line ''BDS'' then
          bind_res (int_field line 4 6) (\<lambda>n. nav_header (word_of_int n) f1)
        else if contains line ''END OF HEADER'' then Inr (Some (gpst_leap_seconds, f1))
        else nav_header gpst_leap_seconds f1)"
  by pat_completeness auto

termination
  by (relation "measure (\<lambda>(l, f). file_size f)") (auto dest: getline_size [OF sym])

text \<open>The lines of a record after its first; a line that cannot be read is the line before it, or empty.\<close>

fun more_lines :: "nat \<Rightarrow> string \<Rightarrow> istream \<Rightarrow> string list \<times> istream" where
  "more_lines 0 line f = ([], f)"
| "more_lines (Suc n) line f =
     (case getline f line of (ok, line1, f1) \<Rightarrow>
        case more_lines n line1 f1 of (ls, f2) \<Rightarrow> (line1 # ls, f2))"

lemma more_lines_size: "more_lines n line f = (ls, f') \<Longrightarrow> file_size f' \<le> file_size f"
proof (induction n arbitrary: line f ls)
  case (Suc n)
  then show ?case by (fastforce split: prod.splits dest: getline_size_le)
qed simp

definition keep_ephem :: "ephem \<Rightarrow> ephem_map \<Rightarrow> ephem_map" where
  "keep_ephem e m = (if gt_time (ttr e) = 0 then m else push_ephem (Eph e) m)"

function nav_records :: "u32 \<Rightarrow> istream \<Rightarrow> ephem_map \<Rightarrow> rinex_error + ephem_map" where
  "nav_records gpst_leap_seconds f m =
     (case getline f [] of (ok, line, f1) \<Rightarrow>
        if \<not> ok then Inr m
        else bind_res (char_at line 0) (\<lambda>c.
          if c \<in> {CHR ''G'', CHR ''C'', CHR ''E''} then
            (case more_lines 7 line f1 of (ls, f2) \<Rightarrow>
               bind_res (rinex_line2ephem (line # ls)) (\<lambda>e. nav_records gpst_leap_seconds f2 (keep_ephem e m)))
          else if c = CHR ''R'' then
            (case more_lines 3 line f1 of (ls, f2) \<Rightarrow>
               bind_res (rinex_line2glo_ephem (line # ls) gpst_leap_seconds)
                 (\<lambda>g. nav_records gpst_leap_seconds f2 (push_ephem (Glo g) m)))
          else nav_records gpst_leap_seconds f1 m))"
  by pat_completeness auto

termination
  by (relation "measure (\<lambda>(l, f, m). file_size f)")
    (auto dest!: getline_size [OF sym] more_lines_size [OF sym])

definition rinex2ephems :: "istream \<Rightarrow> ephem_map \<Rightarrow> rinex_error + ephem_map" where
  "rinex2ephems f sat2ephem =
     bind_res (nav_header (- 1) f) (\<lambda>r.
       case r of
         None \<Rightarrow> Inr sat2ephem
       | Some (gpst_leap_seconds, f1) \<Rightarrow>
           if gpst_leap_seconds = - 1 then Inl Fatal else nav_records gpst_leap_seconds f1 sat2ephem)"

declare nav_header.simps [simp del] nav_records.simps [simp del]

section \<open>Ionosphere parameters\<close>

definition iono_four :: "string \<Rightarrow> nat \<Rightarrow> f64 list \<Rightarrow> rinex_error + f64 list" where
  "iono_four line base p =
     foldl (\<lambda>r i. bind_res r (\<lambda>p. bind_res (double_field line (i * 12 + 5) 12) (\<lambda>x. Inr (p[base + i := x])))) (Inr p) [0..<4]"

function iono_lines :: "istream \<Rightarrow> bool \<Rightarrow> bool \<Rightarrow> f64 list \<Rightarrow> rinex_error + f64 list" where
  "iono_lines f find_alpha find_beta p =
     (case getline f [] of (ok, line, f1) \<Rightarrow>
        if \<not> ok then Inr p
        else bind_res
          (if contains line ''IONOSPHERIC CORR'' \<and> contains line ''GPSA'' then
             bind_res (iono_four line 0 p) (\<lambda>p. Inr (True, find_beta, p))
           else if contains line ''IONOSPHERIC CORR'' \<and> contains line ''GPSB'' then
             bind_res (iono_four line 4 p) (\<lambda>p. Inr (find_alpha, True, p))
           else Inr (find_alpha, find_beta, p))
          (\<lambda>(a, b, p). if a \<and> b then Inr p else iono_lines f1 a b p))"
  by pat_completeness auto

termination
  by (relation "measure (\<lambda>(f, a, b, p). file_size f)") (auto dest: getline_size [OF sym])

declare iono_lines.simps [simp del]

text \<open>The parameters the caller's vector holds before the call are kept up to the eighth.\<close>

definition rinex2iono_params :: "istream \<Rightarrow> f64 list \<Rightarrow> rinex_error + f64 list" where
  "rinex2iono_params f iono_params =
     (let p = take 8 (iono_params @ replicate 8 f0)
      in case getline f [] of (ok, line, f1) \<Rightarrow>
           if \<not> (ok \<and> contains line ''RINEX VERSION'' \<and> contains line ''3.04'') then Inr p
           else iono_lines f1 False False p)"

section \<open>Reading a file of records\<close>

definition text_line :: "string \<Rightarrow> bool" where
  "text_line l \<longleftrightarrow> CHR 0x0A \<notin> set l"

definition lines_text :: "string list \<Rightarrow> string" where
  "lines_text ls = concat (map (\<lambda>l. l @ [CHR 0x0A]) ls)"

lemma lines_text_simps [simp]:
  "lines_text [] = []" "lines_text (l # ls) = l @ CHR 0x0A # lines_text ls"
  "lines_text (ls @ ls') = lines_text ls @ lines_text ls'"
  by (simp_all add: lines_text_def)

abbreviation file_at :: "string \<Rightarrow> istream" where
  "file_at s \<equiv> \<lparr>unread = s, good = True\<rparr>"

abbreviation file_end :: istream where
  "file_end \<equiv> \<lparr>unread = [], good = False\<rparr>"

lemma getline_text: "text_line l \<Longrightarrow> getline (file_at (l @ CHR 0x0A # r)) line = (True, l, file_at r)"
  by (simp add: getline_line text_line_def)

lemma getline_last: "text_line l \<Longrightarrow> getline (file_at l) line = (l \<noteq> [], l, file_end)"
proof -
  assume "text_line l"
  then have "takeWhile not_newline l = l"
    by (auto simp add: text_line_def not_newline_def takeWhile_eq_all_conv)
  then show ?thesis unfolding getline_def istream.simps by (simp only:) simp
qed

lemma more_lines_text:
  "\<forall>l \<in> set ls. text_line l \<Longrightarrow> more_lines (length ls) line (file_at (lines_text ls @ r)) = (ls, file_at r)"
  by (induction ls arbitrary: line) (simp_all add: getline_text)

lemma more_lines_end: "more_lines n line file_end = (replicate n line, file_end)"
  by (induction n) (simp_all add: getline_def)

lemma more_lines_cut:
  "\<forall>l \<in> set ls. text_line l \<Longrightarrow> text_line x \<Longrightarrow> x \<noteq> [] \<Longrightarrow> length ls < n \<Longrightarrow>
   more_lines n line (file_at (lines_text ls @ x)) = (ls @ replicate (n - length ls) x, file_end)"
proof (induction ls arbitrary: n line)
  case Nil
  then show ?case by (cases n) (simp_all add: getline_last more_lines_end)
next
  case (Cons l ls)
  then show ?case by (cases n) (simp_all add: getline_text)
qed

text \<open>What one record adds to the map.\<close>

definition record_lines :: "char \<Rightarrow> nat" where
  "record_lines c = (if c \<in> {CHR ''G'', CHR ''C'', CHR ''E''} then 8 else if c = CHR ''R'' then 4 else 0)"

definition nav_record :: "string list \<Rightarrow> bool" where
  "nav_record r \<longleftrightarrow> (\<forall>l \<in> set r. text_line l) \<and> r \<noteq> [] \<and> r ! 0 \<noteq> [] \<and> length r = record_lines (r ! 0 ! 0)"

definition add_record :: "u32 \<Rightarrow> string list \<Rightarrow> ephem_map \<Rightarrow> rinex_error + ephem_map" where
  "add_record leap r m =
     (if r ! 0 ! 0 = CHR ''R'' then bind_res (rinex_line2glo_ephem r leap) (\<lambda>g. Inr (push_ephem (Glo g) m))
      else bind_res (rinex_line2ephem r) (\<lambda>e. Inr (keep_ephem e m)))"

fun add_records :: "u32 \<Rightarrow> string list list \<Rightarrow> ephem_map \<Rightarrow> rinex_error + ephem_map" where
  "add_records leap [] m = Inr m"
| "add_records leap (r # rs) m = bind_res (add_record leap r m) (add_records leap rs)"

lemma nav_records_end [simp]: "nav_records leap (file_at []) m = Inr m" "nav_records leap file_end m = Inr m"
  by (simp_all add: nav_records.simps [of leap] getline_def)

lemma nav_records_step:
  assumes "getline f [] = (True, l, f1)" and "l \<noteq> []" and "Suc n = record_lines (l ! 0)"
    and "more_lines n l f1 = (ls, f2)"
  shows "nav_records leap f m = bind_res (add_record leap (l # ls) m) (nav_records leap f2)"
  using assms unfolding nav_records.simps [of leap f m]
  by (auto simp add: char_at_def add_record_def record_lines_def bind_res_assoc split: if_splits)

lemma nav_records_one:
  assumes "nav_record r"
  shows "nav_records leap (file_at (lines_text r @ x)) m = bind_res (add_record leap r m) (nav_records leap (file_at x))"
proof -
  obtain l ls where r: "r = l # ls" "text_line l" "l \<noteq> []" "\<forall>l \<in> set ls. text_line l"
    "Suc (length ls) = record_lines (l ! 0)"
    using assms by (cases r) (auto simp add: nav_record_def)
  have g: "getline (file_at (lines_text r @ x)) [] = (True, l, file_at (lines_text ls @ x))"
    using r(1,2) by (simp add: getline_text)
  show ?thesis
    unfolding r(1) using nav_records_step [OF g r(3,5) more_lines_text [OF r(4)]] r(1) by simp
qed

lemma nav_records_text:
  "\<forall>r \<in> set rs. nav_record r \<Longrightarrow>
   nav_records leap (file_at (lines_text (concat rs) @ x)) m = bind_res (add_records leap rs m) (nav_records leap (file_at x))"
proof (induction rs arbitrary: m)
  case (Cons r rs)
  then have "nav_records leap (file_at (lines_text (concat rs) @ x))
      = (\<lambda>m. bind_res (add_records leap rs m) (nav_records leap (file_at x)))"
    by (intro ext) simp
  with Cons.prems show ?case by (simp add: nav_records_one bind_res_assoc)
qed simp

text \<open>A file that ends inside a record, without a last newline: the missing lines are copies of the last one.\<close>

lemma nav_records_cut:
  assumes "\<forall>l \<in> set ls. text_line l" and "text_line x" and "x \<noteq> []"
    and r: "r = ls @ replicate (Suc n) x" and "nav_record r"
  shows "nav_records leap (file_at (lines_text ls @ x)) m = add_record leap r m"
proof -
  have s: "bind_res (add_record leap r m) (nav_records leap file_end) = add_record leap r m"
    by (cases "add_record leap r m") simp_all
  show ?thesis
  proof (cases ls)
    case Nil
    have g: "getline (file_at x) [] = (True, x, file_end)" using assms(2,3) by (simp add: getline_last)
    have "Suc n = record_lines (x ! 0)" using assms(5) by (simp add: nav_record_def r Nil)
    from nav_records_step [OF g assms(3) this more_lines_end, of leap m] s [unfolded r Nil append_Nil replicate_Suc]
    show ?thesis unfolding r Nil append_Nil replicate_Suc lines_text_simps(1) by (simp only:)
  next
    case (Cons l ls')
    have g: "getline (file_at (lines_text ls @ x)) [] = (True, l, file_at (lines_text ls' @ x))"
      using assms(1) Cons by (simp add: getline_text)
    have c: "more_lines (length ls' + Suc n) l (file_at (lines_text ls' @ x))
        = (ls' @ replicate (length ls' + Suc n - length ls') x, file_end)"
      by (rule more_lines_cut) (use assms(1-3) Cons in simp_all)
    have "l \<noteq> []" and "Suc (length ls' + Suc n) = record_lines (l ! 0)"
      using assms(5) by (simp_all add: nav_record_def r Cons)
    from nav_records_step [OF g this c, of leap m] s show ?thesis by (simp add: r Cons)
  qed
qed

section \<open>The header\<close>

definition leap_line :: "string \<Rightarrow> bool" where
  "leap_line l \<longleftrightarrow> contains l ''LEAP SECONDS'' \<and> \<not> contains l ''BDS''"

definition other_version :: "string \<Rightarrow> bool" where
  "other_version l \<longleftrightarrow> contains l ''RINEX VERSION / TYPE'' \<and> \<not> contains l ''3.04''"

definition end_line :: "string \<Rightarrow> bool" where
  "end_line l \<longleftrightarrow> contains l ''END OF HEADER'' \<and> \<not> leap_line l \<and> \<not> other_version l"

text \<open>The last leap second line counts.\<close>

fun header_leap :: "u32 \<Rightarrow> string list \<Rightarrow> rinex_error + u32" where
  "header_leap leap [] = Inr leap"
| "header_leap leap (h # hs) =
     (if leap_line h then bind_res (int_field h 4 6) (\<lambda>n. header_leap (word_of_int n) hs) else header_leap leap hs)"

lemma nav_header_line:
  "text_line h \<Longrightarrow> \<not> other_version h \<Longrightarrow> \<not> end_line h \<Longrightarrow>
   nav_header leap (file_at (h @ CHR 0x0A # x))
     = (if leap_line h then bind_res (int_field h 4 6) (\<lambda>n. nav_header (word_of_int n) (file_at x))
        else nav_header leap (file_at x))"
  unfolding nav_header.simps [of leap "file_at (h @ CHR 0x0A # x)"]
  by (auto simp add: getline_text leap_line_def other_version_def end_line_def)

lemma nav_header_text:
  "\<forall>h \<in> set hs. text_line h \<and> \<not> other_version h \<and> \<not> end_line h \<Longrightarrow> text_line e \<Longrightarrow> end_line e \<Longrightarrow>
   nav_header leap (file_at (lines_text hs @ e @ CHR 0x0A # x))
     = bind_res (header_leap leap hs) (\<lambda>l. Inr (Some (l, file_at x)))"
proof (induction hs arbitrary: leap)
  case Nil
  then show ?case
    unfolding nav_header.simps [of leap "file_at (lines_text [] @ e @ CHR 0x0A # x)"]
    by (auto simp add: getline_text leap_line_def other_version_def end_line_def)
next
  case (Cons h hs)
  then have "nav_header l (file_at (lines_text hs @ e @ CHR 0x0A # x))
      = bind_res (header_leap l hs) (\<lambda>l. Inr (Some (l, file_at x)))" for l
    by simp
  with Cons.prems show ?case by (simp add: nav_header_line bind_res_assoc)
qed

section \<open>What the map holds\<close>

definition ephem_map_inv :: "ephem_map \<Rightarrow> bool" where
  "ephem_map_inv m \<longleftrightarrow> sorted_map m
     \<and> (\<forall>k es e. map_of m k = Some es \<longrightarrow> e \<in> set es \<longrightarrow> base_sat e = k \<and> (\<forall>x. e = Eph x \<longrightarrow> gt_time (ttr x) \<noteq> 0))"

text \<open>The ephemerides of a satellite, in the order of the file.\<close>

definition ephems_of :: "ephem_map \<Rightarrow> u32 \<Rightarrow> rinex_ephem list" where
  "ephems_of m k = (case map_of m k of None \<Rightarrow> [] | Some es \<Rightarrow> es)"

lemma map_of_push:
  assumes "sorted_map m"
  shows "map_of (push_ephem e m) k = (if k = base_sat e then Some (ephems_of m k @ [e]) else map_of m k)"
    and "sorted_map (push_ephem e m)"
proof -
  note v = cxx_map.valid_fetch [OF assms, of "[]" "base_sat e"]
  show "map_of (push_ephem e m) k = (if k = base_sat e then Some (ephems_of m k @ [e]) else map_of m k)"
    using cxx_map.lookup_put [OF v] cxx_map.lookup_fetch [OF assms, of "[]" "base_sat e"]
    by (simp add: push_ephem_def Let_def ephems_of_def split: option.split)
  show "sorted_map (push_ephem e m)" using cxx_map.valid_put [OF v] by (simp add: push_ephem_def Let_def)
qed

lemma push_inv:
  "ephem_map_inv m \<Longrightarrow> (\<forall>x. e = Eph x \<longrightarrow> gt_time (ttr x) \<noteq> 0) \<Longrightarrow> ephem_map_inv (push_ephem e m)"
  unfolding ephem_map_inv_def
  by (auto simp add: map_of_push ephems_of_def dest!: sym [of "Some _"] split: if_splits option.splits)

lemma keep_inv: "ephem_map_inv m \<Longrightarrow> ephem_map_inv (keep_ephem e m)"
  by (simp add: keep_ephem_def push_inv)

text \<open>What both ways of adding to the map preserve, the file preserves.\<close>

lemma nav_records_preserve:
  assumes keep: "\<And>m e. P m \<Longrightarrow> P (keep_ephem e m)" and push: "\<And>m g. P m \<Longrightarrow> P (push_ephem (Glo g) m)"
  shows "nav_records leap f m = Inr m' \<Longrightarrow> P m \<Longrightarrow> P m'"
proof (induction leap f m rule: nav_records.induct)
  case (1 leap f m)
  obtain ok line f1 where g: "getline f [] = (ok, line, f1)" by (cases "getline f []") auto
  obtain ls7 f7 where m7: "more_lines 7 line f1 = (ls7, f7)" by (cases "more_lines 7 line f1")
  obtain ls3 f3 where m3: "more_lines 3 line f1 = (ls3, f3)" by (cases "more_lines 3 line f1")
  show ?case
  proof (cases "\<not> ok \<or> line = []")
    case True
    with "1.prems" g show ?thesis by (cases ok) (auto simp add: nav_records.simps [of leap f m] char_at_def)
  next
    case False
    then have c: "char_at line 0 = Inr (line ! 0)" by (simp add: char_at_def)
    note IH = "1.IH" [OF g [symmetric] refl _ c]
    note unfolded = "1.prems" (1) [unfolded nav_records.simps [of leap f m] g prod.case c]
    show ?thesis
    proof (cases "line ! 0 \<in> {CHR ''G'', CHR ''C'', CHR ''E''}")
      case True
      with unfolded False m7 obtain e where e: "rinex_line2ephem (line # ls7) = Inr e"
        "nav_records leap f7 (keep_ephem e m) = Inr m'"
        by (auto simp add: bind_res_Inr)
      show ?thesis
        by (rule IH(1) [OF _ True m7 [symmetric] e(1) e(2)]) (use False keep "1.prems"(2) in auto)
    next
      case noteph: False
      show ?thesis
      proof (cases "line ! 0 = CHR ''R''")
        case True
        with unfolded False m3 noteph obtain g where e: "rinex_line2glo_ephem (line # ls3) leap = Inr g"
          "nav_records leap f3 (push_ephem (Glo g) m) = Inr m'"
          by (auto simp add: bind_res_Inr)
        show ?thesis
          by (rule IH(2) [OF _ noteph True m3 [symmetric] e(1) e(2)]) (use False push "1.prems"(2) in auto)
      next
        case other: False
        with unfolded False noteph have n: "nav_records leap f1 m = Inr m'" by simp
        show ?thesis by (rule IH(3) [OF _ noteph other n]) (use False "1.prems"(2) in auto)
      qed
    qed
  qed
qed

definition extends :: "ephem_map \<Rightarrow> ephem_map \<Rightarrow> bool" where
  "extends m m' \<longleftrightarrow> (\<forall>k. \<exists>new. ephems_of m' k = ephems_of m k @ new)"

lemma ephems_of_push: "sorted_map m \<Longrightarrow> ephems_of (push_ephem e m) k = ephems_of m k @ (if k = base_sat e then [e] else [])"
  by (simp add: ephems_of_def map_of_push)

lemma extends_push: "sorted_map m' \<Longrightarrow> extends m m' \<Longrightarrow> extends m (push_ephem e m')"
  unfolding extends_def by (simp add: ephems_of_push) (metis append_assoc)

lemma nav_records_sound:
  assumes "nav_records leap f m = Inr m'" and "ephem_map_inv m"
  shows "ephem_map_inv m' \<and> extends m m'"
proof (rule nav_records_preserve [where P = "\<lambda>m'. ephem_map_inv m' \<and> extends m m'", OF _ _ assms(1)])
  show "ephem_map_inv m \<and> extends m m" using assms(2) by (simp add: extends_def)
  fix m' g e
  assume "ephem_map_inv m' \<and> extends m m'"
  then show "ephem_map_inv (push_ephem (Glo g) m') \<and> extends m (push_ephem (Glo g) m')"
    and "ephem_map_inv (keep_ephem e m') \<and> extends m (keep_ephem e m')"
    by (simp_all add: push_inv keep_inv extends_push ephem_map_inv_def [of m'] keep_ephem_def)
qed

lemma add_records_append: "add_records leap (rs @ rs') m = bind_res (add_records leap rs m) (add_records leap rs')"
  by (induction rs arbitrary: m) (simp_all add: bind_res_assoc cong: bind_res_cong)


definition demo_line_1 :: string where
  "demo_line_1 = ''R04 2020 01 01 00 15 00 1.250000000000D-01 0.000000000000D+00 0.000000000000D+00''"

definition demo_line_2 :: string where
  "demo_line_2 = ''     1.500000000000D+00 2.000000000000D+00 0.000000000000D+00 0.000000000000D+00''"

definition demo_header :: "string list" where
  "demo_header = [''    18                                                      LEAP SECONDS'']"

definition demo_end :: string where
  "demo_end = ''                                                            END OF HEADER''"


text \<open>
  Whatever the file contains: when \<open>rinex2ephems\<close> returns, the map is in order, every ephemeris is
  filed under its own satellite, none but GLONASS ones lack a transmission time, and nothing that was in
  the map before is lost or moved.
\<close>

lemma ephem_map_sound:
  assumes "ephem_map_inv m" and "rinex2ephems f m = Inr m'"
  shows "sorted_map m' \<and> extends m m'
    \<and> (\<forall>k es e. map_of m' k = Some es \<longrightarrow> e \<in> set es \<longrightarrow>
         base_sat e = k \<and> (\<forall>x. e = Eph x \<longrightarrow> gt_time (ttr x) \<noteq> 0))"
proof -
  have "ephem_map_inv m' \<and> extends m m'"
  proof (cases "nav_header (- 1) f = Inr None")
    case True
    with assms show ?thesis by (simp add: rinex2ephems_def extends_def)
  next
    case False
    then obtain leap f1 where "nav_header (- 1) f = Inr (Some (leap, f1))"
      using assms(2) by (cases "nav_header (- 1) f") (auto simp add: rinex2ephems_def)
    with assms(2) have "nav_records leap f1 m = Inr m'" by (simp add: rinex2ephems_def split: if_splits)
    then show ?thesis by (rule nav_records_sound [OF _ assms(1)])
  qed
  then show ?thesis by (simp add: ephem_map_inv_def)
qed

lemma ephem_map_sound_witness:
  "\<exists>m. rinex2ephems (file_at (lines_text (demo_header @ [demo_end, demo_line_1, demo_line_2, demo_line_2, demo_line_2]))) [] = Inr m
     \<and> m \<noteq> [] \<and> sorted_map m"
proof -
  have "case rinex2ephems (file_at (lines_text (demo_header @ [demo_end, demo_line_1, demo_line_2, demo_line_2, demo_line_2]))) []
      of Inr m \<Rightarrow> m \<noteq> [] | Inl e \<Rightarrow> False"
    by code_simp
  moreover have "ephem_map_inv []" by (simp add: ephem_map_inv_def sorted_map_def)
  ultimately show ?thesis using ephem_map_sound by (fastforce split: sum.splits)
qed

section \<open>BeiDou times\<close>

lemma to_u32_int: "0 \<le> n \<Longrightarrow> n < 2 ^ 32 \<Longrightarrow> to_u32 (f64_int n) = word_of_int n"
  by (simp add: to_u32_def to_i64_def)

lemma gps_week_tow:
  assumes "0 \<le> w" and "w \<le> 7000" and "0 \<le> t" and "t < 2 * 604800"
  shows "case time2gpst \<lparr>gt_time = 315964800 + 604800 * w + t, gt_sec = f0\<rparr> of
    (wk, tow) \<Rightarrow> gpst2time wk tow = \<lparr>gt_time = 315964800 + 604800 * w + t, gt_sec = f0\<rparr>"
proof -
  have *: "case time2gpst \<lparr>gt_time = 315964800 + 604800 * w' + t', gt_sec = f0\<rparr> of
      (wk, tow) \<Rightarrow> gpst2time wk tow = \<lparr>gt_time = 315964800 + 604800 * w' + t', gt_sec = f0\<rparr>"
    if "0 \<le> w'" "w' \<le> 7100" "0 \<le> t'" "t' < 604800" for w' t'
    using that time2gpst_int [of w' t'] gpst2time_int [of t' "word_of_int w'"]
    by (simp add: word_of_int_inverse take_bit_int_eq_self uint_word_of_int)
  show ?thesis
  proof (cases "t < 604800")
    case False
    have "315964800 + 604800 * w + t = 315964800 + 604800 * (w + 1) + (t - 604800)" by simp
    moreover have "0 \<le> w + 1" "w + 1 \<le> 7100" "0 \<le> t - 604800" "t - 604800 < 604800" using assms False by simp_all
    ultimately show ?thesis using *[of "w + 1" "t - 604800"] by (simp only:)
  qed (use *[of w t] assms in simp)
qed

text \<open>
  Claim C36.  A BeiDou record states its times in BeiDou time.  The reference time that is stored is in GPS time,
  14 seconds later, and the stored week and time of week denote it, also at the end of a week.  The
  transmission time is not moved: it is 14 seconds early.
\<close>

theorem bds_record_times:
  assumes "rinex_line2ephem ls = Inr e" and "char_at (ls ! 0) 0 = Inr CHR ''C''"
    and "double_field (ls ! 3) 4 19 = Inr (f64_int t)" and "0 \<le> t" and "t < 604800"
    and "double_field (ls ! 5) 42 19 = Inr (f64_int w)" and "0 \<le> w" and "w \<le> 3500"
    and "double_field (ls ! 7) 4 19 = Inr (f64_int s)" and "0 \<le> s" and "s < 604800"
  shows "toe e = \<lparr>gt_time = gt_time (epoch2time bdt0) + 604800 * w + t + 14, gt_sec = f0\<rparr>
    \<and> gpst2time (week e) (toe_tow e) = toe e
    \<and> ttr e = \<lparr>gt_time = gt_time (epoch2time bdt0) + 604800 * w + s, gt_sec = f0\<rparr>"
proof -
  have sys: "record_sys CHR ''C'' = SYS_BDS" "SYS_BDS \<noteq> SYS_NONE" "SYS_BDS \<noteq> SYS_GPS" "SYS_BDS \<noteq> SYS_GAL"
    by (simp_all add: record_sys_def sys_defs)
  have wk: "to_u32 (f64_int w) = word_of_int w" "sint (word_of_int w :: u32) = w"
    using assms(7,8) by (simp_all add: to_u32_int sint_sbintrunc' signed_take_bit_int_eq_self)
  define T where "T = \<lparr>gt_time = 1136073600 + 604800 * w + t + 14, gt_sec = f0\<rparr>"
  have bt: "bdt2time w (fadd (f64_int t) (f64_int 14)) = T"
    using assms(4,5,7,8) by (simp add: bdt2time_def Let_def bdt_base tow_guard_int fadd_int fsub_int f0_def T_def)
  have bs: "bdt2time w (f64_int s) = \<lparr>gt_time = 1136073600 + 604800 * w + s, gt_sec = f0\<rparr>"
    using assms(7,8,10,11) by (simp add: bdt2time_def Let_def bdt_base tow_guard_int fsub_int f0_def)
  have "bind_res (clock_line SYS_BDS (ls ! 0)) (\<lambda>e0. bind_res (orbit_line_1 SYS_BDS (ls ! 1) e0) (\<lambda>e1.
      bind_res (orbit_line_2 (ls ! 2) e1) (\<lambda>e2. bind_res (orbit_line_3 (ls ! 3) e2) (\<lambda>e3.
      bind_res (orbit_line_4 (ls ! 4) e3) (\<lambda>e4. bind_res (orbit_line_5 SYS_BDS (ls ! 5) e4) (\<lambda>(stop, e5).
      if stop then Inr e5
      else bind_res (orbit_line_6 SYS_BDS (ls ! 6) e5) (orbit_line_7 SYS_BDS (ls ! 7)))))))) = Inr e"
    using assms(1,2) sys(1,2) by (simp add: rinex_line2ephem_def Let_def cong: if_cong split: if_splits)
  then obtain e2 e3 e4 r where l: "orbit_line_3 (ls ! 3) e2 = Inr e3" "orbit_line_4 (ls ! 4) e3 = Inr e4"
    "orbit_line_5 SYS_BDS (ls ! 5) e4 = Inr r" "(case r of (stop, e5) \<Rightarrow> if stop then Inr e5
      else bind_res (orbit_line_6 SYS_BDS (ls ! 6) e5) (orbit_line_7 SYS_BDS (ls ! 7))) = Inr e"
    by (elim bind_resE) (rule that)
  have e4: "toe_tow e4 = f64_int t"
    using l(1,2) assms(3) by (auto simp add: orbit_line_3_def orbit_line_4_def bind_res_Inr)
  from l(3,4) e4 obtain e6 where e7: "orbit_line_7 SYS_BDS (ls ! 7) e6 = Inr e" and e6: "toe e6 = T" "week e6 = word_of_int w"
    using assms(6) sys
    by (auto simp add: orbit_line_5_def orbit_line_6_def Let_def bind_res_Inr wk bt)
  from e7 assms(9) e6 have e: "toe e = T" "(week e, toe_tow e) = time2gpst T" "ttr e = bdt2time w (f64_int s)"
    by (auto simp add: orbit_line_7_def Let_def wk split: prod.splits)
  have "T = \<lparr>gt_time = 315964800 + 604800 * (w + 1356) + (t + 14), gt_sec = f0\<rparr>" by (simp add: T_def)
  with gps_week_tow [of "w + 1356" "t + 14"] assms(4,5,7,8) e(2) have "gpst2time (week e) (toe_tow e) = T"
    by (simp split: prod.splits)
  with e show ?thesis by (simp add: T_def bdt_base bs)
qed

definition orbit_text :: "string \<Rightarrow> string \<Rightarrow> string" where
  "orbit_text a b = pad 4 [] @ pad 19 a @ pad 19 ''0.0D+00'' @ pad 19 b @ pad 19 ''0.0D+00''"

definition bds_demo_record :: "string list" where
  "bds_demo_record =
     [''C06 2020 01 01 00 15 00'' @ pad 19 ''1.0D-04'' @ pad 19 ''0'' @ pad 19 ''0'',
      orbit_text ''0'' ''0'', orbit_text ''0'' ''0'', orbit_text ''6.04792D+05'' ''0'', orbit_text ''0'' ''0'',
      orbit_text ''0'' ''700'', orbit_text ''2.0'' ''0'', orbit_text ''604000'' ''0'']"

theorem bds_record_times_witness:
  "\<exists>e. rinex_line2ephem bds_demo_record = Inr e \<and> gpst2time (week e) (toe_tow e) = toe e
     \<and> gt_time (toe e) - gt_time (ttr e) = 792 + 14"
proof -
  have "case rinex_line2ephem bds_demo_record of Inr e \<Rightarrow> True | Inl y \<Rightarrow> False" by code_simp
  then obtain e where e: "rinex_line2ephem bds_demo_record = Inr e" by (auto split: sum.splits)
  have f: "char_at (bds_demo_record ! 0) 0 = Inr CHR ''C''" "double_field (bds_demo_record ! 3) 4 19 = Inr (f64_int 604792)"
    "double_field (bds_demo_record ! 5) 42 19 = Inr (f64_int 700)" "double_field (bds_demo_record ! 7) 4 19 = Inr (f64_int 604000)"
    by code_simp+
  show ?thesis using bds_record_times [OF e f(1,2) _ _ f(3) _ _ f(4)] e by auto
qed

end
