(* ===== verification/Rinex_Obs.thy ===== *)
theory Rinex_Obs
  imports Rinex_Text Cxx_Map Ubx_Meas "HOL-Library.Char_ord"
begin

text \<open>
  RINEX observation files in \<open>rinex_helper.cpp\<close>: the bands of a satellite (\<open>obs_index\<close>, \<open>index_freq\<close>,
  \<open>get_glo_freqo\<close>), the reader \<open>rinex2obs\<close> and the writer \<open>obs2rinex\<close>.
\<close>

section \<open>Bands\<close>

definition FREQ1 :: f64 where "FREQ1 = f64_int 1575420000"
definition FREQ2 :: f64 where "FREQ2 = f64_int 1227600000"
definition FREQ5 :: f64 where "FREQ5 = f64_int 1176450000"
definition FREQ6 :: f64 where "FREQ6 = f64_int 1278750000"
definition FREQ7 :: f64 where "FREQ7 = f64_int 1207140000"
definition FREQ8 :: f64 where "FREQ8 = f64_int 1191795000"
definition FREQ1_GLO :: f64 where "FREQ1_GLO = f64_int 1602000000"
definition DFRQ1_GLO :: f64 where "DFRQ1_GLO = f64_int 562500"
definition FREQ2_GLO :: f64 where "FREQ2_GLO = f64_int 1246000000"
definition DFRQ2_GLO :: f64 where "DFRQ2_GLO = f64_int 437500"
definition FREQ1_BDS :: f64 where "FREQ1_BDS = f64_int 1561098000"
definition FREQ2_BDS :: f64 where "FREQ2_BDS = f64_int 1207140000"
definition FREQ3_BDS :: f64 where "FREQ3_BDS = f64_int 1268520000"

lemmas freq_defs = FREQ1_def FREQ2_def FREQ5_def FREQ6_def FREQ7_def FREQ8_def FREQ1_GLO_def DFRQ1_GLO_def
  FREQ2_GLO_def DFRQ2_GLO_def FREQ1_BDS_def FREQ2_BDS_def FREQ3_BDS_def

text \<open>\<open>FREQ_GLO + n * DFRQ_GLO\<close>.\<close>

definition glo_freq :: "f64 \<Rightarrow> f64 \<Rightarrow> int \<Rightarrow> f64" where
  "glo_freq freq dfrq n =
     (if n < 0 then fsub freq (fmul (f64_int (- n)) dfrq) else fadd freq (fmul (f64_int n) dfrq))"

definition obs_index :: "u32 \<Rightarrow> f64 \<Rightarrow> int" where
  "obs_index sys freq =
     (if sys = SYS_GPS then (if feq freq FREQ1 then 0 else if feq freq FREQ2 then 1 else - 1)
      else if sys = SYS_GLO then
        (if fle freq (glo_freq FREQ1_GLO DFRQ1_GLO 6) then 0
         else if fle freq (glo_freq FREQ2_GLO DFRQ2_GLO 6) then 1 else - 1)
      else if sys = SYS_GAL then (if feq freq FREQ1 then 0 else if feq freq FREQ7 then 1 else - 1)
      else if sys = SYS_BDS then (if feq freq FREQ1_BDS then 0 else if feq freq FREQ2_BDS then 1 else - 1)
      else - 1)"

text \<open>The lowest and the highest frequency of a band.\<close>

definition band_limits :: "u32 \<Rightarrow> int \<Rightarrow> f64 \<times> f64" where
  "band_limits sys band_idx =
     (if sys = SYS_GPS \<and> band_idx = 0 then (FREQ1, FREQ1)
      else if sys = SYS_GPS \<and> band_idx = 1 then (FREQ2, FREQ2)
      else if sys = SYS_GLO \<and> band_idx = 0 then (glo_freq FREQ1_GLO DFRQ1_GLO (- 7), glo_freq FREQ1_GLO DFRQ1_GLO 6)
      else if sys = SYS_GLO \<and> band_idx = 1 then (glo_freq FREQ2_GLO DFRQ2_GLO (- 7), glo_freq FREQ2_GLO DFRQ2_GLO 6)
      else if sys = SYS_GAL \<and> band_idx = 0 then (FREQ1, FREQ1)
      else if sys = SYS_GAL \<and> band_idx = 1 then (FREQ7, FREQ7)
      else if sys = SYS_BDS \<and> band_idx = 0 then (FREQ1_BDS, FREQ1_BDS)
      else if sys = SYS_BDS \<and> band_idx = 1 then (FREQ2_BDS, FREQ2_BDS)
      else (f0, f0))"

fun find_freq :: "f64 \<times> f64 \<Rightarrow> f64 list \<Rightarrow> int \<Rightarrow> f64 \<times> int" where
  "find_freq bnds [] i = (f64_int (- 1), - 1)"
| "find_freq bnds (f # fs) i = (if fle (fst bnds) f \<and> fle f (snd bnds) then (f, i) else find_freq bnds fs (i + 1))"

text \<open>The frequency, and its index in the observation.\<close>

definition index_freq :: "obs \<Rightarrow> int \<Rightarrow> f64 \<times> int" where
  "index_freq ob band_idx = find_freq (band_limits (fst (satsys (obs_sat ob))) band_idx) (obs_freqs ob) 0"

text \<open>\<open>L1_freq\<close> of \<open>gnss_utility.cpp\<close>: the first band only.\<close>

definition L1_freq :: "obs \<Rightarrow> f64 \<times> int" where
  "L1_freq ob =
     (let sys = fst (satsys (obs_sat ob));
          bnds = (if sys = SYS_GPS \<or> sys = SYS_GAL then (FREQ1, FREQ1)
            else if sys = SYS_BDS then (FREQ1_BDS, FREQ1_BDS)
            else if sys = SYS_GLO then (glo_freq FREQ1_GLO DFRQ1_GLO (- 7), glo_freq FREQ1_GLO DFRQ1_GLO 6)
            else (f64_int (- 1), f64_int (- 1)))
      in find_freq bnds (obs_freqs ob) 0)"

text \<open>\<open>round\<close>: to the nearest integer, half away from zero.\<close>

fun fround :: "f64 \<Rightarrow> f64" where
  "fround (Fin m e) =
     (if 0 \<le> e then Fin m e else f64_int (sgn m * ((2 * \<bar>m\<bar> + 2 ^ nat (- e)) div 2 ^ (nat (- e) + 1))))"
| "fround x = x"

definition freq_number :: "f64 \<Rightarrow> int option" where
  "freq_number freq =
     (if flt (glo_freq FREQ1_GLO DFRQ1_GLO (- 8)) freq \<and> flt freq (glo_freq FREQ1_GLO DFRQ1_GLO 7)
      then Some (to_i32 (fround (fdiv (fsub freq FREQ1_GLO) DFRQ1_GLO)))
      else if flt (glo_freq FREQ2_GLO DFRQ2_GLO (- 8)) freq \<and> flt freq (glo_freq FREQ2_GLO DFRQ2_GLO 7)
      then Some (to_i32 (fround (fdiv (fsub freq FREQ2_GLO) DFRQ2_GLO)))
      else None)"

text \<open>\<open>emplace\<close> keeps the entry that is there.\<close>

definition glo_freqo_obs :: "obs \<Rightarrow> (u32 \<times> int) list \<Rightarrow> (u32 \<times> int) list" where
  "glo_freqo_obs ob m =
     (if fst (satsys (obs_sat ob)) \<noteq> SYS_GLO then m
      else fold (\<lambda>freq m. case freq_number freq of None \<Rightarrow> m | Some n \<Rightarrow> map_fetch n (obs_sat ob) m) (obs_freqs ob) m)"

definition get_glo_freqo :: "obs list list \<Rightarrow> (u32 \<times> int) list" where
  "get_glo_freqo gnss_meas = fold (\<lambda>meas m. fold glo_freqo_obs meas m) gnss_meas []"

section \<open>Reading\<close>

definition char2sys :: "char \<Rightarrow> u32 option" where
  "char2sys = map_of [(CHR ''G'', SYS_GPS), (CHR ''C'', SYS_BDS), (CHR ''R'', SYS_GLO), (CHR ''E'', SYS_GAL)]"

definition type2freq :: "string \<Rightarrow> f64 option" where
  "type2freq = map_of
     [(''G1'', FREQ1), (''G2'', FREQ2), (''G5'', FREQ5),
      (''R1'', FREQ1_GLO), (''R2'', FREQ2_GLO), (''R3'', f64_int 1202025000), (''R4'', f64_int 1600995000),
      (''R6'', f64_int 1248060000),
      (''E1'', FREQ1), (''E5'', FREQ5), (''E6'', FREQ6), (''E7'', FREQ7), (''E8'', FREQ8),
      (''C1'', FREQ1), (''C2'', FREQ1_BDS), (''C5'', FREQ5), (''C6'', FREQ3_BDS), (''C7'', FREQ2_BDS), (''C8'', FREQ8)]"

definition at_key :: "'v option \<Rightarrow> rinex_error + 'v" where
  "at_key entry = (case entry of None \<Rightarrow> out_of_range | Some v \<Rightarrow> Inr v)"

definition empty_obs :: obs where
  "empty_obs =
     \<lparr>obs_time = gtime0, obs_sat = 0, obs_freqs = [], obs_cn0 = [], obs_lli = [], obs_code = [], obs_psr = [],
      obs_psr_std = [], obs_cp = [], obs_cp_std = [], obs_dopp = [], obs_dopp_std = [], obs_status = []\<rparr>"

text \<open>\<open>xs[i] = v\<close> on a vector.\<close>

definition write_at :: "'a list \<Rightarrow> nat \<Rightarrow> 'a \<Rightarrow> rinex_error + 'a list" where
  "write_at xs i v = (if i < length xs then Inr (xs[i := v]) else Inl Overrun)"

text \<open>The index of a frequency, which is added when it is new; the field of the measurement type.\<close>

fun index_of :: "'a list \<Rightarrow> 'a \<Rightarrow> nat" where
  "index_of [] x = 0"
| "index_of (y # ys) x = (if x = y then 0 else Suc (index_of ys x))"

definition write_field :: "char \<Rightarrow> nat \<Rightarrow> f64 \<Rightarrow> obs \<Rightarrow> rinex_error + obs" where
  "write_field c i v ob =
     (if c = CHR ''L'' then bind_res (write_at (obs_cp ob) i v) (\<lambda>xs. Inr (ob\<lparr>obs_cp := xs\<rparr>))
      else if c = CHR ''C'' then bind_res (write_at (obs_psr ob) i v) (\<lambda>xs. Inr (ob\<lparr>obs_psr := xs\<rparr>))
      else if c = CHR ''D'' then bind_res (write_at (obs_dopp ob) i v) (\<lambda>xs. Inr (ob\<lparr>obs_dopp := xs\<rparr>))
      else if c = CHR ''S'' then bind_res (write_at (obs_cn0 ob) i v) (\<lambda>xs. Inr (ob\<lparr>obs_cn0 := xs\<rparr>))
      else Inl Fatal)"

definition obs_field :: "string \<Rightarrow> char \<Rightarrow> nat \<Rightarrow> string \<Rightarrow> obs \<Rightarrow> rinex_error + obs" where
  "obs_field rinex_str sys_char line_offset type ob =
     bind_res (substr rinex_str line_offset 14) (\<lambda>field_str.
     if list_all (\<lambda>c. c = CHR '' '') field_str then Inr ob
     else bind_res (thrown (stod field_str)) (\<lambda>field_value.
       bind_res (char_at type 1) (\<lambda>band.
       bind_res (at_key (type2freq [sys_char, band])) (\<lambda>freq.
       let i = index_of (obs_freqs ob) freq;
           ob1 = (if i < length (obs_freqs ob) then ob else ob\<lparr>obs_freqs := obs_freqs ob @ [freq]\<rparr>)
       in bind_res (char_at type 0) (\<lambda>c. write_field c i field_value ob1)))))"

fun obs_fields :: "string \<Rightarrow> char \<Rightarrow> nat \<Rightarrow> string list \<Rightarrow> obs \<Rightarrow> rinex_error + obs" where
  "obs_fields rinex_str sys_char line_offset [] ob = Inr ob"
| "obs_fields rinex_str sys_char line_offset (type # types) ob =
     bind_res (obs_field rinex_str sys_char line_offset type ob)
       (obs_fields rinex_str sys_char (line_offset + 14 + 2) types)"

definition fill :: "nat \<Rightarrow> 'a \<Rightarrow> 'a list \<Rightarrow> rinex_error + 'a list" where
  "fill n x xs = (if n < length xs then Inl Fatal else Inr (xs @ replicate (n - length xs) x))"

definition fill_fields :: "obs \<Rightarrow> rinex_error + obs" where
  "fill_fields ob =
     (let n = length (obs_freqs ob) in
      bind_res (fill n f0 (obs_cn0 ob)) (\<lambda>cn0. bind_res (fill n 0 (obs_lli ob)) (\<lambda>lli.
      bind_res (fill n 0 (obs_code ob)) (\<lambda>code. bind_res (fill n f0 (obs_psr ob)) (\<lambda>psr.
      bind_res (fill n f0 (obs_psr_std ob)) (\<lambda>psr_std. bind_res (fill n f0 (obs_cp ob)) (\<lambda>cp.
      bind_res (fill n f0 (obs_cp_std ob)) (\<lambda>cp_std. bind_res (fill n f0 (obs_dopp ob)) (\<lambda>dopp.
      bind_res (fill n f0 (obs_dopp_std ob)) (\<lambda>dopp_std. bind_res (fill n 0x0F (obs_status ob)) (\<lambda>status.
        Inr (ob\<lparr>obs_cn0 := cn0, obs_lli := lli, obs_code := code, obs_psr := psr, obs_psr_std := psr_std, obs_cp := cp,
          obs_cp_std := cp_std, obs_dopp := dopp, obs_dopp_std := dopp_std, obs_status := status\<rparr>))))))))))))"

text \<open>None: the system is not known, the pointer that is returned is empty.\<close>

definition rinex_line2obs :: "string \<Rightarrow> (char \<times> string list) list \<Rightarrow> rinex_error + obs option" where
  "rinex_line2obs rinex_str sys2type =
     bind_res (char_at rinex_str 0) (\<lambda>sys_char.
     case char2sys sys_char of
       None \<Rightarrow> Inr None
     | Some sys \<Rightarrow>
         bind_res (substr rinex_str 1 2) (\<lambda>s. bind_res (thrown (stoi s)) (\<lambda>prn.
         bind_res (at_key (map_of sys2type sys_char)) (\<lambda>date_types.
         bind_res (obs_fields rinex_str sys_char 3 date_types (empty_obs\<lparr>obs_sat := sat_no sys (word_of_int prn)\<rparr>)) (\<lambda>ob.
         bind_res (fill_fields ob) (\<lambda>ob. Inr (Some ob)))))))"

section \<open>The file\<close>

type_synonym obs_types = "(char \<times> string list) list"

text \<open>One entry of a line with observation types; blank entries are passed over.\<close>

definition type_entry :: "string \<Rightarrow> char \<Rightarrow> nat \<Rightarrow> obs_types \<Rightarrow> rinex_error + obs_types" where
  "type_entry line sys_char i sys2type =
     bind_res (substr line (7 + 4 * i) 3) (\<lambda>type.
     if type = ''   '' then Inr sys2type
     else bind_res (at_key (map_of sys2type sys_char)) (\<lambda>types. Inr (map_put sys_char (types @ [type]) sys2type)))"

definition types_line :: "string \<Rightarrow> char \<times> obs_types \<Rightarrow> rinex_error + char \<times> obs_types" where
  "types_line line st =
     bind_res (char_at line 0) (\<lambda>c.
     let (sys_char, sys2type) = (if c \<noteq> CHR '' '' then (c, map_fetch [] c (snd st)) else st)
     in bind_res (foldl (\<lambda>r i. bind_res r (type_entry line sys_char i)) (Inr sys2type) [0..<13]) (\<lambda>m. Inr (sys_char, m)))"

text \<open>None: the version is not supported.\<close>

function obs_header :: "char \<times> obs_types \<Rightarrow> istream \<Rightarrow> rinex_error + (obs_types \<times> istream) option" where
  "obs_header st f =
     (case getline f [] of (ok, line, f1) \<Rightarrow>
        if \<not> ok then Inr (Some (snd st, f1))
        else if contains line ''RINEX VERSION / TYPE'' \<and> \<not> contains line ''3.04'' then Inr None
        else if contains line ''SYS / # / OBS TYPES'' then bind_res (types_line line st) (\<lambda>st1. obs_header st1 f1)
        else if contains line ''END OF HEADER'' then Inr (Some (snd st, f1))
        else obs_header st f1)"
  by pat_completeness auto

termination
  by (relation "measure (\<lambda>(st, f). file_size f)") (auto dest: getline_size [OF sym])

declare obs_header.simps [simp del]

definition stod_field :: "string \<Rightarrow> nat \<Rightarrow> nat \<Rightarrow> rinex_error + f64" where
  "stod_field line pos n = bind_res (substr line pos n) (\<lambda>s. thrown (stod s))"

definition epoch_line :: "string \<Rightarrow> rinex_error + gtime \<times> int" where
  "epoch_line line =
     bind_res (char_at line 0) (\<lambda>c. if c \<noteq> CHR ''>'' then Inl Fatal
     else bind_res (char_at line 31) (\<lambda>c. if c \<noteq> CHR ''0'' then Inl Fatal
     else bind_res (stod_field line 2 4) (\<lambda>y. bind_res (stod_field line 7 2) (\<lambda>mo.
     bind_res (stod_field line 10 2) (\<lambda>d. bind_res (stod_field line 13 2) (\<lambda>h.
     bind_res (stod_field line 16 2) (\<lambda>mi. bind_res (stod_field line 18 11) (\<lambda>s.
     bind_res (substr line 32 3) (\<lambda>t. bind_res (thrown (stoi t)) (\<lambda>num_obs.
       Inr (epoch2time [y, mo, d, h, mi, s], num_obs)))))))))))"

fun read_epoch :: "nat \<Rightarrow> gtime \<Rightarrow> obs_types \<Rightarrow> istream \<Rightarrow> rinex_error + obs list \<times> istream" where
  "read_epoch 0 obs_time' sys2type f = Inr ([], f)"
| "read_epoch (Suc n) obs_time' sys2type f =
     (case getline f [] of (ok, line, f1) \<Rightarrow>
        if \<not> ok then Inl Fatal
        else bind_res (rinex_line2obs line sys2type) (\<lambda>o1.
          bind_res (read_epoch n obs_time' sys2type f1) (\<lambda>(meas, f2).
            Inr (case o1 of
                   None \<Rightarrow> (meas, f2)
                 | Some ob \<Rightarrow> if obs_freqs ob = [] then (meas, f2) else (ob\<lparr>obs_time := obs_time'\<rparr> # meas, f2)))))"

lemma read_epoch_size: "read_epoch n t m f = Inr (meas, f') \<Longrightarrow> file_size f' \<le> file_size f"
proof (induction n arbitrary: f meas)
  case (Suc n)
  obtain ok line f1 where g: "getline f [] = (ok, line, f1)" by (cases "getline f []") auto
  with Suc.prems obtain meas' f2 where "read_epoch n t m f1 = Inr (meas', f2)" "f2 = f'"
    by (auto simp add: bind_res_Inr split: if_splits option.splits)
  with Suc.IH getline_size_le [OF g] show ?case by fastforce
qed simp

function obs_records :: "obs_types \<Rightarrow> istream \<Rightarrow> obs list list \<Rightarrow> rinex_error + obs list list" where
  "obs_records sys2type f rinex_meas =
     (case getline f [] of (ok, line, f1) \<Rightarrow>
        if \<not> ok then Inr rinex_meas
        else bind_res (epoch_line line) (\<lambda>r. case r of (t, num_obs) \<Rightarrow>
          bind_res (read_epoch (nat num_obs) t sys2type f1) (\<lambda>r1. case r1 of (meas, f2) \<Rightarrow>
            obs_records sys2type f2 (rinex_meas @ [meas]))))"
  by pat_completeness auto

termination
  by (relation "measure (\<lambda>(m, f, r). file_size f)")
    (auto dest!: getline_size [OF sym] read_epoch_size)

declare obs_records.simps [simp del]

definition rinex2obs :: "istream \<Rightarrow> obs list list \<Rightarrow> rinex_error + obs list list" where
  "rinex2obs f rinex_meas =
     bind_res (obs_header (CHR 0x00, []) f) (\<lambda>r.
       case r of None \<Rightarrow> Inr rinex_meas | Some (sys2type, f1) \<Rightarrow> obs_records sys2type f1 rinex_meas)"

section \<open>Writing\<close>

text \<open>A line of the header: its content, and the label behind column 60.\<close>

definition line_end :: string where "line_end = [CHR 0x0A]"

text \<open>What \<open>gmtime\<close> answers for the current time: year, month, day, hour, minute, second.\<close>

type_synonym calendar = "nat \<times> nat \<times> nat \<times> nat \<times> nat \<times> nat"

definition zero2 :: "nat \<Rightarrow> string" where
  "zero2 n = setw 2 CHR ''0'' (dec n)"

definition date_text :: "calendar \<Rightarrow> string" where
  "date_text now =
     (case now of (y, mo, d, h, mi, s) \<Rightarrow>
        pad 4 (dec y) @ zero2 mo @ zero2 d @ '' '' @ zero2 h @ zero2 mi @ zero2 s @ '' UTC'')"

definition types_text :: "char \<Rightarrow> string list \<Rightarrow> string" where
  "types_text c types =
     [c] @ ''  '' @ pad 3 ''8'' @ concat (map (\<lambda>t. '' '' @ pad 3 t) types) @ pad 20 [] @ ''  ''
       @ padr 20 ''SYS / # / OBS TYPES '' @ line_end"

text \<open>The types are fixed: two frequencies, whatever the signals were.\<close>

definition written_types :: "(char \<times> string list) list" where
  "written_types =
     [(CHR ''G'', [''C1C'', ''L1C'', ''D1C'', ''S1C'', ''C2S'', ''L2S'', ''D2S'', ''S2S'']),
      (CHR ''R'', [''C1C'', ''L1C'', ''D1C'', ''S1C'', ''C2C'', ''L2C'', ''D2C'', ''S2C'']),
      (CHR ''E'', [''C1C'', ''L1C'', ''D1C'', ''S1C'', ''C7Q'', ''L7Q'', ''D7Q'', ''S7Q'']),
      (CHR ''C'', [''C2I'', ''L2I'', ''D2I'', ''S2I'', ''C7I'', ''L7I'', ''D7I'', ''S7I''])]"

definition fixed_header :: "calendar \<Rightarrow> string" where
  "fixed_header now =
     pad_f64 9 2 (f64_dec 304 (- 2)) @ padr 11 [] @ padr 20 ''OBSERVATION DATA'' @ padr 20 ''M: Mixed''
       @ padr 20 ''RINEX VERSION / TYPE'' @ line_end
     @ padcut 20 ''gnss_comm obs2rinex'' @ padcut 20 [] @ padcut 20 (date_text now) @ padr 20 ''PGM / RUN BY / DATE'' @ line_end
     @ padcut 60 [] @ padr 20 ''MARKER NAME'' @ line_end
     @ padcut 20 [] @ padcut 40 [] @ padr 20 ''MARKER NUMBER'' @ line_end
     @ padcut 20 [] @ padcut 40 [] @ padr 20 ''MARKER TYPE'' @ line_end
     @ padcut 20 [] @ padcut 40 [] @ padr 20 ''OBSERVER / AGENCY'' @ line_end
     @ padcut 20 [] @ padcut 20 [] @ padcut 20 [] @ padr 20 ''REC # / TYPE / VERS'' @ line_end
     @ padcut 20 [] @ padcut 20 [] @ padcut 20 [] @ padr 20 ''ANT # / TYPE'' @ line_end
     @ padcut 14 [] @ padcut 14 [] @ padcut 14 [] @ padr 18 [] @ padr 20 ''APPROX POSITION XYZ'' @ line_end
     @ padcut 14 [] @ padcut 14 [] @ padcut 14 [] @ padr 18 [] @ padr 20 ''ANTENNA: DELTA H/E/N'' @ line_end
     @ concat (map (\<lambda>(c, types). types_text c types) written_types)"

definition time_text :: "gtime \<Rightarrow> string \<Rightarrow> string" where
  "time_text t label =
     (let ep = time2epoch t
      in ''  '' @ zero_pad_f64 4 (ep ! 0) @ pad_f64 6 0 (ep ! 1) @ pad_f64 6 0 (ep ! 2) @ pad_f64 6 0 (ep ! 3)
           @ pad_f64 6 0 (ep ! 4) @ pad_f64 13 7 (ep ! 5) @ ''     '' @ padr 12 ''GPS'' @ padr 20 label @ line_end)"

text \<open>The two loops that look for an epoch with observations run off the vector when there is none.\<close>

fun first_epoch :: "obs list list \<Rightarrow> rinex_error + gtime" where
  "first_epoch [] = Inl Overrun"
| "first_epoch (meas # ms) = (case meas of [] \<Rightarrow> first_epoch ms | ob # obs \<Rightarrow> Inr (obs_time ob))"

definition times_text :: "obs list list \<Rightarrow> rinex_error + string" where
  "times_text gnss_meas =
     (if gnss_meas = [] then Inr []
      else bind_res (first_epoch gnss_meas) (\<lambda>start_time. bind_res (first_epoch (rev gnss_meas)) (\<lambda>end_time.
        Inr (time_text start_time ''TIME OF FIRST OBS'' @ time_text end_time ''TIME OF LAST OBS''))))"

definition phase_shift_text :: string where
  "phase_shift_text = concat (map (\<lambda>c. [c] @ '' '' @ padr 58 [] @ padr 20 ''SYS / PHASE SHIFT'' @ line_end) ''GREC'')"

definition slot_text :: "(u32 \<times> int) list \<Rightarrow> nat \<Rightarrow> string" where
  "slot_text slots j =
     (if j < length slots then '' '' @ pad 3 (sat2str (fst (slots ! j))) @ '' '' @ pad_int 2 (snd (slots ! j))
      else '' '' @ pad 6 [])"

definition slots_text :: "(u32 \<times> int) list \<Rightarrow> string" where
  "slots_text slots =
     (let n = length slots; rows = (if n = 0 then 1 else (n - 1) div 8 + 1)
      in concat (map (\<lambda>i. (if i = 0 then pad_int 3 (int n) else pad 3 [])
           @ concat (map (\<lambda>j. slot_text slots (i * 8 + j)) [0..<8]) @ '' '' @ padr 20 ''GLONASS SLOT / FRQ #'' @ line_end) [0..<rows]))"

definition epoch_text :: "gtime \<Rightarrow> nat \<Rightarrow> string" where
  "epoch_text t n =
     (let ep = time2epoch t
      in ''> '' @ zero_pad_f64 4 (ep ! 0) @ '' '' @ pad_f64 2 0 (ep ! 1) @ '' '' @ pad_f64 2 0 (ep ! 2) @ '' ''
           @ pad_f64 2 0 (ep ! 3) @ '' '' @ pad_f64 2 0 (ep ! 4) @ pad_f64 11 7 (ep ! 5) @ ''  '' @ dec_int 0
           @ pad_int 3 (int n) @ pad 21 [] @ line_end)"

text \<open>\<open>xs[i]\<close> on a vector.\<close>

definition read_at :: "'a list \<Rightarrow> nat \<Rightarrow> rinex_error + 'a" where
  "read_at xs i = (if i < length xs then Inr (xs ! i) else Inl Overrun)"

definition value_text :: "f64 \<Rightarrow> string" where
  "value_text x = pad_f64 14 3 x @ pad 2 []"

definition band_text :: "obs \<Rightarrow> int \<Rightarrow> rinex_error + string" where
  "band_text ob k =
     (let (freq, freq_idx) = index_freq ob k in
      if flt freq f0 then Inr (pad 16 [] @ pad 16 [] @ pad 16 [] @ pad 16 [])
      else bind_res (read_at (obs_psr ob) (nat freq_idx)) (\<lambda>psr. bind_res (read_at (obs_cp ob) (nat freq_idx)) (\<lambda>cp.
        bind_res (read_at (obs_dopp ob) (nat freq_idx)) (\<lambda>dopp. bind_res (read_at (obs_cn0 ob) (nat freq_idx)) (\<lambda>cn0.
          Inr (value_text psr @ value_text cp @ value_text dopp @ value_text cn0))))))"

definition obs_line :: "obs \<Rightarrow> rinex_error + string" where
  "obs_line ob =
     bind_res (band_text ob 0) (\<lambda>b0. bind_res (band_text ob 1) (\<lambda>b1. Inr (pad 3 (sat2str (obs_sat ob)) @ b0 @ b1)))"

fun obs_lines :: "obs list \<Rightarrow> rinex_error + string" where
  "obs_lines [] = Inr []"
| "obs_lines (ob # obs) = bind_res (obs_line ob) (\<lambda>s. bind_res (obs_lines obs) (\<lambda>r. Inr (s @ line_end @ r)))"

text \<open>\<open>std::sort\<close> by satellite number; observations of one satellite in one epoch stay in their order.\<close>

definition epoch_record :: "obs list \<Rightarrow> rinex_error + string" where
  "epoch_record meas =
     (case meas of
        [] \<Rightarrow> Inr []
      | ob # obs \<Rightarrow> bind_res (obs_lines (sort_key obs_sat meas)) (\<lambda>s. Inr (epoch_text (obs_time ob) (length meas) @ s)))"

fun epoch_records :: "obs list list \<Rightarrow> rinex_error + string" where
  "epoch_records [] = Inr []"
| "epoch_records (meas # ms) = bind_res (epoch_record meas) (\<lambda>s. bind_res (epoch_records ms) (\<lambda>r. Inr (s @ r)))"

text \<open>The content of the file; \<open>opened\<close> tells whether \<open>fopen\<close> succeeded, which is not checked.\<close>

definition obs2rinex :: "bool \<Rightarrow> calendar \<Rightarrow> obs list list \<Rightarrow> rinex_error + string" where
  "obs2rinex opened now gnss_meas =
     (if \<not> opened then Inl Null_file
      else bind_res (times_text gnss_meas) (\<lambda>times. bind_res (epoch_records gnss_meas) (\<lambda>records.
        Inr (fixed_header now @ times @ phase_shift_text @ slots_text (get_glo_freqo gnss_meas)
          @ '' C1C    0.000 C1P    0.000 C2C    0.000 C2P    0.000        GLONASS COD/PHS/BIS '' @ line_end
          @ padcut 60 [] @ padr 20 ''END OF HEADER'' @ line_end @ records))))"

end
