(* ===== verification/Rinex_Codec.thy ===== *)
theory Rinex_Codec
  imports Rinex_Obs
begin

text \<open>
  What \<open>obs2rinex\<close> writes and what \<open>rinex2obs\<close> reads of it; the bands of the satellites.
\<close>

section \<open>One observation in text\<close>

definition band_missing :: "obs \<Rightarrow> int \<Rightarrow> bool" where
  "band_missing ob k \<longleftrightarrow> flt (fst (index_freq ob k)) f0"

text \<open>The eight values of a line: pseudorange, phase, Doppler and strength in two bands.\<close>

definition field_value :: "obs \<Rightarrow> nat \<Rightarrow> f64 option" where
  "field_value ob i =
     (let (freq, freq_idx) = index_freq ob (int (i div 4))
      in if flt freq f0 then None
         else Some ([obs_psr ob, obs_cp ob, obs_dopp ob, obs_cn0 ob] ! (i mod 4) ! nat freq_idx))"

definition field_text :: "obs \<Rightarrow> nat \<Rightarrow> string" where
  "field_text ob i = (case field_value ob i of None \<Rightarrow> pad 16 [] | Some x \<Rightarrow> value_text x)"

lemma band_text_fields:
  assumes "band_text ob (int k) = Inr s"
  shows "s = concat (map (field_text ob) [4 * k, 4 * k + 1, 4 * k + 2, 4 * k + 3])"
proof -
  obtain freq idx where i: "index_freq ob (int k) = (freq, idx)" by (cases "index_freq ob (int k)")
  have f: "field_text ob (4 * k + j)
      = (if flt freq f0 then pad 16 [] else value_text ([obs_psr ob, obs_cp ob, obs_dopp ob, obs_cn0 ob] ! j ! nat idx))"
    if "j < 4" for j
  proof -
    have "(4 * k + j) div 4 = k" "(4 * k + j) mod 4 = j" using that by simp_all
    then show ?thesis by (simp add: field_text_def field_value_def i)
  qed
  have "s = (if flt freq f0 then pad 16 [] @ pad 16 [] @ pad 16 [] @ pad 16 []
      else value_text (obs_psr ob ! nat idx) @ value_text (obs_cp ob ! nat idx)
        @ value_text (obs_dopp ob ! nat idx) @ value_text (obs_cn0 ob ! nat idx))"
    using assms by (auto simp add: band_text_def i bind_res_Inr read_at_def split: if_splits)
  then show ?thesis
    using f [of 0] f [of 1] f [of 2] f [of 3] by (cases "flt freq f0") simp_all
qed

lemma obs_line_fields:
  assumes "obs_line ob = Inr s"
  shows "s = pad 3 (sat2str (obs_sat ob)) @ concat (map (field_text ob) [0..<8])"
proof -
  obtain b0 b1 where b: "band_text ob (int 0) = Inr b0" "band_text ob (int 1) = Inr b1"
    and s: "s = pad 3 (sat2str (obs_sat ob)) @ b0 @ b1"
    using assms by (auto simp add: obs_line_def bind_res_Inr)
  have u: "[0..<8] = [0, 1, 2, 3, 4, 5, 6, 7 :: nat]" by code_simp
  show ?thesis unfolding s band_text_fields [OF b(1)] band_text_fields [OF b(2)] u
    by (simp add: numeral_2_eq_2 numeral_3_eq_3)
qed

text \<open>Values of the size the columns are made for.\<close>

definition printable :: "f64 \<Rightarrow> bool" where
  "printable x \<longleftrightarrow> (\<exists>m e. x = Fin m e) \<and> \<bar>f64_real x\<bar> \<le> 999999999"

definition obs_printable :: "obs \<Rightarrow> bool" where
  "obs_printable ob \<longleftrightarrow> (\<forall>i < 8. \<forall>x. field_value ob i = Some x \<longrightarrow> printable x)"

lemma length_pad: "length s \<le> w \<Longrightarrow> length (pad w s) = w"
  by (simp add: pad_def length_setw)

lemma pad_Nil [simp]: "pad w [] = replicate w CHR '' ''"
  by (simp add: pad_def setw_def)

lemma value_text_length: "printable x \<Longrightarrow> length (value_text x) = 16"
  using value_read by (fastforce simp add: printable_def value_text_def)

lemma field_text_length: "obs_printable ob \<Longrightarrow> i < 8 \<Longrightarrow> length (field_text ob i) = 16"
  by (auto simp add: field_text_def obs_printable_def value_text_length split: option.split)

lemma drop_fields:
  assumes "\<And>j. j < n \<Longrightarrow> length (f j) = w" and "i \<le> n"
  shows "drop (w * i) (concat (map f [0..<n])) = concat (map f [i..<n])"
  using assms(2)
proof (induction i)
  case (Suc i)
  then have "concat (map f [i..<n]) = f i @ concat (map f [Suc i..<n])" by (simp add: upt_conv_Cons)
  moreover have "drop (w * Suc i) xs = drop w (drop (w * i) xs)" for xs :: "'a list"
    by (simp add: add.commute)
  ultimately show ?case using Suc assms(1) [of i] by (simp del: drop_drop)
qed simp

lemma obs_line_field:
  assumes "obs_line ob = Inr s" and "obs_printable ob" and "length (sat2str (obs_sat ob)) = 3" and "i < 8"
  shows "take 14 (drop (3 + 16 * i) s) = take 14 (field_text ob i)"
proof -
  have "drop (3 + 16 * i) s = drop (16 * i) (concat (map (field_text ob) [0..<8]))"
    unfolding obs_line_fields [OF assms(1)] using assms(3) by (simp add: pad_def setw_def)
  also have "\<dots> = concat (map (field_text ob) [i..<8])"
    by (rule drop_fields) (use field_text_length [OF assms(2)] assms(4) in simp_all)
  also have "\<dots> = field_text ob i @ concat (map (field_text ob) [Suc i..<8])"
    using assms(4) by (simp add: upt_conv_Cons)
  finally show ?thesis using field_text_length [OF assms(2,4)] by simp
qed

lemma obs_line_length:
  assumes "obs_line ob = Inr s" and "obs_printable ob" and "length (sat2str (obs_sat ob)) = 3"
  shows "length s = 131"
proof -
  have "length (concat (map (field_text ob) [0..<n])) = 16 * n" if "n \<le> 8" for n
    using that by (induction n) (simp_all add: field_text_length [OF assms(2)])
  from this [of 8] show ?thesis
    unfolding obs_line_fields [OF assms(1)] using assms(3) by (simp add: length_pad)
qed

lemma field_text_value:
  assumes "printable x"
  shows "take 14 (value_text x) = pad_f64 14 3 x"
  using assms value_read by (fastforce simp add: printable_def value_text_def)

lemma sat_text:
  assumes "sat \<noteq> 0" and "sat \<le> MAX_SAT"
  obtains c sys prn where "satsys sat = (sys, prn)" "sat2str sat = c # setw 2 CHR ''0'' (dec (unat prn))"
    "length (setw 2 CHR ''0'' (dec (unat prn))) = 2" "char2sys c = Some sys" "c \<in> set ''GREC''"
    "stoi (setw 2 CHR ''0'' (dec (unat prn))) = Inr (int (unat prn))" "sat_no sys prn = sat"
proof -
  obtain sys prn where sp: "satsys sat = (sys, prn)" by fastforce
  let ?p = "setw 2 CHR ''0'' (dec (unat prn))"
  have sys: "sys \<in> {SYS_GPS, SYS_GLO, SYS_GAL, SYS_BDS}" and prn: "unat prn < 64"
    using satsys_cases [OF assms] by (simp_all add: sp)
  have len: "length ?p = 2" using prn by (simp add: length_setw_dec)
  have dig: "\<forall>c \<in> set ?p. is_digit c" by (rule setw_zero_digits)
  have "digits_int ?p = int (unat prn)" by (simp add: digits_int setw_digits digits_val_dec)
  moreover have "takeWhile is_digit ?p = ?p" using dig by (simp add: takeWhile_eq_all_conv)
  moreover have "?p \<noteq> []" using len by auto
  moreover have "uint prn < 64" using prn by (metis of_nat_less_iff of_nat_numeral uint_nat)
  then have "- (2 ^ 31) \<le> uint prn \<and> uint prn < 2 ^ 31"
    using order_trans [OF _ uint_ge_0, of "- (2 ^ 31)" prn] by simp
  ultimately have num: "stoi ?p = Inr (int (unat prn))"
    unfolding stoi_def split_sign_digits [OF \<open>?p \<noteq> []\<close> dig] prod.case Let_def
    by (simp only: if_False refl if_True split: if_split) simp
  have inv: "sat_no sys prn = sat" using sat_no_of_satsys [OF assms] by (simp add: sp)
  from sys show ?thesis
    by (auto intro!: that [OF sp _ len _ _ num inv] simp add: sat2str_def sp char2sys_def sys_defs Let_def)
qed

lemma pad_whole: "length s = w \<Longrightarrow> pad w s = s"
  by (simp add: pad_def setw_def)

lemma take_whole: "length x = n \<Longrightarrow> take n (x @ y) = x"
  by simp

text \<open>
  Claim C37.  A line that \<open>obs2rinex\<close> writes has the columns of the format: 131 characters, of which the first three
  name the satellite, and in each of the eight fields of 14 characters, two apart, either blanks, when the
  satellite has no frequency in the band, or a number that \<open>std::stod\<close> reads to within \<open>0.000501\<close> of the value.
\<close>

theorem obs_line_read:
  assumes "obs_line ob = Inr s" and "obs_printable ob" and "obs_sat ob \<noteq> 0" and "obs_sat ob \<le> MAX_SAT"
  shows "length s = 131 \<and> str2sat (take 3 s) = Inr (obs_sat ob)
    \<and> (\<forall>i < 8. case field_value ob i of
         None \<Rightarrow> take 14 (drop (3 + 16 * i) s) = replicate 14 CHR '' ''
       | Some x \<Rightarrow> (\<exists>v. stod (take 14 (drop (3 + 16 * i) s)) = Inr v \<and> \<bar>f64_real v - f64_real x\<bar> \<le> 501 / 1000000))"
proof -
  have l: "length (sat2str (obs_sat ob)) = 3" by (rule sat_text [OF assms(3,4)]) simp
  have "take 3 s = sat2str (obs_sat ob)"
    unfolding obs_line_fields [OF assms(1)] pad_whole [OF l] by (rule take_whole [OF l])
  then have "str2sat (take 3 s) = Inr (obs_sat ob)" using str2sat_sat2str [OF assms(3,4)] by simp
  moreover have "case field_value ob i of
         None \<Rightarrow> take 14 (drop (3 + 16 * i) s) = replicate 14 CHR '' ''
       | Some x \<Rightarrow> (\<exists>v. stod (take 14 (drop (3 + 16 * i) s)) = Inr v \<and> \<bar>f64_real v - f64_real x\<bar> \<le> 501 / 1000000)"
    if i: "i < 8" for i
  proof (cases "field_value ob i")
    case None
    then show ?thesis by (simp add: obs_line_field [OF assms(1,2) l i] field_text_def)
  next
    case (Some x)
    then have "printable x" using assms(2) i by (simp add: obs_printable_def)
    moreover from this have "take 14 (field_text ob i) = pad_f64 14 3 x" by (simp add: field_text_def Some field_text_value)
    ultimately show ?thesis
      using value_read by (auto simp add: Some obs_line_field [OF assms(1,2) l i] printable_def)
  qed
  ultimately show ?thesis using obs_line_length [OF assms(1,2) l] by blast
qed

section \<open>Reading such a line\<close>

lemma obs_field_blank:
  "off \<le> length s \<Longrightarrow> list_all (\<lambda>c. c = CHR '' '') (take 14 (drop off s)) \<Longrightarrow> obs_field s c off t ob = Inr ob"
  by (simp add: obs_field_def substr_def)

text \<open>A measurement type with a frequency, of one of the four kinds.\<close>

definition type_ok :: "char \<Rightarrow> string \<Rightarrow> bool" where
  "type_ok c t \<longleftrightarrow> (case t of a # b # r \<Rightarrow> a \<in> set ''LCDS'' \<and> type2freq [c, b] \<noteq> None | _ \<Rightarrow> False)"

lemma obs_field_overrun:
  assumes "off \<le> length s" and "\<not> list_all (\<lambda>c. c = CHR '' '') (take 14 (drop off s))"
    and "stod (take 14 (drop off s)) = Inr v" and "type_ok c t"
    and "obs_freqs ob = []" and "obs_cp ob = []" and "obs_psr ob = []" and "obs_dopp ob = []" and "obs_cn0 ob = []"
  shows "obs_field s c off t ob = Inl Overrun"
proof -
  obtain a b r f where t: "t = a # b # r" "a \<in> set ''LCDS''" "type2freq [c, b] = Some f"
    using assms(4) by (auto simp add: type_ok_def split: list.splits)
  show ?thesis
    using assms(1-3,5-) t(2,3) unfolding t(1)
    by (auto simp add: obs_field_def substr_def char_at_def at_key_def write_field_def write_at_def Let_def)
qed

lemma written_types_ok:
  "list_all (\<lambda>c. case map_of written_types c of None \<Rightarrow> False | Some ts \<Rightarrow> length ts = 8 \<and> list_all (type_ok c) ts) ''GREC''"
  by code_simp

lemma band_missing_field: "field_value ob i = None \<longleftrightarrow> band_missing ob (int (i div 4))"
  by (simp add: field_value_def band_missing_def split_beta Let_def)

lemma fill_new_obs: "fill_fields (empty_obs\<lparr>obs_sat := sat\<rparr>) = Inr (empty_obs\<lparr>obs_sat := sat\<rparr>)"
  by (simp add: fill_fields_def fill_def empty_obs_def)

lemma obs_fields_blank:
  assumes "\<And>j. j < length ts \<Longrightarrow> off + 16 * j \<le> length s \<and> list_all (\<lambda>c. c = CHR '' '') (take 14 (drop (off + 16 * j) s))"
  shows "obs_fields s c off (ts @ ts') ob = obs_fields s c (off + 16 * length ts) ts' ob"
  using assms
proof (induction ts arbitrary: off)
  case (Cons t ts)
  have "obs_field s c off t ob = Inr ob" using Cons.prems [of 0] by (simp add: obs_field_blank)
  moreover have "obs_fields s c (off + 16) (ts @ ts') ob = obs_fields s c (off + 16 + 16 * length ts) ts' ob"
    using Cons.prems [of "Suc _"] by (intro Cons.IH) (simp add: add.assoc)
  ultimately show ?case by (simp add: ac_simps)
qed simp

text \<open>The types in the header, as the reader of the header takes them.\<close>

definition read_written_types :: "rinex_error + char \<times> obs_types" where
  "read_written_types =
     foldl (\<lambda>r (c, ts). bind_res r (types_line (butlast (types_text c ts)))) (Inr (CHR 0x00, [])) written_types"

lemma written_types_read:
  "case read_written_types of
     Inr (c, types) \<Rightarrow> list_all (\<lambda>c. map_of types c = map_of written_types c) ''GREC'' | Inl e \<Rightarrow> False"
  by code_simp

lemma obs_line_at:
  assumes "obs_line ob = Inr s" and "obs_printable ob" and "obs_sat ob \<noteq> 0" and "obs_sat ob \<le> MAX_SAT"
    and "obs_fields s c 3 ts (empty_obs\<lparr>obs_sat := obs_sat ob\<rparr>) = r" and "map_of types c = Some ts"
    and "sat2str (obs_sat ob) = c # p"
  shows "rinex_line2obs s types = bind_res r (\<lambda>ob. bind_res (fill_fields ob) (\<lambda>ob. Inr (Some ob)))"
proof -
  obtain sys prn where t: "length p = 2" "char2sys c = Some sys" "stoi p = Inr (int (unat prn))" "sat_no sys prn = obs_sat ob"
    using sat_text [OF assms(3,4)] assms(7) by (metis list.inject)
  have l: "length (sat2str (obs_sat ob)) = 3" using t(1) assms(7) by simp
  obtain x where s: "s = c # p @ x"
    using obs_line_fields [OF assms(1)] pad_whole [OF l] assms(7) by simp
  have "char_at s 0 = Inr c" "substr s 1 2 = Inr p" using t(1) by (simp_all add: s char_at_def substr_def)
  then show ?thesis
    using t(2-4) assms(5,6) by (simp add: rinex_line2obs_def at_key_def)
qed

text \<open>
  Claim C38.  \<open>rinex2obs\<close> cannot read what \<open>obs2rinex\<close> writes.  The reader stores each value at an index of a vector
  that is still empty, so a line with a value makes it write outside the vector; a line without a value is
  read as an observation without frequencies, which it then drops.  The types the header announces are
  those the lines are read with.
\<close>

theorem written_line_overruns:
  assumes "obs_line ob = Inr s" and "obs_printable ob" and "obs_sat ob \<noteq> 0" and "obs_sat ob \<le> MAX_SAT"
    and "read_written_types = Inr (last_sys, types)"
  shows "rinex_line2obs s types
    = (if band_missing ob 0 \<and> band_missing ob 1 then Inr (Some (empty_obs\<lparr>obs_sat := obs_sat ob\<rparr>)) else Inl Overrun)"
proof -
  obtain c p where sat: "sat2str (obs_sat ob) = c # p" "c \<in> set ''GREC''" "length (sat2str (obs_sat ob)) = 3"
    by (rule sat_text [OF assms(3,4)]) simp
  have "map_of types c = map_of written_types c"
    using written_types_read sat(2) unfolding assms(5) by (simp only: sum.case prod.case list_all_iff)
  moreover obtain ts where ts: "map_of written_types c = Some ts" "length ts = 8" "list_all (type_ok c) ts"
    using written_types_ok sat(2) unfolding list_all_iff by (fastforce split: option.splits)
  ultimately have types: "map_of types c = Some ts" by simp
  let ?ob = "empty_obs\<lparr>obs_sat := obs_sat ob\<rparr>"
  have new: "obs_freqs ?ob = []" "obs_cp ?ob = []" "obs_psr ?ob = []" "obs_dopp ?ob = []" "obs_cn0 ?ob = []"
    by (simp_all add: empty_obs_def)
  have len: "length s = 131" by (rule obs_line_length [OF assms(1,2) sat(3)])
  note field = obs_line_field [OF assms(1,2) sat(3)]
  have blank: "3 + 16 * i \<le> length s \<and> list_all (\<lambda>c. c = CHR '' '') (take 14 (drop (3 + 16 * i) s))"
    if "i < 8" "band_missing ob (int (i div 4))" for i
    using that band_missing_field [of ob i] by (simp add: field len field_text_def list_all_iff)
  have present: "obs_field s c (3 + 16 * i) t ?ob = Inl Overrun"
    if i: "i < 8" "\<not> band_missing ob (int (i div 4))" and t: "t \<in> set ts" for i t
  proof -
    obtain x where x: "field_value ob i = Some x" using i band_missing_field [of ob i] by auto
    then have p: "printable x" using assms(2) i by (simp add: obs_printable_def)
    then have f: "take 14 (drop (3 + 16 * i) s) = pad_f64 14 3 x" by (simp add: field i x field_text_def field_text_value)
    obtain v where "stod (pad_f64 14 3 x) = Inr v" "\<not> list_all (\<lambda>c. c = CHR '' '') (pad_f64 14 3 x)"
      using p value_read unfolding printable_def by meson
    then show ?thesis
      using obs_field_overrun [of "3 + 16 * i" s v c t ?ob] ts(3) t i new by (simp add: f len list_all_iff)
  qed
  have "obs_fields s c 3 ts ?ob = (if band_missing ob 0 \<and> band_missing ob 1 then Inr ?ob else Inl Overrun)"
  proof (cases "band_missing ob 0")
    case False
    obtain t ts' where t: "ts = t # ts'" using ts(2) by (cases ts) auto
    then show ?thesis using present [of 0 t] False by simp
  next
    case True
    have "obs_fields s c 3 (take 4 ts @ drop 4 ts) ?ob = obs_fields s c (3 + 16 * length (take 4 ts)) (drop 4 ts) ?ob"
      by (rule obs_fields_blank) (use blank True ts(2) in auto)
    then have first: "obs_fields s c 3 ts ?ob = obs_fields s c 67 (drop 4 ts) ?ob" using ts(2) by simp
    show ?thesis
    proof (cases "band_missing ob 1")
      case False
      obtain t ts' where t: "drop 4 ts = t # ts'" using ts(2) by (cases "drop 4 ts") auto
      then have "t \<in> set ts" by (metis in_set_dropD list.set_intros(1))
      with present [of 4 t] False first t show ?thesis by simp
    next
      case missing: True
      have "obs_fields s c 67 (drop 4 ts @ []) ?ob = obs_fields s c (67 + 16 * length (drop 4 ts)) [] ?ob"
      proof (rule obs_fields_blank)
        fix j assume "j < length (drop 4 ts)"
        then have "4 + j < 8" "(4 + j) div 4 = 1" using ts(2) by simp_all
        with blank [of "4 + j"] missing
        show "67 + 16 * j \<le> length s \<and> list_all (\<lambda>c. c = CHR '' '') (take 14 (drop (67 + 16 * j) s))"
          by (simp add: algebra_simps)
      qed
      with True missing first show ?thesis by simp
    qed
  qed
  from obs_line_at [OF assms(1-4) this types sat(1)] show ?thesis by (simp add: fill_new_obs)
qed

definition demo_obs :: obs where
  "demo_obs = empty_obs\<lparr>obs_sat := 7, obs_freqs := [FREQ1], obs_psr := [Fin 3 (- 1)], obs_cp := [Fin 3 (- 1)],
     obs_dopp := [Fin 3 (- 1)], obs_cn0 := [Fin 3 (- 1)]\<rparr>"

lemma demo_fields: "map (field_value demo_obs) [0..<8] = replicate 4 (Some (Fin 3 (- 1))) @ replicate 4 None"
  by code_simp

lemma demo_printable: "obs_printable demo_obs"
proof -
  have "field_value demo_obs i = (replicate 4 (Some (Fin 3 (- 1))) @ replicate 4 None) ! i" if "i < 8" for i
    using arg_cong [OF demo_fields, of "\<lambda>xs. xs ! i"] that by simp
  then show ?thesis
    by (auto simp add: obs_printable_def printable_def f64_real_def two_powi nth_append)
qed

lemma demo_line: obtains s where "obs_line demo_obs = Inr s"
proof -
  have "case obs_line demo_obs of Inr s \<Rightarrow> True | Inl e \<Rightarrow> False" by code_simp
  with that show ?thesis by (auto split: sum.splits)
qed

theorem obs_line_read_witness:
  "\<exists>s. obs_line demo_obs = Inr s \<and> length s = 131 \<and> str2sat (take 3 s) = Inr 7
     \<and> (\<exists>v. stod (take 14 (drop 3 s)) = Inr v \<and> \<bar>f64_real v - 3 / 2\<bar> \<le> 501 / 1000000)"
proof -
  obtain s where s: "obs_line demo_obs = Inr s" by (rule demo_line)
  have sat: "obs_sat demo_obs = 7" by (simp add: demo_obs_def)
  have v: "field_value demo_obs 0 = Some (Fin 3 (- 1))"
    using arg_cong [OF demo_fields, of "\<lambda>xs. xs ! 0"] by (simp add: nth_append)
  have r: "f64_real (Fin 3 (- 1)) = 3 / 2" by (simp add: f64_real_def two_powi)
  have a: "length s = 131 \<and> str2sat (take 3 s) = Inr (obs_sat demo_obs)
    \<and> (\<forall>i < 8. case field_value demo_obs i of
         None \<Rightarrow> take 14 (drop (3 + 16 * i) s) = replicate 14 CHR '' ''
       | Some x \<Rightarrow> (\<exists>v. stod (take 14 (drop (3 + 16 * i) s)) = Inr v \<and> \<bar>f64_real v - f64_real x\<bar> \<le> 501 / 1000000))"
    by (rule obs_line_read [OF s demo_printable]) (simp_all add: sat prn_defs)
  then have "case field_value demo_obs 0 of None \<Rightarrow> True
    | Some x \<Rightarrow> (\<exists>v. stod (take 14 (drop 3 s)) = Inr v \<and> \<bar>f64_real v - f64_real x\<bar> \<le> 501 / 1000000)"
    by (auto split: option.split dest!: spec [of _ 0])
  with s v r a show ?thesis by (simp only: option.case sat) blast
qed

theorem written_line_overruns_witness:
  "\<exists>s c types. obs_line demo_obs = Inr s \<and> read_written_types = Inr (c, types)
     \<and> rinex_line2obs s types = Inl Overrun"
proof -
  obtain s where s: "obs_line demo_obs = Inr s" by (rule demo_line)
  obtain c types where t: "read_written_types = Inr (c, types)"
    using written_types_read by (auto split: sum.splits prod.splits)
  have "\<not> band_missing demo_obs 0" by code_simp
  then have "rinex_line2obs s types = Inl Overrun"
    using written_line_overruns [OF s demo_printable _ _ t] by (simp add: demo_obs_def prn_defs)
  with s t show ?thesis by blast
qed

section \<open>The whole file\<close>

text \<open>What the writer needs of an observation: the four vectors reach up to the index of each frequency it writes.\<close>

definition obs_complete :: "obs \<Rightarrow> bool" where
  "obs_complete ob \<longleftrightarrow> (\<forall>k \<in> {0, 1}. band_missing ob k \<or>
     (\<forall>n \<in> {length (obs_psr ob), length (obs_cp ob), length (obs_dopp ob), length (obs_cn0 ob)}.
        nat (snd (index_freq ob k)) < n))"

lemma band_text_ok:
  "(\<exists>s. band_text ob k = Inr s) \<longleftrightarrow> band_missing ob k \<or>
     (\<forall>n \<in> {length (obs_psr ob), length (obs_cp ob), length (obs_dopp ob), length (obs_cn0 ob)}.
        nat (snd (index_freq ob k)) < n)"
  by (auto simp add: band_text_def band_missing_def read_at_def split_beta bind_res_Inr)

lemma obs_line_ok: "(\<exists>s. obs_line ob = Inr s) \<longleftrightarrow> obs_complete ob"
proof -
  have "(\<exists>s. obs_line ob = Inr s) \<longleftrightarrow> (\<exists>s. band_text ob 0 = Inr s) \<and> (\<exists>s. band_text ob 1 = Inr s)"
    by (auto simp add: obs_line_def bind_res_Inr)
  then show ?thesis by (simp add: band_text_ok obs_complete_def)
qed

lemma obs_lines_ok: "(\<exists>s. obs_lines obs = Inr s) \<longleftrightarrow> (\<forall>ob \<in> set obs. obs_complete ob)"
proof (induction obs)
  case (Cons ob obs)
  have "(\<exists>s. obs_lines (ob # obs) = Inr s) \<longleftrightarrow> (\<exists>s. obs_line ob = Inr s) \<and> (\<exists>s. obs_lines obs = Inr s)"
    by (auto simp add: bind_res_Inr)
  with Cons show ?case by (simp add: obs_line_ok del: obs_lines.simps)
qed simp

lemma epoch_records_ok: "(\<exists>s. epoch_records ms = Inr s) \<longleftrightarrow> (\<forall>meas \<in> set ms. \<forall>ob \<in> set meas. obs_complete ob)"
proof (induction ms)
  case (Cons meas ms)
  have "(\<exists>s. epoch_record meas = Inr s) \<longleftrightarrow> (\<forall>ob \<in> set meas. obs_complete ob)"
  proof (cases meas)
    case Cons2: (Cons ob obs)
    have "(\<exists>s. epoch_record meas = Inr s) \<longleftrightarrow> (\<exists>s. obs_lines (sort_key obs_sat meas) = Inr s)"
      by (auto simp add: epoch_record_def Cons2 bind_res_Inr)
    then show ?thesis by (simp add: obs_lines_ok)
  qed (simp add: epoch_record_def)
  moreover have "(\<exists>s. epoch_records (meas # ms) = Inr s) \<longleftrightarrow> (\<exists>s. epoch_record meas = Inr s) \<and> (\<exists>s. epoch_records ms = Inr s)"
    by (auto simp add: bind_res_Inr)
  ultimately show ?case using Cons by (simp del: epoch_records.simps)
qed simp

lemma first_epoch_ok: "(\<exists>t. first_epoch ms = Inr t) \<longleftrightarrow> (\<exists>meas \<in> set ms. meas \<noteq> [])"
  by (induction ms) (auto split: list.split)

lemma times_text_ok: "(\<exists>s. times_text ms = Inr s) \<longleftrightarrow> ms = [] \<or> (\<exists>meas \<in> set ms. meas \<noteq> [])"
  using first_epoch_ok [of ms] first_epoch_ok [of "rev ms"]
  by (auto simp add: times_text_def bind_res_Inr)

text \<open>
  Claim C39.  \<open>obs2rinex\<close> finishes exactly when the file could be opened, there is no epoch at all or one that is
  not empty, and every observation has its four values at the index of each frequency that is written.
  Otherwise it uses a null file or runs outside a vector: the test for an empty list of epochs
  does not cover a list of empty epochs.
\<close>

theorem obs2rinex_finishes_iff:
  "(\<exists>s. obs2rinex opened now gnss_meas = Inr s) \<longleftrightarrow>
     opened \<and> (gnss_meas = [] \<or> (\<exists>meas \<in> set gnss_meas. meas \<noteq> []))
       \<and> (\<forall>meas \<in> set gnss_meas. \<forall>ob \<in> set meas. obs_complete ob)"
proof -
  have "(\<exists>s. obs2rinex opened now gnss_meas = Inr s)
      \<longleftrightarrow> opened \<and> (\<exists>s. times_text gnss_meas = Inr s) \<and> (\<exists>s. epoch_records gnss_meas = Inr s)"
    by (auto simp add: obs2rinex_def bind_res_Inr)
  then show ?thesis by (simp add: times_text_ok epoch_records_ok)
qed

theorem obs2rinex_finishes_iff_witness:
  "\<not> (\<exists>s. obs2rinex True (2020, 1, 1, 0, 0, 0) [[]] = Inr s)
    \<and> (\<exists>s. obs2rinex True (2020, 1, 1, 0, 0, 0) [[], [demo_obs]] = Inr s)"
proof -
  have "obs_complete demo_obs" using obs_line_ok demo_line by metis
  then show ?thesis unfolding obs2rinex_finishes_iff by simp
qed

section \<open>Bands\<close>

lemma find_freq_limits:
  assumes "find_freq bnds fs i = (freq, idx)" and "0 \<le> i" and "0 \<le> idx"
  shows "fle (fst bnds) freq \<and> fle freq (snd bnds) \<and> i \<le> idx \<and> idx < i + int (length fs) \<and> freq = fs ! nat (idx - i)"
  using assms
proof (induction fs arbitrary: i)
  case (Cons f fs)
  show ?case
  proof (cases "fle (fst bnds) f \<and> fle f (snd bnds)")
    case False
    with Cons have "fle (fst bnds) freq \<and> fle freq (snd bnds) \<and> i + 1 \<le> idx \<and> idx < i + 1 + int (length fs)
        \<and> freq = fs ! nat (idx - (i + 1))"
      by (intro Cons.IH) auto
    moreover from this have "nat (idx - i) = Suc (nat (idx - (i + 1)))" by linarith
    ultimately show ?thesis by auto
  qed (use Cons.prems in auto)
qed simp

lemma fle_trans:
  assumes "fle x y" and "fle y z"
  shows "fle x z"
proof (cases "(\<exists>a e. x = Fin a e) \<and> (\<exists>a e. y = Fin a e) \<and> (\<exists>a e. z = Fin a e)")
  case True
  with assms show ?thesis by (auto simp only: fle_real)
qed (use assms in \<open>cases x; cases y; cases z; auto simp add: fle_def\<close>)

lemma glo_limits:
  "glo_freq FREQ1_GLO DFRQ1_GLO 6 = f64_int 1605375000" "glo_freq FREQ1_GLO DFRQ1_GLO (- 7) = f64_int 1598062500"
  "glo_freq FREQ2_GLO DFRQ2_GLO 6 = f64_int 1248625000" "glo_freq FREQ2_GLO DFRQ2_GLO (- 7) = f64_int 1242937500"
  by code_simp+

lemma glo_numbers:
  "list_all (\<lambda>n. freq_number (glo_freq FREQ1_GLO DFRQ1_GLO n) = Some n \<and> freq_number (glo_freq FREQ2_GLO DFRQ2_GLO n) = Some n)
     [- 7..6]"
  by code_simp

lemma feq_sym: "feq x y \<Longrightarrow> feq y x"
  by (cases x; cases y) (auto simp add: Let_def min.commute)

lemma fle_antisym: "fle x y \<and> fle y x \<longleftrightarrow> feq x y"
  using flt_asym [of x y] feq_sym [of x y] feq_sym [of y x] by (auto simp add: fle_def)

lemma feq_real: "feq (Fin a e) (Fin b f) \<longleftrightarrow> f64_real (Fin a e) = f64_real (Fin b f)"
  using fle_antisym [of "Fin a e" "Fin b f"] by (simp only: fle_real) auto

lemma feq_trans:
  assumes "feq x y" and "feq x z"
  shows "feq y z"
proof (cases "(\<exists>a e. x = Fin a e) \<and> (\<exists>a e. y = Fin a e) \<and> (\<exists>a e. z = Fin a e)")
  case True
  with assms show ?thesis by (auto simp only: feq_real)
qed (use assms in \<open>cases x; cases y; cases z; auto\<close>)

lemma freqs_differ: "\<not> feq FREQ2 FREQ1" "\<not> feq FREQ7 FREQ1" "\<not> feq FREQ2_BDS FREQ1_BDS"
  by code_simp+

lemma glo_bands: "fle (glo_freq FREQ1_GLO DFRQ1_GLO 6) (glo_freq FREQ1_GLO DFRQ1_GLO 6)"
  "fle (glo_freq FREQ2_GLO DFRQ2_GLO 6) (glo_freq FREQ1_GLO DFRQ1_GLO 6)"
  by code_simp+

lemma satsys_known:
  assumes "fst (satsys sat) \<noteq> SYS_NONE"
  shows "fst (satsys sat) \<in> {SYS_GPS, SYS_GLO, SYS_GAL, SYS_BDS}"
proof -
  have "sat \<noteq> 0 \<and> sat \<le> MAX_SAT" using assms by (auto simp add: satsys_def split: if_splits)
  then show ?thesis using satsys_cases(1) by blast
qed

lemma limits:
  "band_limits SYS_GPS 0 = (FREQ1, FREQ1)" "band_limits SYS_GPS 1 = (FREQ2, FREQ2)"
  "band_limits SYS_GAL 0 = (FREQ1, FREQ1)" "band_limits SYS_GAL 1 = (FREQ7, FREQ7)"
  "band_limits SYS_BDS 0 = (FREQ1_BDS, FREQ1_BDS)" "band_limits SYS_BDS 1 = (FREQ2_BDS, FREQ2_BDS)"
  "snd (band_limits SYS_GLO 0) = glo_freq FREQ1_GLO DFRQ1_GLO 6"
  "snd (band_limits SYS_GLO 1) = glo_freq FREQ2_GLO DFRQ2_GLO 6"
  by (simp_all add: band_limits_def sys_defs)

lemma obs_index_sys:
  "obs_index SYS_GPS freq = (if feq freq FREQ1 then 0 else if feq freq FREQ2 then 1 else - 1)"
  "obs_index SYS_GAL freq = (if feq freq FREQ1 then 0 else if feq freq FREQ7 then 1 else - 1)"
  "obs_index SYS_BDS freq = (if feq freq FREQ1_BDS then 0 else if feq freq FREQ2_BDS then 1 else - 1)"
  "fle freq (glo_freq FREQ1_GLO DFRQ1_GLO 6) \<Longrightarrow> obs_index SYS_GLO freq = 0"
  by (simp_all add: obs_index_def sys_defs)

lemma band_of_freq:
  assumes "sys \<in> {SYS_GPS, SYS_GLO, SYS_GAL, SYS_BDS}" and "k \<in> {0, 1}"
    and "fle (fst (band_limits sys k)) freq" and "fle freq (snd (band_limits sys k))"
  shows "obs_index sys freq = (if sys = SYS_GLO then 0 else k)"
proof -
  have eq: "feq freq x" if "band_limits sys k = (x, x)" for x
    using assms(3,4) that fle_antisym [of freq x] by simp
  have other: "feq freq FREQ2 \<Longrightarrow> \<not> feq freq FREQ1" "feq freq FREQ7 \<Longrightarrow> \<not> feq freq FREQ1"
    using freqs_differ feq_trans [of freq _ FREQ1] by blast+
  have other2: "\<not> feq freq FREQ1_BDS" if "feq freq FREQ2_BDS"
    using that freqs_differ feq_trans [of freq _ FREQ1_BDS] by blast
  have differ: "SYS_GPS \<noteq> SYS_GLO" "SYS_GAL \<noteq> SYS_GLO" "SYS_BDS \<noteq> SYS_GLO" by (simp_all add: sys_defs)
  consider "sys = SYS_GPS" | "sys = SYS_GAL" | "sys = SYS_BDS" | "sys = SYS_GLO" using assms(1) by blast
  then show ?thesis
  proof cases
    case 4
    then have "fle freq (glo_freq FREQ1_GLO DFRQ1_GLO 6)"
      using assms(2,4) fle_trans [OF _ glo_bands(2), of freq] by (auto simp only: insert_iff empty_iff limits)
    with 4 show ?thesis by (simp add: obs_index_sys)
  qed (use assms(2) eq other other2 differ in \<open>auto simp add: limits obs_index_sys\<close>)
qed

lemma L1_freq_index:
  assumes "fst (satsys (obs_sat ob)) \<noteq> SYS_NONE"
  shows "L1_freq ob = index_freq ob 0"
  using satsys_known [OF assms] by (auto simp add: L1_freq_def index_freq_def band_limits_def sys_defs Let_def)

text \<open>
  Claim C40.  The frequency that \<open>index_freq\<close> finds in a band is one of the observation, at the index it gives, and
  \<open>obs_index\<close> gives back the band, except for GLONASS, where the upper limit of the first band is the
  only one that is ever tested and the second band is reported as the first.  \<open>L1_freq\<close> finds what \<open>index_freq\<close>
  finds in the first band.  The frequency numbers that \<open>get_glo_freqo\<close> computes are those of the frequencies, in both bands.
\<close>

theorem bands_consistent:
  assumes "index_freq ob k = (freq, idx)" and "0 \<le> idx" and "k \<in> {0, 1}"
    and "sys = fst (satsys (obs_sat ob))" and "sys \<noteq> SYS_NONE"
  shows "nat idx < length (obs_freqs ob) \<and> freq = obs_freqs ob ! nat idx
    \<and> obs_index sys freq = (if sys = SYS_GLO then 0 else k)
    \<and> L1_freq ob = index_freq ob 0
    \<and> (\<forall>n \<in> {- 7..6}. freq_number (glo_freq FREQ1_GLO DFRQ1_GLO n) = Some n
        \<and> freq_number (glo_freq FREQ2_GLO DFRQ2_GLO n) = Some n)"
proof -
  have f: "find_freq (band_limits sys k) (obs_freqs ob) 0 = (freq, idx)"
    using assms(1,4) by (simp add: index_freq_def)
  note l = find_freq_limits [OF f order_refl assms(2)]
  have "obs_index sys freq = (if sys = SYS_GLO then 0 else k)"
    by (rule band_of_freq) (use l assms(3,4,5) satsys_known [of "obs_sat ob"] in auto)
  moreover have "\<forall>n \<in> {- 7..6}. freq_number (glo_freq FREQ1_GLO DFRQ1_GLO n) = Some n
      \<and> freq_number (glo_freq FREQ2_GLO DFRQ2_GLO n) = Some n"
    using glo_numbers unfolding list_all_iff set_upto by (simp only:)
  moreover have "L1_freq ob = index_freq ob 0" using L1_freq_index assms(4,5) by simp
  moreover have "nat idx < length (obs_freqs ob)" using l by (simp add: nat_less_iff)
  ultimately show ?thesis using l by simp
qed

theorem bands_consistent_witness:
  "index_freq demo_obs 0 = (FREQ1, 0) \<and> obs_index SYS_GPS FREQ1 = 0
    \<and> freq_number (glo_freq FREQ2_GLO DFRQ2_GLO (- 7)) = Some (- 7)"
proof -
  have i: "index_freq demo_obs 0 = (FREQ1, 0)" by code_simp
  have s: "SYS_GPS = fst (satsys (obs_sat demo_obs))" "SYS_GPS \<noteq> SYS_NONE" "SYS_GPS \<noteq> SYS_GLO" by code_simp+
  have "- 7 \<in> {- 7..6 :: int}" by simp
  with bands_consistent [OF i _ _ s(1,2)] i s(3) show ?thesis by simp
qed

end
