(* ===== verification/Spec2Isabelle.thy ===== *)
theory Spec2Isabelle
  imports Ubx_Reads Ubx_Pvt Driver State_Registry Rinex_Nav Rinex_Codec
begin

text \<open>
  A verification library of the GNSS driver in \<open>src/\<close>: the ROS 2 package \<open>ublox_driver\<close>, which talks to a
  u-blox receiver, and the library \<open>gnss_comm\<close> it uses.

  The program.  \<open>GNSSDriverManager\<close> (\<open>ublox_driver.cpp\<close>) reads its parameters (\<open>params.cpp\<close>), opens the serial port
  (\<open>serial_handler.cpp\<close>), sends the receiver its configuration and waits for the acknowledgement, and then hands
  each UBX message to \<open>UbloxMessageProcessor\<close> (\<open>ublox_message_processor.cpp\<close> and its \<open>_helper.cpp\<close>), which checks
  and decodes it; \<open>UbloxRosHandler\<close> (\<open>ros_handler.cpp\<close>) converts the result with \<open>gnss_ros.cpp\<close> and publishes it.
  The other way round, \<open>TcpClient\<close> and \<open>NtripClient\<close> (\<open>tcp_client.cpp\<close>, \<open>ntrip_client.cpp\<close>) fetch RTCM corrections; each
  chunk is monitored, its frames are published, and it is written to the receiver; once a second the last
  position goes to the caster as a GGA sentence.  Beside the driver, \<open>rinex_helper.cpp\<close> exchanges ephemerides and
  observations with RINEX files.

  The theories, in the order of their dependence, and the code they model.

  \<^item> \<open>Prelude\<close>: octets, little-endian reads, writes into a buffer, and the lemmas the others share.
  \<^item> \<open>Float64\<close>: IEEE doubles on integers, rounded to nearest even; conversions to \<open>int\<close>.  \<open>Cxx_Float\<close>: doubles in fixed
    notation, and how close the text is.  \<open>Cxx_Text\<close>, \<open>Cxx_Strings\<close>:
    what the code uses of \<open>std::string\<close> and of number parsing and printing.
  \<^item> \<open>Gnss_Time\<close>, \<open>Gnss_Sat\<close> (\<open>gnss_utility.cpp\<close>): calendar, week and time of week, leap seconds; satellite numbers.
  \<^item> \<open>Gnss_Msg\<close> (\<open>gnss_ros.cpp\<close>): the data records and their ROS messages, both ways.
  \<^item> \<open>Ubx_Frame\<close>: UBX framing, checksum, acknowledgement.  \<open>Bit_Codec\<close>: big-endian bit fields.
    \<open>Crc24q\<close>: the two CRC-24Q routines.
  \<^item> \<open>Nav_Common\<close>, \<open>Nav_GPS\<close>, \<open>Nav_BDS\<close>, \<open>Nav_GAL\<close>, \<open>Nav_GLO\<close>: the store of navigation subframes and the four
    ephemeris decoders.  \<open>Ubx_Signals\<close>, \<open>Ubx_Meas\<close>: signal tables and raw observations.
  \<^item> \<open>Ros_Handler\<close>, \<open>Ubx_Processor\<close>: publishing, and \<open>process_data\<close> with its handlers; \<open>Ubx_Safety\<close>, \<open>Ubx_Reads\<close>,
    \<open>Ubx_Pvt\<close>: what holds over any sequence of messages, what is read of a message, and the stamp of a solution.
  \<^item> \<open>Stream_Cutter\<close>: a locale for loops that cut messages out of a growing buffer (the interface: a body that
    returns, continues or publishes, and shortens the buffer), interpreted by \<open>Rtcm_Stream\<close> (the monitor of
    \<open>ublox_driver.cpp\<close>) and by \<open>Serial_Link\<close> (the abstract reader that \<open>read_loop\<close> refines).
  \<^item> \<open>Serial_Link\<close>, \<open>Serial_Life\<close> (\<open>serial_handler.cpp\<close>): reading messages; opening the port, writing, and the life of
    the reader thread as a step relation with its wake pipe.
  \<^item> \<open>Rcv_Config\<close>, \<open>Ucenter_Config\<close>, \<open>Params\<close>: the configuration message, the u-center file, the parameters.
  \<^item> \<open>Ntrip_Request\<close>, \<open>Tcp_Client\<close>, \<open>Ntrip_Stream\<close>: the request with Base64, the client's loop over the answers of
    the network, a session with a caster.
  \<^item> \<open>Nmea_Gga\<close>, \<open>Driver_Startup\<close>, \<open>Driver\<close> (\<open>ublox_driver.cpp\<close>): the GGA sentence, the start, and the running manager.
  \<^item> \<open>Cxx_Map\<close>: \<open>std::map\<close> as an ordered list, with a locale for what its clients rely on; they are \<open>State_Registry\<close>
    (\<open>state_machine_registry.cpp\<close>), \<open>Rinex_Nav\<close> and \<open>Rinex_Obs\<close>.
  \<^item> \<open>Rinex_Text\<close>, \<open>Rinex_Nav\<close>, \<open>Rinex_Obs\<close>, \<open>Rinex_Codec\<close> (\<open>rinex_helper.cpp\<close>): files and numbers in columns, the
    navigation reader, the observation reader and writer, and what the one reads of what the other writes.

  State and operations.  A C++ object is a record (\<open>ubx_state\<close>, \<open>rtcm_state\<close>, \<open>serial\<close>, \<open>link\<close>, \<open>tcp\<close>, \<open>driver\<close>,
  \<open>manager\<close>), passed and returned; a member function is a definition of its name.  Machine integers keep their
  width as words, or wrap where the text says so; an out-of-bounds write is the result \<open>Overflowed\<close> or
  \<open>Overrun\<close>, a null dereference the result \<open>Null_deref\<close>, an exception a value of a sum.  What a system call, the
  device or the network answers is a list of answers in the state; a call that would wait for more answers than
  the list has is \<open>None\<close> or \<open>Blocked\<close>, so a theorem about it holds for every prefix of a history.  Log output is left out.

  What the groups of lemmas show.  Framing: each checksum detects every error in one octet; the two CRC routines agree.
  Decoding: bit fields round-trip, subframes land at their place, each decoder accepts exactly the
  consistent sets, no octet outside a message is read.  Streams: however a stream is cut into pieces, the
  same messages come out, all valid messages are found, buffers are bounded.  Time: calendar and week conversions are
  inverse, stamps are in the nearest week.  Text: what the driver prints (configuration, request, GGA, RINEX
  lines) is read back.  Threads: stopping reaches the join, the client never gives up.  Composition: over any history everything
  published is sound, the start ends, and corrections pass through unchanged.  Where the code does not do what it
  means to do, the theorem states what it does, and the text before it says so.

  Bounds.  No recursion uses fuel: the loops over answers end because answers are used up (a measure), the
  waiting loop \<open>await_ack\<close> is a \<open>partial_function\<close> whose return is proved from a clock that moves.

  Not modelled.  Least-squares positioning (\<open>gnss_spp.cpp\<close>, matrix algebra of Eigen), orbits, clocks, coordinates and
  atmosphere in \<open>gnss_utility.cpp\<close> (trigonometric functions of the C library, whose last bits are not specified),
  the executables under \<open>apps/\<close> and \<open>gnss_cvt_toolkit\<close> (glue around ROS and bag files), logging, and creating ROS publishers.
\<close>

end
